(* ===== verification/Prelude.thy ===== *)
theory Prelude
  imports "HOL-Library.Word" "HOL-Library.Monad_Syntax"
begin

unbundle bit_operations_syntax

text \<open>
  Shared vocabulary of the development. The theory fixes the names of the machine integers,
  the reading of the C operators on them, counted loops over a state, and the partiality
  monad. A C function that may run into \<^verbatim>\<open>furi_check\<close>, \<^verbatim>\<open>furi_crash\<close> or an access outside
  its buffers has the result type \<open>'a option\<close>; \<open>None\<close> says that it does not return.
  The second half is the library proper: bit lists read as numbers, the interface of
  bit-addressed stores (locale \<open>bit_store\<close>), and facts on words of the widths in use.
\<close>

section \<open>Machine integers and C operators\<close>

type_synonym u8 = "8 word"
type_synonym u16 = "16 word"
type_synonym u32 = "32 word"
type_synonym u64 = "64 word"

abbreviation shl :: "'a::len word \<Rightarrow> nat \<Rightarrow> 'a word" where
  "shl x n \<equiv> push_bit n x"

abbreviation shr :: "'a::len word \<Rightarrow> nat \<Rightarrow> 'a word" where
  "shr x n \<equiv> drop_bit n x"

text \<open>\<^verbatim>\<open>FURI_BIT(x, n)\<close> of \<^verbatim>\<open>furi/core/core_defines.h\<close>.\<close>

definition FURI_BIT :: "'a::len word \<Rightarrow> nat \<Rightarrow> 'a word" where
  "FURI_BIT x n = shr x n AND 1"

text \<open>GCC's \<^verbatim>\<open>__builtin_popcount\<close> and \<^verbatim>\<open>__builtin_parity\<close>.\<close>

definition builtin_popcount :: "'a::len word \<Rightarrow> nat" where
  "builtin_popcount w = length (filter (bit w) [0..<LENGTH('a)])"

definition builtin_parity :: "'a::len word \<Rightarrow> bool" where
  "builtin_parity w = odd (builtin_popcount w)"

section \<open>Control flow\<close>

text \<open>\<^verbatim>\<open>for(i = lo; i < hi; i++) body\<close> without an early exit.\<close>

definition for_loop :: "nat \<Rightarrow> nat \<Rightarrow> (nat \<Rightarrow> 's \<Rightarrow> 's) \<Rightarrow> 's \<Rightarrow> 's" where
  "for_loop lo hi body s = fold body [lo..<hi] s"

text \<open>A \<^verbatim>\<open>furi_check\<close> that guards the rest of a function.\<close>

definition furi_check :: "bool \<Rightarrow> unit option" where
  "furi_check b = (if b then Some () else None)"

text \<open>A buffer read and a buffer write that stay inside the buffer or do not return.\<close>

definition rd :: "'a list \<Rightarrow> nat \<Rightarrow> 'a option" where
  "rd xs i = (if i < length xs then Some (xs ! i) else None)"

definition wr :: "'a list \<Rightarrow> nat \<Rightarrow> 'a \<Rightarrow> 'a list option" where
  "wr xs i v = (if i < length xs then Some (xs[i := v]) else None)"

text \<open>\<^verbatim>\<open>memcpy(dst + off, src + soff, n)\<close> and \<^verbatim>\<open>memset(dst, v, n)\<close> on whole buffers.\<close>

definition memcpy :: "'a list \<Rightarrow> nat \<Rightarrow> 'a list \<Rightarrow> nat \<Rightarrow> nat \<Rightarrow> 'a list option" where
  "memcpy dst off src soff n =
     (if off + n \<le> length dst \<and> soff + n \<le> length src
      then Some (take off dst @ take n (drop soff src) @ drop (off + n) dst) else None)"

definition memset :: "'a list \<Rightarrow> 'a \<Rightarrow> nat \<Rightarrow> 'a list option" where
  "memset dst v n = (if n \<le> length dst then Some (replicate n v @ drop n dst) else None)"

named_theorems c_defs \<open>definitions of the C primitives, unfolded by component proofs\<close>

declare furi_check_def [c_defs] rd_def [c_defs] wr_def [c_defs]
  memcpy_def [c_defs] memset_def [c_defs]

lemma furi_check_eq_Some [simp]: "furi_check b = Some u \<longleftrightarrow> b"
  by (simp add: furi_check_def)

lemma furi_check_True [simp]: "furi_check True = Some ()"
  by (simp add: furi_check_def)

lemma furi_check_False [simp]: "furi_check False = None"
  by (simp add: furi_check_def)

lemma length_memcpy: "memcpy dst off src soff n = Some d \<Longrightarrow> length d = length dst"
  by (auto simp: memcpy_def split: if_splits)

lemma length_memset: "memset dst v n = Some d \<Longrightarrow> length d = length dst"
  by (auto simp: memset_def split: if_splits)

lemma length_wr: "wr xs i v = Some ys \<Longrightarrow> length ys = length xs"
  by (auto simp: wr_def split: if_splits)

lemmas buffer_lengths = length_memcpy length_memset length_wr

lemma for_loop_empty [simp]: "hi \<le> lo \<Longrightarrow> for_loop lo hi body s = s"
  by (simp add: for_loop_def)

lemma for_loop_0 [simp]: "for_loop lo 0 body s = s"
  by (simp add: for_loop_def)

lemma for_loop_Suc: "lo \<le> hi \<Longrightarrow> for_loop lo (Suc hi) body s = body hi (for_loop lo hi body s)"
  by (simp add: for_loop_def)

lemma for_loop_unfold:
  "for_loop lo hi body s = (if lo < hi then for_loop (Suc lo) hi body (body lo s) else s)"
  by (simp add: for_loop_def upt_rec)

lemma for_loop_cong [fundef_cong]:
  "lo = lo' \<Longrightarrow> hi = hi' \<Longrightarrow> s = s' \<Longrightarrow>
   (\<And>i t. lo' \<le> i \<Longrightarrow> i < hi' \<Longrightarrow> body i t = body' i t) \<Longrightarrow>
   for_loop lo hi body s = for_loop lo' hi' body' s'"
  unfolding for_loop_def by (rule fold_cong) auto

text \<open>The loop rule: an invariant indexed by the counter.\<close>

lemma for_loop_rule:
  assumes "P lo s"
    and "\<And>i t. lo \<le> i \<Longrightarrow> i < hi \<Longrightarrow> P i t \<Longrightarrow> P (Suc i) (body i t)"
    and "lo \<le> hi"
  shows "P hi (for_loop lo hi body s)"
  using assms
proof (induction hi)
  case 0
  then show ?case by simp
next
  case (Suc n)
  show ?case
  proof (cases "lo \<le> n")
    case True
    then have "P n (for_loop lo n body s)"
      using Suc.IH Suc.prems by simp
    with True Suc.prems(2) show ?thesis by (simp add: for_loop_Suc)
  next
    case False
    then have "lo = Suc n" using Suc.prems(3) by simp
    then show ?thesis using Suc.prems(1) by simp
  qed
qed

lemma nat_int_mod_pow2: "nat (int x mod 2 ^ n) = x mod 2 ^ n"
  by (simp add: nat_mod_distrib nat_power_eq)

section \<open>Bits of a word\<close>

declare push_bit_Suc [simp del] drop_bit_Suc [simp del]

lemma and_1_eq_of_bool [simp]: "shr (x :: 'a::len word) n AND 1 = of_bool (bit x n)"
  by (rule bit_word_eqI) (auto simp: bit_simps)

lemma FURI_BIT_eq [simp]: "FURI_BIT x n = of_bool (bit x n)"
  by (simp add: FURI_BIT_def)

lemma ucast_of_bool: "(ucast (of_bool b :: 'a::len word) :: 'b::len word) = of_bool b"
  by (cases b) simp_all

lemma unat_ucast_up:
  "LENGTH('a) \<le> LENGTH('b) \<Longrightarrow> unat (ucast (x :: 'a::len word) :: 'b::len word) = unat x"
  by (simp add: unsigned_ucast_eq take_bit_nat_eq_self_iff less_le_trans [OF unsigned_less])

lemma unat_shr: "unat (shr (x :: 'a::len word) n) = unat x div 2 ^ n"
proof -
  have "unat (shr x n) = drop_bit n (take_bit LENGTH('a) (unat x))" by (rule unsigned_drop_bit_eq)
  also have "take_bit LENGTH('a) (unat x) = unat x" by (rule take_bit_nat_eq_self) simp
  finally show ?thesis by (simp add: drop_bit_eq_div)
qed

lemma unat_less_bitD:
  assumes "unat (x :: 'a::len word) < 2 ^ n" and "n \<le> k"
  shows "\<not> bit x k"
proof
  assume "bit x k"
  then have "bit (unat x) k" by (simp add: bit_unsigned_iff)
  moreover have "take_bit n (unat x) = unat x" using assms(1) by (rule take_bit_nat_eq_self)
  ultimately show False using assms(2) by (metis bit_take_bit_iff not_less)
qed

text \<open>The bit simplifier reads word literals as integer literals.\<close>

lemma bit_0x7F: "bit (0x7F :: int) k \<longleftrightarrow> k < 7"
  using bit_mask_iff [of 7 k, where ?'a = int] by (auto simp: mask_eq_exp_minus_1)

lemma bit_0xF: "bit (0xF :: int) k \<longleftrightarrow> k < 4"
  using bit_mask_iff [of 4 k, where ?'a = int] by (auto simp: mask_eq_exp_minus_1)

lemma bit_0x80: "bit (0x80 :: int) k \<longleftrightarrow> k = 7"
  using bit_exp_iff [of 7 k, where ?'a = int] by auto

lemma and_1_eq_0_iff: "x AND 1 = 0 \<longleftrightarrow> \<not> bit (x :: 'a::len word) 0"
  using and_exp_eq_0_iff_not_bit [of x 0] by simp

lemma ex_less_Suc: "(\<exists>n<Suc m. P n) \<longleftrightarrow> P m \<or> (\<exists>n<m. P n)"
  by (auto simp: less_Suc_eq)

lemma word_eqI_upto:
  fixes a b :: "'a::len word"
  assumes "\<forall>n<LENGTH('a). bit a n = bit b n"
  shows "a = b"
  using assms by (auto intro: bit_word_eqI)

text \<open>A counter below 8 or 16 has one of these values: bit-level goals are then closed bit by bit.\<close>

lemma less_8_cases:
  "(n::nat) < 8 \<Longrightarrow> n = 0 \<or> n = 1 \<or> n = 2 \<or> n = 3 \<or> n = 4 \<or> n = 5 \<or> n = 6 \<or> n = 7"
  by arith

lemma all_less_8: "(\<forall>n<8. P (n::nat)) \<longleftrightarrow> P 0 \<and> P 1 \<and> P 2 \<and> P 3 \<and> P 4 \<and> P 5 \<and> P 6 \<and> P 7"
  by (auto dest!: less_8_cases)

lemma split_by_8: obtains q r where "n = 8 * q + r" and "r < (8 :: nat)"
  by (rule that [of "n div 8" "n mod 8"]) simp_all

lemma less_16_cases: "(n::nat) < 16 \<Longrightarrow> n < 8 \<or> (\<exists>m<8. n = m + 8)"
  by (metis add_less_cancel_right le_add_diff_inverse2 not_less numeral_Bit0)

lemma all_less_16: "(\<forall>n<16. P (n::nat)) \<longleftrightarrow> (\<forall>n<8. P n) \<and> (\<forall>n<8. P (n + 8))"
  using less_16_cases by auto

section \<open>Bit lists as numbers\<close>

text \<open>\<open>bits_val bs\<close> is the number whose binary digits, most significant first, are \<open>bs\<close>.\<close>

definition bits_val :: "bool list \<Rightarrow> 'a::len word" where
  "bits_val bs = horner_sum of_bool 2 (rev bs)"

lemma bit_bits_val:
  "bit (bits_val bs :: 'a::len word) n \<longleftrightarrow> n < LENGTH('a) \<and> n < length bs \<and> bs ! (length bs - 1 - n)"
  by (auto simp: bits_val_def bit_horner_sum_bit_word_iff rev_nth)

lemma bits_val_Nil [simp]: "bits_val [] = 0"
  by (simp add: bits_val_def)

lemma bits_val_snoc: "bits_val (bs @ [b]) = shl (bits_val bs) 1 OR of_bool b"
proof (rule bit_word_eqI)
  fix n
  assume "n < LENGTH('a)"
  then show "bit (bits_val (bs @ [b]) :: 'a word) n = bit (shl (bits_val bs) 1 OR of_bool b :: 'a word) n"
    by (cases n) (auto simp: bit_simps bit_bits_val nth_append)
qed


lemma bits_val_eqI:
  fixes w :: "'a::len word"
  assumes "length bs \<le> LENGTH('a)"
    and "\<And>n. n < length bs \<Longrightarrow> bit w n = bs ! (length bs - 1 - n)"
    and "\<And>n. length bs \<le> n \<Longrightarrow> \<not> bit w n"
  shows "w = bits_val bs"
proof (rule bit_word_eqI)
  fix n
  show "bit w n = bit (bits_val bs :: 'a word) n"
    by (cases "n < length bs") (use assms in \<open>auto simp: bit_bits_val\<close>)
qed

lemma bits_val_append:
  "bits_val (as @ bs) = (shl (bits_val as) (length bs) OR bits_val bs :: 'a::len word)"
proof (induction bs rule: rev_induct)
  case Nil
  then show ?case by simp
next
  case (snoc b bs)
  have "bits_val (as @ bs @ [b]) = (shl (bits_val (as @ bs)) 1 OR of_bool b :: 'a word)"
    using bits_val_snoc [of "as @ bs" b] by simp
  also have "\<dots> = shl (shl (bits_val as) (length bs) OR bits_val bs) 1 OR of_bool b"
    by (simp add: snoc)
  also have "\<dots> = shl (bits_val as) (length (bs @ [b])) OR bits_val (bs @ [b])"
    by (simp add: bits_val_snoc push_bit_or or.assoc push_bit_push_bit ac_simps)
  finally show ?case .
qed

lemma ucast_bits_val:
  assumes "length bs \<le> LENGTH('a)"
  shows "ucast (bits_val bs :: 'a::len word) = (bits_val bs :: 'b::len word)"
  using assms by (intro bit_word_eqI) (auto simp: bit_simps bit_bits_val)

lemma map_bit_bits_val:
  "length bs = len \<Longrightarrow> len \<le> LENGTH('a) \<Longrightarrow>
   map (\<lambda>i. bit (bits_val bs :: 'a::len word) (len - 1 - i)) [0..<len] = bs"
  by (rule nth_equalityI) (auto simp: bit_bits_val)

lemma bits_val_take_bit:
  fixes w :: "'a::len word"
  assumes "len \<le> LENGTH('a)"
  shows "bits_val (map (\<lambda>i. bit w (len - 1 - i)) [0..<len]) = take_bit len w"
  using assms by (intro bits_val_eqI [symmetric]) (auto simp: bit_simps)

section \<open>Bit-addressed stores\<close>

text \<open>
  Byte arrays, word arrays and card images are written one bit at a time in several
  components. What such code relies on is the interface below: a bit reads back what was
  last written at its position, and a write touches no other position.
\<close>

fun write_bits :: "('s \<Rightarrow> nat \<Rightarrow> bool \<Rightarrow> 's) \<Rightarrow> 's \<Rightarrow> nat \<Rightarrow> bool list \<Rightarrow> 's" where
  "write_bits put s p [] = s"
| "write_bits put s p (b # bs) = write_bits put (put s p b) (Suc p) bs"

definition read_bits :: "('s \<Rightarrow> nat \<Rightarrow> bool) \<Rightarrow> 's \<Rightarrow> nat \<Rightarrow> nat \<Rightarrow> bool list" where
  "read_bits get s p n = map (get s) [p..<p + n]"

lemma length_read_bits [simp]: "length (read_bits get s p n) = n"
  by (simp add: read_bits_def)

lemma nth_read_bits [simp]: "i < n \<Longrightarrow> read_bits get s p n ! i = get s (p + i)"
  by (simp add: read_bits_def)

lemma read_bits_0 [simp]: "read_bits get s p 0 = []"
  by (simp add: read_bits_def)

lemma read_bits_add: "read_bits get s p (m + n) = read_bits get s p m @ read_bits get s (p + m) n"
  by (intro nth_equalityI) (auto simp: nth_append)

lemma read_bits_Suc: "read_bits get s p (Suc n) = read_bits get s p n @ [get s (p + n)]"
  by (simp add: read_bits_def)

lemma read_bits_Cons: "read_bits get s p (Suc n) = get s p # read_bits get s (Suc p) n"
  by (simp add: read_bits_def upt_rec)

lemma write_bits_append:
  "write_bits put s p (as @ bs) = write_bits put (write_bits put s p as) (p + length as) bs"
  by (induction as arbitrary: s p) auto

lemma write_bits_for_loop:
  "for_loop 0 n (\<lambda>i s. put s (p + i) (f i)) s = write_bits put s p (map f [0..<n])"
  by (induction n) (auto simp: for_loop_Suc write_bits_append)

locale bit_store =
  fixes get :: "'s \<Rightarrow> nat \<Rightarrow> bool"
    and put :: "'s \<Rightarrow> nat \<Rightarrow> bool \<Rightarrow> 's"
    and sz :: "'s \<Rightarrow> nat"
  assumes get_put_same: "p < sz s \<Longrightarrow> get (put s p b) p = b"
    and get_put_other: "p < sz s \<Longrightarrow> p \<noteq> q \<Longrightarrow> get (put s p b) q = get s q"
    and sz_put: "sz (put s p b) = sz s"
begin

lemma sz_write: "sz (write_bits put s p bs) = sz s"
  by (induction bs arbitrary: s p) (auto simp: sz_put)

lemma get_put: "p < sz s \<Longrightarrow> get (put s p b) q = (if q = p then b else get s q)"
  using get_put_same get_put_other by metis

lemma get_write:
  "p + length bs \<le> sz s \<Longrightarrow>
   get (write_bits put s p bs) q = (if p \<le> q \<and> q < p + length bs then bs ! (q - p) else get s q)"
proof (induction bs arbitrary: s p)
  case Nil
  then show ?case by auto
next
  case (Cons b bs)
  then have "Suc p + length bs \<le> sz (put s p b)" by (simp add: sz_put)
  note IH = Cons.IH [OF this]
  show ?case
  proof (cases "q = p")
    case True
    then show ?thesis using Cons.prems IH by (simp add: get_put)
  next
    case False
    then show ?thesis using Cons.prems IH by (auto simp: get_put nth_Cons' Suc_le_eq)
  qed
qed

lemma read_write: "p + length bs \<le> sz s \<Longrightarrow> read_bits get (write_bits put s p bs) p (length bs) = bs"
  by (rule nth_equalityI) (auto simp: get_write)

lemma read_write_other:
  assumes "p + length bs \<le> sz s" and "q + n \<le> p \<or> p + length bs \<le> q"
  shows "read_bits get (write_bits put s p bs) q n = read_bits get s q n"
  using assms by (intro nth_equalityI) (auto simp: get_write)

lemma read_put_other:
  "p < sz s \<Longrightarrow> q + n \<le> p \<or> p < q \<Longrightarrow> read_bits get (put s p b) q n = read_bits get s q n"
  by (intro nth_equalityI) (auto simp: get_put)

end

end
