(* ===== verification/BitLib.thy ===== *)
theory BitLib
  imports Prelude
begin

unbundle bit_operations_syntax

text \<open>
  \<^verbatim>\<open>lib/bit_lib/bit_lib.c\<close>: bit fields of byte arrays, parity, bit reversal, CRC-8 and
  CRC-16, and integers as bytes. A byte array is a list of bytes, bit \<open>p\<close> is bit
  \<open>7 - p mod 8\<close> of byte \<open>p div 8\<close>. Positions and sizes are natural numbers: they index memory.
  Reads and writes outside the array are undefined in C; the definitions index lists, and every
  theorem carries the range condition. Functions with a \<^verbatim>\<open>furi_check\<close> return an option.
\<close>

section \<open>Definitions\<close>

datatype BitLibParity =
    BitLibParityEven
  | BitLibParityOdd
  | BitLibParityAlways0
  | BitLibParityAlways1

definition bit_lib_push_bit :: "u8 list \<Rightarrow> nat \<Rightarrow> bool \<Rightarrow> u8 list" where
  "bit_lib_push_bit data data_size b =
     (let last_index = data_size - 1;
          data = for_loop 0 last_index
            (\<lambda>i d. d[i := shl (d ! i) 1 OR (shr (d ! (i + 1)) 7 AND 1)]) data
      in data[last_index := shl (data ! last_index) 1 OR of_bool b])"

definition bit_lib_set_bit :: "u8 list \<Rightarrow> nat \<Rightarrow> bool \<Rightarrow> u8 list" where
  "bit_lib_set_bit data position b =
     (if b then data[position div 8 := data ! (position div 8) OR shl 1 (7 - position mod 8)]
      else data[position div 8 := data ! (position div 8) AND NOT (shl 1 (7 - position mod 8))])"

definition bit_lib_set_bits :: "u8 list \<Rightarrow> nat \<Rightarrow> u8 \<Rightarrow> nat \<Rightarrow> u8 list option" where
  "bit_lib_set_bits data position byte len = do {
     furi_check (len \<le> 8);
     furi_check (len > 0);
     Some (for_loop 0 len
       (\<lambda>i d. let shift = (len - 1) - i
              in bit_lib_set_bit d (position + i) (shr byte shift AND 1 \<noteq> 0)) data)
   }"

definition bit_lib_get_bit :: "u8 list \<Rightarrow> nat \<Rightarrow> bool" where
  "bit_lib_get_bit data position \<longleftrightarrow> shr (data ! (position div 8)) (7 - position mod 8) AND 1 \<noteq> 0"

definition bit_lib_get_bits :: "u8 list \<Rightarrow> nat \<Rightarrow> nat \<Rightarrow> u8" where
  "bit_lib_get_bits data position len =
     (let shift = position mod 8 in
      if shift = 0 then shr (data ! (position div 8)) (8 - len)
      else if shift + len \<le> 8 then shr (shl (data ! (position div 8)) shift) (8 - len)
      else let value = shl (data ! (position div 8)) shift;
               value = value OR shr (data ! (position div 8 + 1)) (8 - shift)
           in shr value (8 - len))"

definition bit_lib_get_bits_16 :: "u8 list \<Rightarrow> nat \<Rightarrow> nat \<Rightarrow> u16" where
  "bit_lib_get_bits_16 data position len =
     (if len \<le> 8 then ucast (bit_lib_get_bits data position len)
      else shl (ucast (bit_lib_get_bits data position 8)) (len - 8)
        OR ucast (bit_lib_get_bits data (position + 8) (len - 8)))"

definition bit_lib_get_bits_32 :: "u8 list \<Rightarrow> nat \<Rightarrow> nat \<Rightarrow> u32" where
  "bit_lib_get_bits_32 data position len =
     (let byte_at = (\<lambda>k n. ucast (bit_lib_get_bits data (position + k) n)) in
      if len \<le> 8 then byte_at 0 len
      else if len \<le> 16 then shl (byte_at 0 8) (len - 8) OR byte_at 8 (len - 8)
      else if len \<le> 24 then
        shl (byte_at 0 8) (len - 8) OR shl (byte_at 8 8) (len - 16) OR byte_at 16 (len - 16)
      else
        shl (byte_at 0 8) (len - 8) OR shl (byte_at 8 8) (len - 16)
        OR shl (byte_at 16 8) (len - 24) OR byte_at 24 (len - 24))"

definition bit_lib_get_bits_64 :: "u8 list \<Rightarrow> nat \<Rightarrow> nat \<Rightarrow> u64" where
  "bit_lib_get_bits_64 data position len =
     (let byte_at = (\<lambda>k n. ucast (bit_lib_get_bits data (position + k) n)) in
      if len \<le> 8 then byte_at 0 len
      else if len \<le> 16 then shl (byte_at 0 8) (len - 8) OR byte_at 8 (len - 8)
      else if len \<le> 24 then
        shl (byte_at 0 8) (len - 8) OR shl (byte_at 8 8) (len - 16) OR byte_at 16 (len - 16)
      else if len \<le> 32 then
        shl (byte_at 0 8) (len - 8) OR shl (byte_at 8 8) (len - 16)
        OR shl (byte_at 16 8) (len - 24) OR byte_at 24 (len - 24)
      else if len \<le> 40 then
        shl (byte_at 0 8) (len - 8) OR shl (byte_at 8 8) (len - 16)
        OR shl (byte_at 16 8) (len - 24) OR shl (byte_at 24 8) (len - 32)
        OR byte_at 32 (len - 32)
      else if len \<le> 48 then
        shl (byte_at 0 8) (len - 8) OR shl (byte_at 8 8) (len - 16)
        OR shl (byte_at 16 8) (len - 24) OR shl (byte_at 24 8) (len - 32)
        OR shl (byte_at 32 8) (len - 40) OR byte_at 40 (len - 40)
      else if len \<le> 56 then
        shl (byte_at 0 8) (len - 8) OR shl (byte_at 8 8) (len - 16)
        OR shl (byte_at 16 8) (len - 24) OR shl (byte_at 24 8) (len - 32)
        OR shl (byte_at 32 8) (len - 40) OR shl (byte_at 40 8) (len - 48)
        OR byte_at 48 (len - 48)
      else
        shl (byte_at 0 8) (len - 8) OR shl (byte_at 8 8) (len - 16)
        OR shl (byte_at 16 8) (len - 24) OR shl (byte_at 24 8) (len - 32)
        OR shl (byte_at 32 8) (len - 40) OR shl (byte_at 40 8) (len - 48)
        OR shl (byte_at 48 8) (len - 56) OR byte_at 56 (len - 56))"

fun bit_lib_test_parity_32 :: "u32 \<Rightarrow> BitLibParity \<Rightarrow> bool option" where
  "bit_lib_test_parity_32 bits BitLibParityEven = Some (builtin_parity bits)"
| "bit_lib_test_parity_32 bits BitLibParityOdd = Some (\<not> builtin_parity bits)"
| "bit_lib_test_parity_32 bits _ = None"

text \<open>One block of \<^verbatim>\<open>bit_lib_test_parity\<close>, and its loop, which stops at the first bad block.\<close>

definition bit_lib_test_parity_block ::
  "u8 list \<Rightarrow> nat \<Rightarrow> BitLibParity \<Rightarrow> nat \<Rightarrow> nat \<Rightarrow> bool" where
  "bit_lib_test_parity_block bits position parity parity_length i =
     (case parity of
        BitLibParityEven \<Rightarrow>
          bit_lib_test_parity_32
            (bit_lib_get_bits_32 bits (position + i * parity_length) parity_length) parity = Some True
      | BitLibParityOdd \<Rightarrow>
          bit_lib_test_parity_32
            (bit_lib_get_bits_32 bits (position + i * parity_length) parity_length) parity = Some True
      | BitLibParityAlways0 \<Rightarrow>
          \<not> bit_lib_get_bit bits (position + i * parity_length + parity_length - 1)
      | BitLibParityAlways1 \<Rightarrow>
          bit_lib_get_bit bits (position + i * parity_length + parity_length - 1))"

fun bit_lib_test_parity_loop ::
  "u8 list \<Rightarrow> nat \<Rightarrow> BitLibParity \<Rightarrow> nat \<Rightarrow> nat list \<Rightarrow> bool" where
  "bit_lib_test_parity_loop bits position parity parity_length [] = True"
| "bit_lib_test_parity_loop bits position parity parity_length (i # is) =
     (if \<not> bit_lib_test_parity_block bits position parity parity_length i then False
      else bit_lib_test_parity_loop bits position parity parity_length is)"

definition bit_lib_test_parity ::
  "u8 list \<Rightarrow> nat \<Rightarrow> nat \<Rightarrow> BitLibParity \<Rightarrow> nat \<Rightarrow> bool" where
  "bit_lib_test_parity bits position len parity parity_length =
     bit_lib_test_parity_loop bits position parity parity_length [0..<len div parity_length]"

text \<open>
  \<^verbatim>\<open>bit_lib_add_parity\<close> copies \<open>parity_length - 1\<close> bits and appends the parity bit, word by
  word; \<open>(test_parity_32(w, Odd) ^ parity) ^ 1\<close> is the parity of \<open>w\<close> for \<^verbatim>\<open>Even\<close> (0) and
  its negation for \<^verbatim>\<open>Odd\<close> (1).
\<close>

definition bit_lib_parity_bit :: "u32 \<Rightarrow> BitLibParity \<Rightarrow> bool" where
  "bit_lib_parity_bit parity_word parity =
     (case parity of
        BitLibParityAlways0 \<Rightarrow> False
      | BitLibParityAlways1 \<Rightarrow> True
      | _ \<Rightarrow> (bit_lib_test_parity_32 parity_word BitLibParityOdd = Some True)
              = (parity = BitLibParityOdd))"

definition bit_lib_add_parity_word ::
  "u8 list \<Rightarrow> nat \<Rightarrow> nat \<Rightarrow> nat \<Rightarrow> BitLibParity \<Rightarrow> nat \<Rightarrow> u8 list \<times> nat \<Rightarrow> u8 list \<times> nat" where
  "bit_lib_add_parity_word data position dest_position parity_length parity w s =
     (let (dest, j, parity_word) =
            for_loop 0 (parity_length - 1)
              (\<lambda>b (dest, j, pw).
                 (bit_lib_set_bit dest (dest_position + j) (bit_lib_get_bit data (position + w + b)),
                  j + 1,
                  shl pw 1 OR of_bool (bit_lib_get_bit data (position + w + b))))
              (fst s, snd s, 0 :: u32)
      in (bit_lib_set_bit dest (dest_position + j) (bit_lib_parity_bit parity_word parity), j + 1))"

fun bit_lib_add_parity_loop ::
  "nat \<Rightarrow> u8 list \<Rightarrow> nat \<Rightarrow> nat \<Rightarrow> nat \<Rightarrow> nat \<Rightarrow> BitLibParity \<Rightarrow> nat
     \<Rightarrow> u8 list \<times> nat \<Rightarrow> nat \<Rightarrow> (u8 list \<times> nat) option" where
  "bit_lib_add_parity_loop 0 data position dest_position source_length parity_length parity w s n = None"
| "bit_lib_add_parity_loop (Suc fuel) data position dest_position source_length parity_length parity w s n =
     (if w < source_length
      then bit_lib_add_parity_loop fuel data position dest_position source_length parity_length parity
             (w + (parity_length - 1))
             (bit_lib_add_parity_word data position dest_position parity_length parity w s)
             (n + parity_length)
      else Some (fst s, n))"

text \<open>
  With \<open>parity_length \<le> 1\<close> the outer loop makes no progress; the fuel is one more than the
  number of source bits, which is enough for every \<open>parity_length \<ge> 2\<close>.
\<close>

definition bit_lib_add_parity ::
  "u8 list \<Rightarrow> nat \<Rightarrow> u8 list \<Rightarrow> nat \<Rightarrow> nat \<Rightarrow> nat \<Rightarrow> BitLibParity \<Rightarrow> (u8 list \<times> nat) option" where
  "bit_lib_add_parity data position dest dest_position source_length parity_length parity =
     bit_lib_add_parity_loop (Suc source_length) data position dest_position source_length
       parity_length parity 0 (dest, 0) 0"

record remove_state =
  rm_data :: "u8 list"
  rm_result_counter :: nat
  rm_bit_buffer :: u8
  rm_bit_counter :: nat

definition bit_lib_remove_step :: "nat \<Rightarrow> nat \<Rightarrow> nat \<Rightarrow> remove_state \<Rightarrow> remove_state option" where
  "bit_lib_remove_step position n counter s = do {
     let s = (if (counter + 1) mod n \<noteq> 0
              then s\<lparr>rm_bit_buffer := shl (rm_bit_buffer s) 1
                       OR of_bool (bit_lib_get_bit (rm_data s) (position + counter)),
                     rm_bit_counter := rm_bit_counter s + 1\<rparr>
              else s);
     if rm_bit_counter s = 8
     then do {
       d \<leftarrow> bit_lib_set_bits (rm_data s) (position + rm_result_counter s) (rm_bit_buffer s) 8;
       Some (s\<lparr>rm_data := d, rm_bit_counter := 0, rm_bit_buffer := 0,
               rm_result_counter := rm_result_counter s + 8\<rparr>)
     }
     else Some s
   }"

fun bit_lib_remove_loop :: "nat \<Rightarrow> nat \<Rightarrow> nat list \<Rightarrow> remove_state \<Rightarrow> remove_state option" where
  "bit_lib_remove_loop position n [] s = Some s"
| "bit_lib_remove_loop position n (c # cs) s =
     Option.bind (bit_lib_remove_step position n c s) (bit_lib_remove_loop position n cs)"

definition bit_lib_remove_bit_every_nth ::
  "u8 list \<Rightarrow> nat \<Rightarrow> nat \<Rightarrow> nat \<Rightarrow> (u8 list \<times> nat) option" where
  "bit_lib_remove_bit_every_nth data position len n = do {
     s \<leftarrow> bit_lib_remove_loop position n [0..<len]
            \<lparr>rm_data = data, rm_result_counter = 0, rm_bit_buffer = 0, rm_bit_counter = 0\<rparr>;
     if rm_bit_counter s \<noteq> 0
     then do {
       d \<leftarrow> bit_lib_set_bits (rm_data s) (position + rm_result_counter s) (rm_bit_buffer s)
              (rm_bit_counter s);
       Some (d, rm_result_counter s + rm_bit_counter s)
     }
     else Some (rm_data s, rm_result_counter s)
   }"

definition bit_lib_copy_bits :: "u8 list \<Rightarrow> nat \<Rightarrow> nat \<Rightarrow> u8 list \<Rightarrow> nat \<Rightarrow> u8 list" where
  "bit_lib_copy_bits data position len source source_position =
     for_loop 0 len
       (\<lambda>i d. bit_lib_set_bit d (position + i) (bit_lib_get_bit source (source_position + i))) data"

function bit_lib_reverse_loop :: "u8 list \<Rightarrow> nat \<Rightarrow> nat \<Rightarrow> nat \<Rightarrow> u8 list" where
  "bit_lib_reverse_loop data position i j =
     (if i < j then
        let tmp = bit_lib_get_bit data (position + i);
            data = bit_lib_set_bit data (position + i) (bit_lib_get_bit data (position + j));
            data = bit_lib_set_bit data (position + j) tmp
        in bit_lib_reverse_loop data position (i + 1) (j - 1)
      else data)"
  by pat_completeness auto
termination
  by (relation "measure (\<lambda>(data, position, i, j). j - i)") auto

declare bit_lib_reverse_loop.simps [simp del]

text \<open>For \<open>len = 0\<close> the C code starts from \<open>j = SIZE_MAX\<close> and leaves the array: \<open>None\<close>.\<close>

definition bit_lib_reverse_bits :: "u8 list \<Rightarrow> nat \<Rightarrow> nat \<Rightarrow> u8 list option" where
  "bit_lib_reverse_bits data position len =
     (if len = 0 then None else Some (bit_lib_reverse_loop data position 0 (len - 1)))"

definition bit_lib_get_bit_count :: "u32 \<Rightarrow> u8" where
  "bit_lib_get_bit_count data = of_nat (builtin_popcount data)"

text \<open>The two printing functions, as the text they print.\<close>

definition bit_lib_print_bits :: "u8 list \<Rightarrow> nat \<Rightarrow> string" where
  "bit_lib_print_bits data len = map (\<lambda>i. if bit_lib_get_bit data i then CHR ''1'' else CHR ''0'') [0..<len]"

record BitLibRegion =
  region_mark :: char
  region_start :: nat
  region_length :: nat

fun bit_lib_region_at :: "BitLibRegion list \<Rightarrow> nat \<Rightarrow> BitLibRegion option" where
  "bit_lib_region_at [] c = None"
| "bit_lib_region_at (r # rs) c =
     (if region_start r \<le> c \<and> c < region_start r + region_length r then Some r
      else bit_lib_region_at rs c)"

definition bit_lib_print_regions :: "BitLibRegion list \<Rightarrow> u8 list \<Rightarrow> nat \<Rightarrow> string" where
  "bit_lib_print_regions regions data len =
     bit_lib_print_bits data len @ [CHR 0x0D, CHR 0x0A] @
     map (\<lambda>c. case bit_lib_region_at regions c of
                Some r \<Rightarrow> region_mark r | None \<Rightarrow> CHR '' '') [0..<len] @ [CHR 0x0D, CHR 0x0A] @
     map (\<lambda>c. case bit_lib_region_at regions c of
                Some r \<Rightarrow> (if bit_lib_get_bit data c then CHR ''1'' else CHR ''0'')
              | None \<Rightarrow> CHR '' '') [0..<len] @ [CHR 0x0D, CHR 0x0A]"

definition bit_lib_reverse_16_fast :: "u16 \<Rightarrow> u16" where
  "bit_lib_reverse_16_fast data =
     shr (data AND 0x8000) 15 OR shr (data AND 0x4000) 13 OR
     shr (data AND 0x2000) 11 OR shr (data AND 0x1000) 9 OR
     shr (data AND 0x0800) 7 OR shr (data AND 0x0400) 5 OR
     shr (data AND 0x0200) 3 OR shr (data AND 0x0100) 1 OR
     shl (data AND 0x0080) 1 OR shl (data AND 0x0040) 3 OR
     shl (data AND 0x0020) 5 OR shl (data AND 0x0010) 7 OR
     shl (data AND 0x0008) 9 OR shl (data AND 0x0004) 11 OR
     shl (data AND 0x0002) 13 OR shl (data AND 0x0001) 15"

definition bit_lib_reverse_8_fast :: "u8 \<Rightarrow> u8" where
  "bit_lib_reverse_8_fast byte =
     (let byte = shr (byte AND 0xF0) 4 OR shl (byte AND 0x0F) 4;
          byte = shr (byte AND 0xCC) 2 OR shl (byte AND 0x33) 2;
          byte = shr (byte AND 0xAA) 1 OR shl (byte AND 0x55) 1
      in byte)"

definition TOPBIT_8 :: u8 where
  "TOPBIT_8 = shl 1 7"

definition bit_lib_crc8_byte :: "u8 \<Rightarrow> u8 \<Rightarrow> u8" where
  "bit_lib_crc8_byte polynom crc =
     for_loop 0 8 (\<lambda>_ crc. if crc AND TOPBIT_8 \<noteq> 0 then shl crc 1 XOR polynom else shl crc 1) crc"

text \<open>\<^verbatim>\<open>bit_lib_reverse_bits(&byte, 0, 8)\<close> on a single byte.\<close>

definition bit_lib_reflect8 :: "u8 \<Rightarrow> u8" where
  "bit_lib_reflect8 byte = hd (the (bit_lib_reverse_bits [byte] 0 8))"

definition bit_lib_crc8 ::
  "u8 list \<Rightarrow> nat \<Rightarrow> u8 \<Rightarrow> u8 \<Rightarrow> bool \<Rightarrow> bool \<Rightarrow> u8 \<Rightarrow> u16" where
  "bit_lib_crc8 data data_size polynom init ref_in ref_out xor_out =
     (let crc = for_loop 0 data_size
            (\<lambda>i crc. let byte = (if ref_in then bit_lib_reflect8 (data ! i) else data ! i)
                     in bit_lib_crc8_byte polynom (crc XOR byte)) init;
          crc = (if ref_out then bit_lib_reflect8 crc else crc)
      in ucast (crc XOR xor_out))"

definition bit_lib_crc16_byte :: "u16 \<Rightarrow> u8 \<Rightarrow> u16 \<Rightarrow> u16" where
  "bit_lib_crc16_byte polynom byte crc =
     for_loop 0 8
       (\<lambda>j crc. let c15 = (shr crc 15 AND 1 \<noteq> 0);
                    b = (shr byte (7 - j) AND 1 \<noteq> 0);
                    crc = shl crc 1
                in if c15 \<noteq> b then crc XOR polynom else crc) crc"

definition bit_lib_crc16 ::
  "u8 list \<Rightarrow> nat \<Rightarrow> u16 \<Rightarrow> u16 \<Rightarrow> bool \<Rightarrow> bool \<Rightarrow> u16 \<Rightarrow> u16" where
  "bit_lib_crc16 data data_size polynom init ref_in ref_out xor_out =
     (let crc = for_loop 0 data_size
            (\<lambda>i crc. let byte = (if ref_in
                                 then ucast (shr (bit_lib_reverse_16_fast (ucast (data ! i))) 8)
                                 else data ! i)
                     in bit_lib_crc16_byte polynom byte crc) init;
          crc = (if ref_out then bit_lib_reverse_16_fast crc else crc)
      in crc XOR xor_out)"

fun bit_lib_num_to_bytes_be_loop :: "u64 \<Rightarrow> nat \<Rightarrow> u8 list \<Rightarrow> u8 list" where
  "bit_lib_num_to_bytes_be_loop src 0 dest = dest"
| "bit_lib_num_to_bytes_be_loop src (Suc len) dest =
     bit_lib_num_to_bytes_be_loop (shr src 8) len (dest[len := ucast src])"

definition bit_lib_num_to_bytes_be :: "u64 \<Rightarrow> nat \<Rightarrow> u8 list \<Rightarrow> u8 list option" where
  "bit_lib_num_to_bytes_be src len dest = do {
     furi_check (len \<le> 8);
     Some (bit_lib_num_to_bytes_be_loop src len dest)
   }"

definition bit_lib_num_to_bytes_le :: "u64 \<Rightarrow> nat \<Rightarrow> u8 list \<Rightarrow> u8 list option" where
  "bit_lib_num_to_bytes_le src len dest = do {
     furi_check (len \<le> 8);
     Some (for_loop 0 len (\<lambda>i d. d[i := ucast (shr src (8 * i))]) dest)
   }"

definition bit_lib_bytes_to_num_be :: "u8 list \<Rightarrow> nat \<Rightarrow> u64 option" where
  "bit_lib_bytes_to_num_be src len = do {
     furi_check (len \<le> 8);
     Some (for_loop 0 len (\<lambda>i res. shl res 8 OR ucast (src ! i)) 0)
   }"

definition bit_lib_bytes_to_num_le :: "u8 list \<Rightarrow> nat \<Rightarrow> u64 option" where
  "bit_lib_bytes_to_num_le src len = do {
     furi_check (len \<le> 8);
     Some (for_loop 0 len (\<lambda>i res. res OR shl (ucast (src ! i)) (8 * i)) 0)
   }"

definition bit_lib_bytes_to_num_bcd :: "u8 list \<Rightarrow> nat \<Rightarrow> (u64 \<times> bool) option" where
  "bit_lib_bytes_to_num_bcd src len = do {
     furi_check (len \<le> 9);
     Some (for_loop 0 len
       (\<lambda>i (res, is_bcd).
          let nibble_1 = src ! i div 16; nibble_2 = src ! i mod 16;
              is_bcd = (is_bcd \<and> \<not> (nibble_1 > 9 \<or> nibble_2 > 9));
              res = res * 10 + ucast nibble_1;
              res = res * 10 + ucast nibble_2
          in (res, is_bcd)) (0, True))
   }"

section \<open>Specification vocabulary\<close>

text \<open>The positions that survive \<^verbatim>\<open>bit_lib_remove_bit_every_nth\<close>.\<close>

definition nth_kept :: "nat \<Rightarrow> nat list \<Rightarrow> nat list" where
  "nth_kept n cs = filter (\<lambda>c. (c + 1) mod n \<noteq> 0) cs"

text \<open>The loop state after a prefix of the counters whose surviving bits are \<open>ks\<close>.\<close>

definition remove_inv :: "u8 list \<Rightarrow> nat \<Rightarrow> bool list \<Rightarrow> remove_state \<Rightarrow> bool" where
  "remove_inv data pos ks s \<longleftrightarrow>
     length (rm_data s) = length data \<and>
     rm_bit_counter s < 8 \<and>
     length ks = rm_result_counter s + rm_bit_counter s \<and>
     rm_bit_buffer s = bits_val (drop (rm_result_counter s) ks) \<and>
     (\<forall>q. bit_lib_get_bit (rm_data s) q =
        (if pos \<le> q \<and> q < pos + rm_result_counter s then ks ! (q - pos) else bit_lib_get_bit data q))"

definition bits_parity :: "bool list \<Rightarrow> bool" where
  "bits_parity bs = odd (length (filter id bs))"

text \<open>The block that \<^verbatim>\<open>bit_lib_add_parity\<close> emits for source bits \<open>bs\<close>.\<close>

definition parity_block :: "BitLibParity \<Rightarrow> bool list \<Rightarrow> bool list" where
  "parity_block parity bs = bs @ [case parity of
      BitLibParityEven \<Rightarrow> bits_parity bs | BitLibParityOdd \<Rightarrow> \<not> bits_parity bs
    | BitLibParityAlways0 \<Rightarrow> False | BitLibParityAlways1 \<Rightarrow> True]"

definition parity_blocks :: "BitLibParity \<Rightarrow> u8 list \<Rightarrow> nat \<Rightarrow> nat \<Rightarrow> nat \<Rightarrow> bool list" where
  "parity_blocks parity data pos pl m =
     concat (map (\<lambda>i. parity_block parity (read_bits bit_lib_get_bit data (pos + i * (pl - 1)) (pl - 1))) [0..<m])"

text \<open>
  The parity to pass to \<^verbatim>\<open>bit_lib_test_parity\<close> for blocks made by \<^verbatim>\<open>bit_lib_add_parity\<close>:
  the two functions disagree on the meaning of \<^verbatim>\<open>Even\<close> and \<^verbatim>\<open>Odd\<close>.
\<close>

fun matching_test :: "BitLibParity \<Rightarrow> BitLibParity" where
  "matching_test BitLibParityEven = BitLibParityOdd"
| "matching_test BitLibParityOdd = BitLibParityEven"
| "matching_test p = p"

text \<open>The number a byte list denotes, most significant byte first.\<close>

definition be_val :: "u8 list \<Rightarrow> u64" where
  "be_val bs = foldl (\<lambda>res b. shl res 8 OR ucast b) 0 bs"

text \<open>The decimal number whose digits are the nibbles of a byte list.\<close>

definition nibble_val :: "u8 list \<Rightarrow> nat" where
  "nibble_val bs = foldl (\<lambda>v b. (v * 10 + unat b div 16) * 10 + unat b mod 16) 0 bs"

section \<open>Single bits and bit fields\<close>

lemma get_bit_iff: "bit_lib_get_bit data p = bit (data ! (p div 8)) (7 - p mod 8)"
  by (simp add: bit_lib_get_bit_def)

lemma length_set_bit [simp]: "length (bit_lib_set_bit data p b) = length data"
  by (simp add: bit_lib_set_bit_def)

lemma div8_less: "p < 8 * n \<Longrightarrow> p div 8 < (n::nat)"
  by linarith

lemma same_bit8:
  assumes "p div 8 = q div 8" and "7 - p mod 8 = 7 - q mod 8"
  shows "p = (q::nat)"
proof -
  have "p mod 8 < 8" and "q mod 8 < 8" by simp_all
  then have "p mod 8 = q mod 8" using assms(2) by linarith
  with assms(1) show ?thesis by (metis div_mult_mod_eq)
qed

lemma get_set_bit:
  assumes "p < 8 * length data"
  shows "bit_lib_get_bit (bit_lib_set_bit data p b) q = (if q = p then b else bit_lib_get_bit data q)"
proof -
  have byte: "bit_lib_set_bit data p b ! (q div 8) =
      (if q div 8 = p div 8
       then (if b then data ! (p div 8) OR shl 1 (7 - p mod 8)
             else data ! (p div 8) AND NOT (shl 1 (7 - p mod 8)))
       else data ! (q div 8))"
    using div8_less [OF assms] by (simp add: bit_lib_set_bit_def)
  have bit1: "bit (shl 1 (7 - p mod 8) :: u8) (7 - q mod 8) = (7 - p mod 8 = 7 - q mod 8)"
    by (auto simp: bit_simps)
  have lt: "7 - q mod 8 < LENGTH(8)" by simp
  show ?thesis
    unfolding get_bit_iff byte using same_bit8 [of p q] bit1 lt
    by (cases "q div 8 = p div 8") (auto simp: bit_simps)
qed

interpretation bl: bit_store bit_lib_get_bit bit_lib_set_bit "\<lambda>d. 8 * length d"
  by unfold_locales (simp_all add: get_set_bit)

lemma bit_get_bits:
  assumes "len \<le> 8"
  shows "bit (bit_lib_get_bits data p len) n \<longleftrightarrow> n < len \<and> bit_lib_get_bit data (p + (len - 1 - n))"
proof (cases "n < len")
  case True
  define r where "r = p mod 8" 
  define k where "k = len - 1 - n"
  have r: "r < 8" and k: "k < 8" unfolding r_def k_def using True assms by simp_all
  have p: "p = 8 * (p div 8) + r" unfolding r_def by simp
  have n: "n = len - 1 - k" "k < len" unfolding k_def using True by simp_all
  have pk: "p + k = (r + k) + 8 * (p div 8)" using p by simp
  have rk: "(r + k) div 8 = (if r + k < 8 then 0 else 1)"
    "(r + k) mod 8 = (if r + k < 8 then r + k else r + k - 8)"
    using r k by (auto simp: div_nat_eqI le_mod_geq)
  have dm: "(p + k) div 8 = (if r + k < 8 then p div 8 else p div 8 + 1)"
     "(p + k) mod 8 = (if r + k < 8 then r + k else r + k - 8)"
    unfolding pk by (simp_all add: rk)
  have goal: "bit (bit_lib_get_bits data p len) n = bit (data ! ((p + k) div 8)) (7 - (p + k) mod 8)"
  proof (cases "r + k < 8")
    case True
    then show ?thesis 
      using r k n assms unfolding dm bit_lib_get_bits_def Let_def r_def [symmetric]
      by (auto simp: bit_simps ac_simps dest: bit_imp_le_length)
  next
    case False
    then show ?thesis  
      using r k n assms unfolding dm bit_lib_get_bits_def Let_def r_def [symmetric]
      by (auto simp: bit_simps ac_simps dest: bit_imp_le_length)
  qed
  then show ?thesis using True by (simp add: get_bit_iff k_def)
next
  case False
  have nb: "\<not> bit (shr (w :: u8) (8 - len)) n" for w
    using False assms by (auto simp: bit_simps dest: bit_imp_le_length)
  show ?thesis
    unfolding bit_lib_get_bits_def Let_def using False by (auto simp only: nb split: if_splits)
qed

lemma get_bits_eq: "len \<le> 8 \<Longrightarrow> bit_lib_get_bits data p len = bits_val (read_bits bit_lib_get_bit data p len)"
  by (rule bits_val_eqI) (auto simp: bit_get_bits)

lemma bits_val_chunk:
  assumes "8 < len"
  shows "bits_val (read_bits bit_lib_get_bit data p len) =
    (shl (bits_val (read_bits bit_lib_get_bit data p 8)) (len - 8)
     OR bits_val (read_bits bit_lib_get_bit data (p + 8) (len - 8)) :: 'a::len word)"
proof -
  have "read_bits bit_lib_get_bit data p len =
      read_bits bit_lib_get_bit data p 8 @ read_bits bit_lib_get_bit data (p + 8) (len - 8)"
    using assms read_bits_add [of _ data p 8 "len - 8"] by simp
  then show ?thesis by (simp add: bits_val_append)
qed

lemma get_bits_16_eq:
  "len \<le> 16 \<Longrightarrow> bit_lib_get_bits_16 data p len = bits_val (read_bits bit_lib_get_bit data p len)"
  by (simp add: bit_lib_get_bits_16_def get_bits_eq ucast_bits_val bits_val_chunk)

lemma get_bits_32_eq:
  "len \<le> 32 \<Longrightarrow> bit_lib_get_bits_32 data p len = bits_val (read_bits bit_lib_get_bit data p len)"
  by (simp add: bit_lib_get_bits_32_def get_bits_eq ucast_bits_val bits_val_chunk add.assoc)

lemma get_bits_64_eq:
  "len \<le> 64 \<Longrightarrow> bit_lib_get_bits_64 data p len = bits_val (read_bits bit_lib_get_bit data p len)"
  by (simp add: bit_lib_get_bits_64_def get_bits_eq ucast_bits_val bits_val_chunk add.assoc)

section \<open>Writing fields, copying, shifting\<close>

lemma length_write [simp]: "length (write_bits bit_lib_set_bit d p bs) = length d"
  using bl.sz_write [of d p bs] by simp

lemma set_bits_eq:
  assumes "0 < len" "len \<le> 8"
  shows "bit_lib_set_bits data p byte len =
    Some (write_bits bit_lib_set_bit data p (map (\<lambda>i. bit byte (len - 1 - i)) [0..<len]))"
  using assms by (simp add: bit_lib_set_bits_def Let_def write_bits_for_loop
    [where put = bit_lib_set_bit and f = "\<lambda>i. bit byte (len - 1 - i)", simplified])

lemma set_bits_crash: "len = 0 \<or> 8 < len \<Longrightarrow> bit_lib_set_bits data p byte len = None"
  by (auto simp: bit_lib_set_bits_def)

lemma get_set_bits:
  assumes "0 < len" "len \<le> 8" "p + len \<le> 8 * length data"
  shows "\<exists>d. bit_lib_set_bits data p byte len = Some d \<and> length d = length data
    \<and> bit_lib_get_bits d p len = take_bit len byte
    \<and> (\<forall>q. \<not> (p \<le> q \<and> q < p + len) \<longrightarrow> bit_lib_get_bit d q = bit_lib_get_bit data q)"
proof -
  let ?bs = "map (\<lambda>i. bit byte (len - 1 - i)) [0..<len]"
  have "read_bits bit_lib_get_bit (write_bits bit_lib_set_bit data p ?bs) p len = ?bs"
    using bl.read_write [of p ?bs data] assms by simp
  then have "bit_lib_get_bits (write_bits bit_lib_set_bit data p ?bs) p len = take_bit len byte"
    using assms bits_val_take_bit [of len byte] by (simp add: get_bits_eq)
  then show ?thesis
    using assms bl.get_write [of p ?bs data] by (simp add: set_bits_eq)
qed

lemma copy_bits_eq:
  "bit_lib_copy_bits data p len source q =
   write_bits bit_lib_set_bit data p (read_bits bit_lib_get_bit source q len)"
proof -
  have "map (\<lambda>i. bit_lib_get_bit source (q + i)) [0..<len] = read_bits bit_lib_get_bit source q len"
    by (rule nth_equalityI) auto
  then show ?thesis
    by (simp add: bit_lib_copy_bits_def write_bits_for_loop
        [where put = bit_lib_set_bit and f = "\<lambda>i. bit_lib_get_bit source (q + i)"])
qed

lemma push_bit_loop:
  assumes "k < length data"
  shows "length (for_loop 0 k (\<lambda>i d. d[i := shl (d ! i) 1 OR (shr (d ! (i + 1)) 7 AND 1)]) data) = length data
    \<and> (\<forall>i < length data. for_loop 0 k (\<lambda>i d. d[i := shl (d ! i) 1 OR (shr (d ! (i + 1)) 7 AND 1)]) data ! i =
        (if i < k then shl (data ! i) 1 OR of_bool (bit (data ! (i + 1)) 7) else data ! i))"
proof (rule for_loop_rule [where P = "\<lambda>k d. length d = length data \<and> (\<forall>i < length data. d ! i =
        (if i < k then shl (data ! i) 1 OR of_bool (bit (data ! (i + 1)) 7) else data ! i))"])
qed (use assms in \<open>auto simp: nth_list_update less_Suc_eq\<close>)

lemma get_push_bit:
  assumes "0 < length data" "p < 8 * length data"
  shows "bit_lib_get_bit (bit_lib_push_bit data (length data) b) p =
    (if p = 8 * length data - 1 then b else bit_lib_get_bit data (p + 1))"
proof -
  define i r where "i = p div 8" and "r = p mod 8"
  have p: "p = 8 * i + r" and r: "r < 8" by (simp_all add: i_def r_def)
  have i: "i < length data" using assms(2) by (simp add: p)
  have byte: "bit_lib_push_bit data (length data) b ! i =
      shl (data ! i) 1 OR of_bool (if i = length data - 1 then b else bit (data ! (i + 1)) 7)"
    using push_bit_loop [of "length data - 1" data] assms i
    by (auto simp: bit_lib_push_bit_def Let_def nth_list_update)
  show ?thesis
  proof (cases "r = 7")
    case True
    then have "p + 1 = 8 * (i + 1)" and "p = 8 * length data - 1 \<longleftrightarrow> i = length data - 1"
      using p i by auto
    then show ?thesis
      using True by (simp add: get_bit_iff byte bit_simps flip: i_def r_def)
  next
    case False
    then have r7: "r < 7" and ne: "p \<noteq> 8 * length data - 1" using p r i by auto
    have q: "(p + 1) div 8 = i" "(p + 1) mod 8 = r + 1"
      unfolding p using r7 by (simp_all add: div_nat_eqI flip: add.assoc)
    show ?thesis
      using r7 ne q by (auto simp: get_bit_iff byte bit_simps Suc_diff_Suc simp flip: i_def r_def)
  qed
qed

section \<open>Reversal\<close>

lemma reverse_loop:
  "i \<le> j + 1 \<Longrightarrow> pos + j < 8 * length data \<Longrightarrow>
   length (bit_lib_reverse_loop data pos i j) = length data \<and>
   bit_lib_get_bit (bit_lib_reverse_loop data pos i j) q =
     (if pos + i \<le> q \<and> q \<le> pos + j then bit_lib_get_bit data (pos + i + (pos + j - q))
      else bit_lib_get_bit data q)"
proof (induction data pos i j rule: bit_lib_reverse_loop.induct)
  case (1 data pos i j)
  show ?case
  proof (cases "i < j")
    case True
    let ?d1 = "bit_lib_set_bit data (pos + i) (bit_lib_get_bit data (pos + j))"
    let ?d = "bit_lib_set_bit ?d1 (pos + j) (bit_lib_get_bit data (pos + i))"
    have unf: "bit_lib_reverse_loop data pos i j = bit_lib_reverse_loop ?d pos (i + 1) (j - 1)"
      using True by (simp add: bit_lib_reverse_loop.simps [of data pos i j] Let_def)
    have get: "bit_lib_get_bit ?d r = (if r = pos + j then bit_lib_get_bit data (pos + i)
        else if r = pos + i then bit_lib_get_bit data (pos + j) else bit_lib_get_bit data r)" for r
      using 1(3) True by (simp add: get_set_bit)
    have IH: "length (bit_lib_reverse_loop ?d pos (i + 1) (j - 1)) = length ?d \<and>
       bit_lib_get_bit (bit_lib_reverse_loop ?d pos (i + 1) (j - 1)) q =
         (if pos + (i + 1) \<le> q \<and> q \<le> pos + (j - 1)
          then bit_lib_get_bit ?d (pos + (i + 1) + (pos + (j - 1) - q)) else bit_lib_get_bit ?d q)"
      using 1(1) [OF True refl refl refl] 1(3) True by simp
    show ?thesis
    proof (cases "pos + (i + 1) \<le> q \<and> q \<le> pos + (j - 1)")
      case inside: True
      define k where "k = pos + i + (pos + j - q)"
      have k: "pos + (i + 1) + (pos + (j - 1) - q) = k" and ne: "k \<noteq> pos + i" "k \<noteq> pos + j"
        and q: "pos + i \<le> q \<and> q \<le> pos + j"
        using inside True unfolding k_def by linarith+
      have "bit_lib_get_bit (bit_lib_reverse_loop ?d pos (i + 1) (j - 1)) q = bit_lib_get_bit ?d k"
        using IH inside unfolding k by simp
      then show ?thesis
        unfolding unf k_def [symmetric] using IH q by (simp add: get ne)
    next
      case outside: False
      have same: "bit_lib_get_bit (bit_lib_reverse_loop ?d pos (i + 1) (j - 1)) q = bit_lib_get_bit ?d q"
        using IH outside by (simp only: if_False)
      from outside consider "q = pos + i" | "q = pos + j" | "q < pos + i" | "pos + j < q"
        using True by linarith
      then show ?thesis
        unfolding unf using IH same True by cases (simp_all add: get)
    qed
  next
    case False
    have unf: "bit_lib_reverse_loop data pos i j = data"
      using False by (simp add: bit_lib_reverse_loop.simps [of data pos i j])
    show ?thesis
    proof (cases "pos + i \<le> q \<and> q \<le> pos + j")
      case True
      then have "q = pos + i" and "j = i" using False by linarith+
      then show ?thesis unfolding unf by simp
    next
      case outside: False
      show ?thesis unfolding unf using outside by (simp only: if_False simp_thms)
    qed
  qed
qed

lemma reverse_bits_spec:
  assumes "0 < len" "pos + len \<le> 8 * length data"
  shows "\<exists>d. bit_lib_reverse_bits data pos len = Some d \<and> length d = length data
    \<and> read_bits bit_lib_get_bit d pos len = rev (read_bits bit_lib_get_bit data pos len)
    \<and> (\<forall>q. \<not> (pos \<le> q \<and> q < pos + len) \<longrightarrow> bit_lib_get_bit d q = bit_lib_get_bit data q)"
proof -
  have *: "length (bit_lib_reverse_loop data pos 0 (len - 1)) = length data \<and>
    bit_lib_get_bit (bit_lib_reverse_loop data pos 0 (len - 1)) q =
     (if pos \<le> q \<and> q < pos + len then bit_lib_get_bit data (pos + (pos + (len - 1) - q))
      else bit_lib_get_bit data q)" for q
    using reverse_loop [of 0 "len - 1" pos data q] assms by auto
  have "read_bits bit_lib_get_bit (bit_lib_reverse_loop data pos 0 (len - 1)) pos len =
     rev (read_bits bit_lib_get_bit data pos len)"
    by (rule nth_equalityI) (use * in \<open>auto simp: rev_nth\<close>)
  with * show ?thesis using assms by (simp add: bit_lib_reverse_bits_def)
qed

lemma reverse_8_fast_eq: "bit_lib_reverse_8_fast b = word_reverse b"
  by (rule word_eqI_upto)
    (simp add: bit_lib_reverse_8_fast_def Let_def bit_simps all_less_8 )

lemma reverse_16_fast_eq: "bit_lib_reverse_16_fast w = word_reverse w"
  by (rule word_eqI_upto)
    (simp add: bit_lib_reverse_16_fast_def bit_simps all_less_16 all_less_8)

lemma reflect8_eq: "bit_lib_reflect8 b = word_reverse b"
proof -
  obtain d where d: "bit_lib_reverse_bits [b] 0 8 = Some d" "length d = 1"
    "read_bits bit_lib_get_bit d 0 8 = rev (read_bits bit_lib_get_bit [b] 0 8)"
    using reverse_bits_spec [of 8 0 "[b]"] by auto
  then obtain c where c: "d = [c]" by (cases d) auto
  have "bit c n = bit b (7 - n)" if "n < 8" for n
  proof -
    have "read_bits bit_lib_get_bit d 0 8 ! (7 - n) = rev (read_bits bit_lib_get_bit [b] 0 8) ! (7 - n)"
      using d by simp
    then show ?thesis using that c by (simp add: rev_nth get_bit_iff)
  qed
  then have "c = word_reverse b"
    by (intro bit_word_eqI) (simp add: bit_simps)
  with d c show ?thesis by (simp add: bit_lib_reflect8_def)
qed

section \<open>Removing every n-th bit\<close>

lemma remove_loop_append:
  "bit_lib_remove_loop pos n (cs @ ds) s =
     Option.bind (bit_lib_remove_loop pos n cs s) (bit_lib_remove_loop pos n ds)"
  by (induction cs arbitrary: s) (auto split: bind_split)

lemma remove_flush:
  assumes inv: "length d = length data" "length ks = rc + bc" "0 < bc" "bc \<le> 8"
    "\<forall>q. bit_lib_get_bit d q =
        (if pos \<le> q \<and> q < pos + rc then ks ! (q - pos) else bit_lib_get_bit data q)"
    and r: "pos + rc + bc \<le> 8 * length data"
  shows "\<exists>d'. bit_lib_set_bits d (pos + rc) (bits_val (drop rc ks)) bc = Some d' \<and> length d' = length data
    \<and> (\<forall>q. bit_lib_get_bit d' q =
        (if pos \<le> q \<and> q < pos + (rc + bc) then ks ! (q - pos) else bit_lib_get_bit data q))"
proof -
  let ?d = "write_bits bit_lib_set_bit d (pos + rc) (drop rc ks)"
  have "bit_lib_set_bits d (pos + rc) (bits_val (drop rc ks)) bc = Some ?d"
    using inv map_bit_bits_val [of "drop rc ks" bc, where ?'a = 8] by (simp add: set_bits_eq)
  moreover have "bit_lib_get_bit ?d q =
        (if pos \<le> q \<and> q < pos + (rc + bc) then ks ! (q - pos) else bit_lib_get_bit data q)" for q
    using inv r by (auto simp: bl.get_write)
  ultimately show ?thesis using inv by simp
qed

lemma remove_step:
  assumes inv: "remove_inv data pos ks s" and len: "length ks \<le> c"
    and r: "pos + c < 8 * length data"
  shows "\<exists>s'. bit_lib_remove_step pos n c s = Some s' \<and>
    remove_inv data pos (if (c + 1) mod n \<noteq> 0 then ks @ [bit_lib_get_bit data (pos + c)] else ks) s'"
proof (cases "(c + 1) mod n \<noteq> 0")
  case False
  then show ?thesis using inv by (auto simp: bit_lib_remove_step_def remove_inv_def)
next
  case True
  let ?b = "bit_lib_get_bit data (pos + c)"
  let ?rc = "rm_result_counter s" and ?bc = "rm_bit_counter s"
  have get: "bit_lib_get_bit (rm_data s) (pos + c) = ?b"
    using inv len by (auto simp: remove_inv_def)
  have buf: "shl (rm_bit_buffer s) 1 OR of_bool ?b = bits_val (drop ?rc (ks @ [?b]))"
    using inv by (simp add: remove_inv_def bits_val_snoc)
  show ?thesis
  proof (cases "?bc + 1 = 8")
    case False
    then show ?thesis
      using True inv get buf
      by (auto simp: bit_lib_remove_step_def remove_inv_def nth_append)
  next
    case full: True
    obtain d' where d': "bit_lib_set_bits (rm_data s) (pos + ?rc) (bits_val (drop ?rc (ks @ [?b]))) 8 = Some d'"
      "length d' = length data"
      "\<forall>q. bit_lib_get_bit d' q =
        (if pos \<le> q \<and> q < pos + (?rc + 8) then (ks @ [?b]) ! (q - pos) else bit_lib_get_bit data q)"
    proof -
      have "\<forall>q. bit_lib_get_bit (rm_data s) q =
        (if pos \<le> q \<and> q < pos + ?rc then (ks @ [?b]) ! (q - pos) else bit_lib_get_bit data q)"
        using inv by (auto simp: remove_inv_def nth_append)
      then show ?thesis
        using remove_flush [of "rm_data s" data "ks @ [?b]" ?rc 8 pos] inv full len r that
        by (auto simp: remove_inv_def)
    qed
    then show ?thesis
      using True inv get buf full
      by (auto simp: bit_lib_remove_step_def remove_inv_def)
  qed
qed

lemma remove_loop:
  assumes "pos + m \<le> 8 * length data"
  shows "\<exists>s. bit_lib_remove_loop pos n [0..<m]
       \<lparr>rm_data = data, rm_result_counter = 0, rm_bit_buffer = 0, rm_bit_counter = 0\<rparr> = Some s
     \<and> remove_inv data pos (map (\<lambda>c. bit_lib_get_bit data (pos + c)) (nth_kept n [0..<m])) s"
  using assms
proof (induction m)
  case 0
  then show ?case by (auto simp: nth_kept_def remove_inv_def)
next
  case (Suc m)
  let ?ks = "map (\<lambda>c. bit_lib_get_bit data (pos + c)) (nth_kept n [0..<m])"
  obtain s where s: "bit_lib_remove_loop pos n [0..<m]
       \<lparr>rm_data = data, rm_result_counter = 0, rm_bit_buffer = 0, rm_bit_counter = 0\<rparr> = Some s"
     "remove_inv data pos ?ks s"
    using Suc by auto
  have "length ?ks \<le> m"
    using length_filter_le [of "\<lambda>c. (c + 1) mod n \<noteq> 0" "[0..<m]"] by (simp add: nth_kept_def)
  then obtain s' where "bit_lib_remove_step pos n m s = Some s'"
    "remove_inv data pos (if (m + 1) mod n \<noteq> 0 then ?ks @ [bit_lib_get_bit data (pos + m)] else ?ks) s'"
    using remove_step [OF s(2), of m n] Suc.prems by auto
  with s show ?case
    by (auto simp: remove_loop_append nth_kept_def split: if_splits)
qed

lemma remove_bit_every_nth_spec:
  assumes "pos + len \<le> 8 * length data"
  shows "\<exists>d. bit_lib_remove_bit_every_nth data pos len n = Some (d, length (nth_kept n [0..<len]))
    \<and> length d = length data
    \<and> read_bits bit_lib_get_bit d pos (length (nth_kept n [0..<len])) =
        map (\<lambda>c. bit_lib_get_bit data (pos + c)) (nth_kept n [0..<len])
    \<and> (\<forall>q. \<not> (pos \<le> q \<and> q < pos + length (nth_kept n [0..<len])) \<longrightarrow>
           bit_lib_get_bit d q = bit_lib_get_bit data q)"
proof -
  let ?ks = "map (\<lambda>c. bit_lib_get_bit data (pos + c)) (nth_kept n [0..<len])"
  obtain s where s: "bit_lib_remove_loop pos n [0..<len]
       \<lparr>rm_data = data, rm_result_counter = 0, rm_bit_buffer = 0, rm_bit_counter = 0\<rparr> = Some s"
     and inv: "remove_inv data pos ?ks s"
    using remove_loop [OF assms] by blast
  have len: "length ?ks \<le> len"
    using length_filter_le [of "\<lambda>c. (c + 1) mod n \<noteq> 0" "[0..<len]"] by (simp add: nth_kept_def)
  have "\<exists>d. bit_lib_remove_bit_every_nth data pos len n = Some (d, length ?ks) \<and> length d = length data
     \<and> (\<forall>q. bit_lib_get_bit d q = (if pos \<le> q \<and> q < pos + length ?ks then ?ks ! (q - pos)
            else bit_lib_get_bit data q))"
  proof (cases "rm_bit_counter s = 0")
    case True
    then show ?thesis using s inv by (auto simp: bit_lib_remove_bit_every_nth_def remove_inv_def)
  next
    case False
    then show ?thesis
      using s inv len assms remove_flush [of "rm_data s" data ?ks "rm_result_counter s" "rm_bit_counter s" pos]
      by (auto simp: bit_lib_remove_bit_every_nth_def remove_inv_def)
  qed
  then obtain d where d: "bit_lib_remove_bit_every_nth data pos len n = Some (d, length ?ks)"
     "length d = length data"
     "\<And>q. bit_lib_get_bit d q = (if pos \<le> q \<and> q < pos + length ?ks then ?ks ! (q - pos)
            else bit_lib_get_bit data q)" by blast
  have "read_bits bit_lib_get_bit d pos (length ?ks) = ?ks"
    by (rule nth_equalityI) (simp_all add: d(3))
  with d show ?thesis by simp
qed

section \<open>Parity blocks\<close>

lemma popcount_bits_val:
  assumes "length bs \<le> LENGTH('a)"
  shows "builtin_popcount (bits_val bs :: 'a::len word) = length (filter id bs)"
proof -
  have "builtin_popcount (bits_val bs :: 'a word) = card {n. n < length bs \<and> rev bs ! n}"
    unfolding builtin_popcount_def length_filter_conv_card using assms
    by (intro arg_cong [where f = card]) (auto simp: bit_bits_val rev_nth)
  also have "\<dots> = length (filter id (rev bs))"
    unfolding length_filter_conv_card by (intro arg_cong [where f = card]) auto
  finally show ?thesis by (simp flip: rev_filter)
qed

lemma parity_bits_val:
  "length bs \<le> LENGTH('a) \<Longrightarrow> builtin_parity (bits_val bs :: 'a::len word) = bits_parity bs"
  by (simp add: builtin_parity_def popcount_bits_val bits_parity_def)

lemma length_parity_block [simp]: "length (parity_block parity bs) = Suc (length bs)"
  by (simp add: parity_block_def)

lemma parity_bit_eq:
  "length bs \<le> 32 \<Longrightarrow> bs @ [bit_lib_parity_bit (bits_val bs) parity] = parity_block parity bs"
  by (cases parity) (auto simp: bit_lib_parity_bit_def parity_block_def parity_bits_val)

lemma add_parity_inner:
  "for_loop 0 k
     (\<lambda>b (dest, j, pw).
        (bit_lib_set_bit dest (dp + j) (bit_lib_get_bit data (pos + w + b)), j + 1,
         shl pw 1 OR of_bool (bit_lib_get_bit data (pos + w + b)))) (dest, j, 0 :: u32) =
   (write_bits bit_lib_set_bit dest (dp + j) (read_bits bit_lib_get_bit data (pos + w) k), j + k,
    bits_val (read_bits bit_lib_get_bit data (pos + w) k))"
  by (induction k) (auto simp: for_loop_Suc read_bits_Suc write_bits_append bits_val_snoc add.assoc)

lemma add_parity_word_eq:
  assumes "1 \<le> pl" "pl \<le> 33"
  shows "bit_lib_add_parity_word data pos dp pl parity w (dest, j) =
    (write_bits bit_lib_set_bit dest (dp + j)
       (parity_block parity (read_bits bit_lib_get_bit data (pos + w) (pl - 1))), j + pl)"
proof -
  let ?bs = "read_bits bit_lib_get_bit data (pos + w) (pl - 1)"
  have "bit_lib_add_parity_word data pos dp pl parity w (dest, j) =
    (write_bits bit_lib_set_bit dest (dp + j) (?bs @ [bit_lib_parity_bit (bits_val ?bs) parity]), j + pl)"
    using assms unfolding bit_lib_add_parity_word_def fst_conv snd_conv add_parity_inner
    by (simp add: write_bits_append add.assoc)
  then show ?thesis using assms by (simp add: parity_bit_eq)
qed

lemma parity_blocks_Cons:
  "parity_blocks parity data pos pl (Suc m) =
     parity_block parity (read_bits bit_lib_get_bit data pos (pl - 1))
       @ parity_blocks parity data (pos + (pl - 1)) pl m"
  unfolding parity_blocks_def upt_conv_Cons [OF zero_less_Suc] map_Suc_upt [symmetric]
  by (simp add: o_def add.assoc)

lemma length_parity_blocks [simp]: "1 \<le> pl \<Longrightarrow> length (parity_blocks parity data pos pl m) = m * pl"
  by (induction m arbitrary: pos) (simp_all add: parity_blocks_Cons, simp add: parity_blocks_def)

lemma add_parity_loop_eq:
  assumes "2 \<le> pl" "pl \<le> 33" "src_len \<le> w + r * (pl - 1)" "r = 0 \<or> w + r * (pl - 1) < src_len + (pl - 1)"
    "r < fuel"
  shows "bit_lib_add_parity_loop fuel data pos dp src_len pl parity w (dest, j) n =
    Some (write_bits bit_lib_set_bit dest (dp + j) (parity_blocks parity data (pos + w) pl r), n + r * pl)"
  using assms(3-5)
proof (induction r arbitrary: fuel w dest j n)
  case 0
  then show ?case by (cases fuel) (auto simp: parity_blocks_def)
next
  case (Suc r)
  then obtain f where f: "fuel = Suc f" by (cases fuel) auto
  have "w + Suc r * (pl - 1) < src_len + (pl - 1)" using Suc.prems by simp
  then have w: "w < src_len" by simp
  have prems: "src_len \<le> w + (pl - 1) + r * (pl - 1)"
    "r = 0 \<or> w + (pl - 1) + r * (pl - 1) < src_len + (pl - 1)" "r < f"
    using Suc.prems f unfolding mult_Suc add.assoc by linarith+
  have "bit_lib_add_parity_loop f data pos dp src_len pl parity (w + (pl - 1))
      (write_bits bit_lib_set_bit dest (dp + j)
       (parity_block parity (read_bits bit_lib_get_bit data (pos + w) (pl - 1))), j + pl) (n + pl) =
    Some (write_bits bit_lib_set_bit (write_bits bit_lib_set_bit dest (dp + j)
       (parity_block parity (read_bits bit_lib_get_bit data (pos + w) (pl - 1))))
       (dp + (j + pl)) (parity_blocks parity data (pos + (w + (pl - 1))) pl r), n + pl + r * pl)"
    by (rule Suc.IH [OF prems])
  then show ?case
    using f w assms by (simp add: add_parity_word_eq parity_blocks_Cons write_bits_append add.assoc)
qed

lemma add_parity_eq:
  assumes "2 \<le> pl" "pl \<le> 33" 
  shows "bit_lib_add_parity data pos dest dp (m * (pl - 1)) pl parity =
    Some (write_bits bit_lib_set_bit dest dp (parity_blocks parity data pos pl m), m * pl)"
  using assms unfolding bit_lib_add_parity_def
  by (subst add_parity_loop_eq [where r = m]) (auto simp: less_Suc_eq_le)

lemma parity_block_bits:
  assumes "2 \<le> pl" "i < m" "dp + m * pl \<le> 8 * length dest"
  shows "read_bits bit_lib_get_bit (write_bits bit_lib_set_bit dest dp (parity_blocks parity data pos pl m))
     (dp + i * pl) pl = parity_block parity (read_bits bit_lib_get_bit data (pos + i * (pl - 1)) (pl - 1))"
  using assms
proof (induction m arbitrary: dest)
  case 0
  then show ?case by simp
next
  case (Suc m)
  let ?last = "parity_block parity (read_bits bit_lib_get_bit data (pos + m * (pl - 1)) (pl - 1))"
  let ?d = "write_bits bit_lib_set_bit dest dp (parity_blocks parity data pos pl m)"
  have split: "write_bits bit_lib_set_bit dest dp (parity_blocks parity data pos pl (Suc m)) =
     write_bits bit_lib_set_bit ?d (dp + m * pl) ?last"
    using Suc.prems length_parity_blocks [of pl parity data pos m]
    by (simp add: parity_blocks_def write_bits_append)
  have room: "dp + m * pl + pl \<le> 8 * length dest" using Suc.prems by (simp add: algebra_simps)
  show ?case
  proof (cases "i = m")
    case True
    then show ?thesis
      unfolding split using bl.read_write [of "dp + m * pl" ?last ?d] room Suc.prems by simp
  next
    case False
    then have "i * pl + pl \<le> m * pl"
      using Suc.prems by (metis add.commute less_antisym mult_Suc mult_le_mono1 Suc_leI)
    then have "dp + i * pl + pl \<le> dp + m * pl" by simp
    then have "read_bits bit_lib_get_bit (write_bits bit_lib_set_bit ?d (dp + m * pl) ?last) (dp + i * pl) pl
       = read_bits bit_lib_get_bit ?d (dp + i * pl) pl"
      using room Suc.prems by (intro bl.read_write_other) auto
    then show ?thesis
      unfolding split using Suc.IH [of dest] False Suc.prems room by simp
  qed
qed

lemma test_parity_iff:
  "bit_lib_test_parity bits pos len parity pl =
   (\<forall>i < len div pl. bit_lib_test_parity_block bits pos parity pl i)"
proof -
  have "bit_lib_test_parity_loop bits pos parity pl is = (\<forall>i \<in> set is. bit_lib_test_parity_block bits pos parity pl i)" for "is"
    by (induction "is") auto
  then show ?thesis by (auto simp: bit_lib_test_parity_def)
qed

lemma test_parity_block_eq:
  assumes "1 \<le> pl" "pl \<le> 32"
  shows "bit_lib_test_parity_block bits pos parity pl i =
    (let bs = read_bits bit_lib_get_bit bits (pos + i * pl) pl in
     case parity of BitLibParityEven \<Rightarrow> bits_parity bs | BitLibParityOdd \<Rightarrow> \<not> bits_parity bs
     | BitLibParityAlways0 \<Rightarrow> \<not> last bs | BitLibParityAlways1 \<Rightarrow> last bs)"
proof -
  have "read_bits bit_lib_get_bit bits (pos + i * pl) pl \<noteq> []"
    using assms length_read_bits [of bit_lib_get_bit bits "pos + i * pl" pl] by (metis list.size(3) not_one_le_zero)
  then have "last (read_bits bit_lib_get_bit bits (pos + i * pl) pl) = bit_lib_get_bit bits (pos + i * pl + pl - 1)"
    using assms by (simp add: last_conv_nth)
  then show ?thesis
    using assms
    by (cases parity) (auto simp: bit_lib_test_parity_block_def get_bits_32_eq parity_bits_val Let_def)
qed

lemma bits_parity_snoc: "bits_parity (bs @ [b]) = (bits_parity bs \<noteq> b)"
  by (simp add: bits_parity_def)

lemma add_then_test_parity:
  assumes "2 \<le> pl" "pl \<le> 32" "dp + m * pl \<le> 8 * length dest"
    "bit_lib_add_parity data pos dest dp (m * (pl - 1)) pl parity = Some (d, n)"
  shows "bit_lib_test_parity d dp n (matching_test parity) pl"
proof -
  have d: "d = write_bits bit_lib_set_bit dest dp (parity_blocks parity data pos pl m)" and n: "n = m * pl"
    using assms add_parity_eq [of pl data pos dest dp m parity] by auto
  have "bit_lib_test_parity_block d dp (matching_test parity) pl i" if "i < m" for i
    using assms that parity_block_bits [of pl i m dp dest parity data pos]
    by (cases parity) (auto simp: test_parity_block_eq d parity_block_def bits_parity_snoc Let_def)
  then show ?thesis using assms n by (simp add: test_parity_iff)
qed

lemma nth_kept_blocks:
  assumes "2 \<le> pl"
  shows "nth_kept pl [0..<m * pl] = concat (map (\<lambda>i. [i * pl..<i * pl + (pl - 1)]) [0..<m])"
proof (induction m)
  case 0
  then show ?case by (simp add: nth_kept_def)
next
  case (Suc m)
  have up: "[0..<Suc m * pl] = [0..<m * pl] @ [m * pl..<m * pl + (pl - 1)] @ [m * pl + (pl - 1)]"
  proof -
    have "[0..<Suc m * pl] = [0..<m * pl] @ [m * pl..<m * pl + pl]"
      by (metis add.commute mult_Suc upt_add_eq_append zero_le)
    moreover have "[m * pl..<m * pl + pl] = [m * pl..<m * pl + (pl - 1)] @ [m * pl + (pl - 1)]"
      using assms upt_Suc_append [of "m * pl" "m * pl + (pl - 1)"] by simp
    ultimately show ?thesis by simp
  qed
  have "nth_kept pl [m * pl..<m * pl + (pl - 1)] = [m * pl..<m * pl + (pl - 1)]"
    unfolding nth_kept_def
  proof (rule filter_True, rule ballI)
    fix c assume "c \<in> set [m * pl..<m * pl + (pl - 1)]"
    then obtain k where "c = m * pl + k" "k < pl - 1"
      by (metis atLeastLessThan_iff less_diff_conv2 nat_le_iff_add add_less_cancel_left set_upt)
    then have "(c + 1) mod pl = k + 1" by (simp add: ac_simps less_diff_conv mod_less)
    then show "(c + 1) mod pl \<noteq> 0" by simp
  qed
  moreover have "nth_kept pl [m * pl + (pl - 1)] = []" using assms by (simp add: nth_kept_def)
  ultimately have "nth_kept pl [0..<Suc m * pl] = nth_kept pl [0..<m * pl] @ [m * pl..<m * pl + (pl - 1)]"
    unfolding up by (simp add: nth_kept_def)
  with Suc show ?case by simp
qed

lemma add_then_remove_parity:
  assumes "2 \<le> pl" "pl \<le> 33" "dp + m * pl \<le> 8 * length dest"
  shows "\<exists>d n d'. bit_lib_add_parity data pos dest dp (m * (pl - 1)) pl parity = Some (d, n)
     \<and> bit_lib_remove_bit_every_nth d dp n pl = Some (d', m * (pl - 1))
     \<and> read_bits bit_lib_get_bit d' dp (m * (pl - 1)) = read_bits bit_lib_get_bit data pos (m * (pl - 1))"
proof -
  let ?d = "write_bits bit_lib_set_bit dest dp (parity_blocks parity data pos pl m)"
  have add: "bit_lib_add_parity data pos dest dp (m * (pl - 1)) pl parity = Some (?d, m * pl)"
    using assms by (intro add_parity_eq)
  have row: "map (\<lambda>c. bit_lib_get_bit ?d (dp + c)) [i * pl..<i * pl + (pl - 1)] =
      read_bits bit_lib_get_bit data (pos + i * (pl - 1)) (pl - 1)" if "i < m" for i
  proof -
    have "map (\<lambda>c. bit_lib_get_bit ?d (dp + c)) [i * pl..<i * pl + (pl - 1)] =
       butlast (read_bits bit_lib_get_bit ?d (dp + i * pl) pl)"
      using assms by (intro nth_equalityI) (auto simp: nth_butlast add.assoc)
    also have "\<dots> = read_bits bit_lib_get_bit data (pos + i * (pl - 1)) (pl - 1)"
      using assms that by (simp add: parity_block_bits parity_block_def)
    finally show ?thesis .
  qed
  have rows: "concat (map (\<lambda>i. read_bits bit_lib_get_bit data (pos + i * (pl - 1)) (pl - 1)) [0..<m]) =
      read_bits bit_lib_get_bit data pos (m * (pl - 1))"
  proof (induction m)
    case (Suc m)
    then show ?case
      using read_bits_add [of bit_lib_get_bit data pos "m * (pl - 1)" "pl - 1"] by (simp add: add.commute)
  qed simp
  have all: "map (\<lambda>c. bit_lib_get_bit ?d (dp + c)) (nth_kept pl [0..<m * pl]) =
      read_bits bit_lib_get_bit data pos (m * (pl - 1))"
    unfolding rows [symmetric] nth_kept_blocks [OF assms(1)] map_concat map_map o_def
    by (intro arg_cong [where f = concat] map_cong) (use row in auto)
  then have len: "length (nth_kept pl [0..<m * pl]) = m * (pl - 1)"
    by (metis length_map length_read_bits)
  obtain d' where "bit_lib_remove_bit_every_nth ?d dp (m * pl) pl = Some (d', m * (pl - 1))"
    "read_bits bit_lib_get_bit d' dp (m * (pl - 1)) = read_bits bit_lib_get_bit data pos (m * (pl - 1))"
    using remove_bit_every_nth_spec [of dp "m * pl" ?d pl] assms all len by auto
  with add show ?thesis by blast
qed

section \<open>Integers as bytes\<close>

lemma be_val_snoc: "be_val (bs @ [b]) = shl (be_val bs) 8 OR ucast b"
  by (simp add: be_val_def)

lemma bytes_to_num_be_eq:
  assumes "len \<le> 8" "len \<le> length src"
  shows "bit_lib_bytes_to_num_be src len = Some (be_val (take len src))"
proof -
  have "for_loop 0 n (\<lambda>i res. shl res 8 OR ucast (src ! i)) 0 = be_val (take n src)" if "n \<le> length src" for n
    using that by (induction n) (auto simp: for_loop_Suc take_Suc_conv_app_nth be_val_snoc, simp add: be_val_def)
  then show ?thesis using assms by (simp add: bit_lib_bytes_to_num_be_def)
qed

lemma num_to_bytes_be_loop:
  assumes "len \<le> length dest"
  shows "length (bit_lib_num_to_bytes_be_loop src len dest) = length dest \<and>
    (\<forall>i < length dest. bit_lib_num_to_bytes_be_loop src len dest ! i =
       (if i < len then ucast (shr src (8 * (len - 1 - i))) else dest ! i))"
  using assms
proof (induction len arbitrary: src dest)
  case 0
  then show ?case by simp
next
  case (Suc len)
  have IH: "length (bit_lib_num_to_bytes_be_loop (shr src 8) len (dest[len := ucast src])) = length dest \<and>
    (\<forall>i < length dest. bit_lib_num_to_bytes_be_loop (shr src 8) len (dest[len := ucast src]) ! i =
       (if i < len then ucast (shr (shr src 8) (8 * (len - 1 - i))) else dest[len := ucast src] ! i))"
    using Suc.IH [of "dest[len := ucast src]" "shr src 8"] Suc.prems by simp
  have "8 * (len - 1 - i) + 8 = 8 * (len - i)" if "i < len" for i
    using that by (simp add: Suc_diff_Suc)
  then show ?case
    using IH Suc.prems by (auto simp: nth_list_update less_Suc_eq drop_bit_drop_bit)
qed

lemma bit_be_val:
  "length bs \<le> 8 \<Longrightarrow> bit (be_val bs) n \<longleftrightarrow> n < 8 * length bs \<and> bit (bs ! (length bs - 1 - n div 8)) (n mod 8)"
proof (induction bs arbitrary: n rule: rev_induct)
  case Nil
  then show ?case by (simp add: be_val_def)
next
  case (snoc b bs)
  show ?case
  proof (cases "n < 8")
    case True
    then show ?thesis by (simp add: be_val_snoc bit_simps nth_append)
  next
    case False
    have d: "n div 8 = Suc ((n - 8) div 8)" and m: "(n - 8) mod 8 = n mod 8"
      using False by (auto simp: le_div_geq le_mod_geq not_less)
    have "(n - 8) div 8 < length bs \<longleftrightarrow> n - 8 < 8 * length bs" by auto
    have "\<not> bit b n" using False by (auto dest: bit_imp_le_length)
    then have "bit (be_val (bs @ [b])) n = (n < 64 \<and> bit (be_val bs) (n - 8))"
      using False by (auto simp: be_val_snoc bit_simps)
    also have "\<dots> = (n < 64 \<and> n - 8 < 8 * length bs \<and> bit (bs ! (length bs - 1 - (n - 8) div 8)) (n mod 8))"
      using snoc m by simp
    also have "\<dots> = (n < 8 * length (bs @ [b]) \<and> bit ((bs @ [b]) ! (length (bs @ [b]) - 1 - n div 8)) (n mod 8))"
      using snoc.prems False by (auto simp: d nth_append)
    finally show ?thesis .
  qed
qed

lemma num_bytes_be_roundtrip:
  assumes "len \<le> 8" "len \<le> length dest"
  shows "\<exists>d. bit_lib_num_to_bytes_be src len dest = Some d \<and>
    bit_lib_bytes_to_num_be d len = Some (take_bit (8 * len) src)"
proof -
  let ?d = "bit_lib_num_to_bytes_be_loop src len dest"
  have d: "length ?d = length dest" "\<And>i. i < len \<Longrightarrow> ?d ! i = ucast (shr src (8 * (len - 1 - i)))"
    using num_to_bytes_be_loop [OF assms(2), of src] assms by auto
  have "be_val (take len ?d) = take_bit (8 * len) src"
  proof (rule bit_word_eqI)
    fix n assume "n < LENGTH(64)"
    have len: "length (take len ?d) = len" using d assms by simp
    show "bit (be_val (take len ?d)) n = bit (take_bit (8 * len) src) n"
    proof (cases "n < 8 * len")
      case True
      then have "n div 8 < len" by auto
      then have "len - 1 - (len - 1 - n div 8) = n div 8" by simp
      then show ?thesis
        using True \<open>n div 8 < len\<close> bit_be_val [of "take len ?d" n] len assms
        by (simp add: d bit_simps)
    next
      case False
      then show ?thesis using bit_be_val [of "take len ?d" n] len assms by (simp add: bit_simps)
    qed
  qed
  then show ?thesis
    using assms d by (simp add: bit_lib_num_to_bytes_be_def bytes_to_num_be_eq)
qed

text \<open>Little endian is big endian on the reversed bytes.\<close>

lemma num_to_bytes_le_loop:
  assumes "len \<le> length dest"
  shows "length (for_loop 0 len (\<lambda>i d. d[i := ucast (shr src (8 * i))]) dest) = length dest \<and>
    (\<forall>i < length dest. for_loop 0 len (\<lambda>i d. d[i := ucast (shr (src :: u64) (8 * i)) :: u8]) dest ! i =
      (if i < len then ucast (shr src (8 * i)) else dest ! i))"
  by (rule for_loop_rule [where P = "\<lambda>k d. length d = length dest \<and> (\<forall>i < length dest. d ! i =
      (if i < k then ucast (shr src (8 * i)) else dest ! i))"])
    (use assms in \<open>auto simp: nth_list_update less_Suc_eq\<close>)

lemma num_to_bytes_le_eq:
  assumes "len \<le> 8" "len \<le> length dest"
  shows "\<exists>b l. bit_lib_num_to_bytes_be src len dest = Some b \<and> bit_lib_num_to_bytes_le src len dest = Some l
    \<and> take len l = rev (take len b) \<and> drop len l = drop len dest \<and> drop len b = drop len dest"
proof -
  let ?b = "bit_lib_num_to_bytes_be_loop src len dest"
  let ?l = "for_loop 0 len (\<lambda>i d. d[i := ucast (shr src (8 * i))]) dest"
  note b = num_to_bytes_be_loop [OF assms(2), of src] and l = num_to_bytes_le_loop [OF assms(2), of src]
  have "take len ?l = rev (take len ?b)"
    using b l assms by (intro nth_equalityI) (auto simp: rev_nth)
  moreover have "drop len ?l = drop len dest" "drop len ?b = drop len dest"
    using b l assms by (auto intro!: nth_equalityI)
  ultimately show ?thesis
    using assms by (simp add: bit_lib_num_to_bytes_be_def bit_lib_num_to_bytes_le_def)
qed

lemma bytes_to_num_le_eq:
  assumes "len \<le> 8" "len \<le> length src"
  shows "bit_lib_bytes_to_num_le src len = Some (be_val (rev (take len src)))"
proof -
  have "for_loop 0 n (\<lambda>i res. res OR shl (ucast (src ! i)) (8 * i)) 0 = be_val (rev (take n src))"
    if "n \<le> len" for n
    using that
  proof (induction n)
    case 0
    then show ?case by (simp add: be_val_def)
  next
    case (Suc n)
    let ?r = "rev (take n src)"
    have "be_val (src ! n # ?r) = be_val ?r OR shl (ucast (src ! n)) (8 * n)"
    proof (rule bit_word_eqI)
      fix k assume k: "k < LENGTH(64)"
      have len: "length ?r = n" using Suc.prems assms by simp
      show "bit (be_val (src ! n # ?r)) k = bit (be_val ?r OR shl (ucast (src ! n)) (8 * n)) k"
      proof (cases "k < 8 * n")
        case True
        then have "k div 8 < n" by auto
        then show ?thesis using True k len assms Suc.prems
          by (simp add: bit_be_val bit_simps nth_Cons')
      next
        case False
        show ?thesis
        proof (cases "k < 8 * n + 8")
          case True
          then have "k div 8 = n" using False by (simp add: div_nat_eqI)
          moreover from this have "k mod 8 = k - 8 * n" by (metis minus_mult_div_eq_mod)
          ultimately show ?thesis using True False k len assms Suc.prems
            by (auto simp: bit_be_val bit_simps)
        next
          case f: False
          then have "\<not> bit (src ! n) (k - 8 * n)" by (auto dest!: bit_imp_le_length)
          then show ?thesis using f k len assms Suc.prems
            by (simp add: bit_be_val bit_simps)
        qed
      qed
    qed
    then show ?case using Suc assms by (simp add: for_loop_Suc take_Suc_conv_app_nth)
  qed
  then show ?thesis using assms by (simp add: bit_lib_bytes_to_num_le_def)
qed

lemma num_bytes_le_roundtrip:
  assumes "len \<le> 8" "len \<le> length dest"
  shows "\<exists>d. bit_lib_num_to_bytes_le src len dest = Some d \<and>
    bit_lib_bytes_to_num_le d len = Some (take_bit (8 * len) src)"
proof -
  obtain b l where bl: "bit_lib_num_to_bytes_be src len dest = Some b" 
    "bit_lib_num_to_bytes_le src len dest = Some l" "take len l = rev (take len b)"
    using num_to_bytes_le_eq [OF assms] by blast
  have "length l = length dest" "length b = length dest"
    using bl num_to_bytes_le_loop [OF assms(2), of src] num_to_bytes_be_loop [OF assms(2), of src] assms
    by (auto simp: bit_lib_num_to_bytes_be_def bit_lib_num_to_bytes_le_def)
  then show ?thesis
    using bl num_bytes_be_roundtrip [OF assms, of src] assms
    by (simp add: bytes_to_num_be_eq bytes_to_num_le_eq)
qed

lemma unat_nibbles: "unat (b div 16 :: u8) = unat b div 16" "unat (b mod 16 :: u8) = unat b mod 16"
  by (simp_all add: unat_div unat_mod)

lemma nibble_val_snoc:
  "nibble_val (bs @ [b]) = (nibble_val bs * 10 + unat b div 16) * 10 + unat b mod 16"
  by (simp add: nibble_val_def)

lemma nibble_val_bound: "nibble_val bs + 2 \<le> 2 * 100 ^ length bs"
proof (induction bs rule: rev_induct)
  case Nil
  then show ?case by (simp add: nibble_val_def)
next
  case (snoc b bs)
  have "unat b < 256" using unsigned_less [of b, where ?'a = nat] by simp
  then have "unat b div 16 \<le> 15" and "unat b mod 16 \<le> 15" by linarith+
  then show ?case using snoc by (simp add: nibble_val_snoc algebra_simps)
qed

lemma unat_bcd_step:
  fixes res :: u64
  assumes "unat res = v" and "(v * 10 + unat b div 16) * 10 + unat b mod 16 < 2 ^ 64"
  shows "unat ((res * 10 + ucast (b div 16 :: u8)) * 10 + ucast (b mod 16)) =
    (v * 10 + unat b div 16) * 10 + unat b mod 16"
  using assms
  by (simp add: unat_word_ariths(1,2) unat_ucast_up unat_nibbles mod_simps)

lemma bcd_loop:
  assumes "n \<le> 9" "n \<le> length src"
  shows "\<exists>res. for_loop 0 n
       (\<lambda>i (res, is_bcd).
          let nibble_1 = src ! i div 16; nibble_2 = src ! i mod 16;
              is_bcd = (is_bcd \<and> \<not> (nibble_1 > 9 \<or> nibble_2 > 9));
              res = res * 10 + ucast nibble_1;
              res = res * 10 + ucast nibble_2
          in (res, is_bcd)) (0, True) =
     (res :: u64, \<forall>b \<in> set (take n src). unat b div 16 \<le> 9 \<and> unat b mod 16 \<le> 9)
     \<and> unat res = nibble_val (take n src)"
  using assms
proof (induction n)
  case 0
  then show ?case by (simp add: nibble_val_def)
next
  case (Suc n)
  let ?b = "src ! n"
  have "(100 :: nat) ^ Suc n \<le> 100 ^ 9" using Suc.prems by (intro power_increasing) simp_all
  then have "nibble_val (take (Suc n) src) < 2 ^ 64"
    using nibble_val_bound [of "take (Suc n) src"] Suc.prems by simp
  then have small: "(nibble_val (take n src) * 10 + unat ?b div 16) * 10 + unat ?b mod 16 < 2 ^ 64"
    using Suc.prems by (simp add: take_Suc_conv_app_nth nibble_val_snoc)
  have cmp: "?b div 16 \<le> 9 \<longleftrightarrow> unat ?b div 16 \<le> 9" "?b mod 16 \<le> 9 \<longleftrightarrow> unat ?b mod 16 \<le> 9"
    by (simp_all add: word_le_nat_alt unat_nibbles)
  from Suc obtain res :: u64 where "unat res = nibble_val (take n src)"
    and "for_loop 0 n
       (\<lambda>i (res, is_bcd).
          let nibble_1 = src ! i div 16; nibble_2 = src ! i mod 16;
              is_bcd = (is_bcd \<and> \<not> (nibble_1 > 9 \<or> nibble_2 > 9));
              res = res * 10 + ucast nibble_1;
              res = res * 10 + ucast nibble_2
          in (res, is_bcd)) (0, True) =
     (res, \<forall>b \<in> set (take n src). unat b div 16 \<le> 9 \<and> unat b mod 16 \<le> 9)"
    by auto
  then show ?case
    using Suc.prems unat_bcd_step [OF _ small, of res]
    by (auto simp: for_loop_Suc take_Suc_conv_app_nth nibble_val_snoc Let_def cmp not_less)
qed

section \<open>Properties\<close>

text \<open>
  C13. Reading a bit field of any supported width returns the number whose binary digits, most
  significant first, are the bits \<open>position \<dots> position + len - 1\<close> of the array, whatever the
  alignment of the field. The eight length cases of the 64-bit reader, the four of the 32-bit one
  and the two of the 16-bit one all agree with this single reading.
\<close>

theorem bit_lib_get_bits_value:
  assumes "position + len \<le> 8 * length data" and "len \<le> 64"
  shows "bit_lib_get_bits_64 data position len = bits_val (read_bits bit_lib_get_bit data position len)
    \<and> (len \<le> 32 \<longrightarrow>
      bit_lib_get_bits_32 data position len = bits_val (read_bits bit_lib_get_bit data position len))
    \<and> (len \<le> 16 \<longrightarrow>
      bit_lib_get_bits_16 data position len = bits_val (read_bits bit_lib_get_bit data position len))
    \<and> (len \<le> 8 \<longrightarrow>
      bit_lib_get_bits data position len = bits_val (read_bits bit_lib_get_bit data position len))"
  using assms by (simp_all add: get_bits_64_eq get_bits_32_eq get_bits_16_eq get_bits_eq)

theorem bit_lib_get_bits_value_witness:
  "bit_lib_get_bits_64 [0x12, 0x34, 0x56] 4 12 = 0x234 \<and> bit_lib_get_bits_16 [0x12, 0x34, 0x56] 4 12 = 0x234"
  using bit_lib_get_bits_value [of 4 12 "[0x12, 0x34, 0x56]"] by (simp, code_simp)

text \<open>
  C14. Writing a field of 1 to 8 bits succeeds, the field then reads back as the low bits of the
  byte that was written, and no bit outside the field changes.
\<close>

theorem bit_lib_set_then_get_bits:
  assumes "0 < len" and "len \<le> 8" and "position + len \<le> 8 * length data"
  shows "\<exists>d. bit_lib_set_bits data position byte len = Some d
    \<and> length d = length data
    \<and> bit_lib_get_bits d position len = take_bit len byte
    \<and> (\<forall>q. \<not> (position \<le> q \<and> q < position + len) \<longrightarrow> bit_lib_get_bit d q = bit_lib_get_bit data q)"
  using assms by (rule get_set_bits)

theorem bit_lib_set_then_get_bits_witness:
  "\<exists>d. bit_lib_set_bits [0xFF, 0x00] 6 0b101 3 = Some d \<and> bit_lib_get_bits d 6 3 = 0b101"
  using bit_lib_set_then_get_bits [of 3 6 "[0xFF, 0x00]" "0b101"] by (auto simp: take_bit_eq_mod)

text \<open>
  Pushing a bit shifts the whole array one position towards the front: bit \<open>p\<close> becomes the
  old bit \<open>p + 1\<close> and the last bit is the pushed one.
\<close>

theorem bit_lib_push_bit_shifts:
  assumes "0 < length data" and "p < 8 * length data"
  shows "bit_lib_get_bit (bit_lib_push_bit data (length data) b) p =
    (if p = 8 * length data - 1 then b else bit_lib_get_bit data (p + 1))"
  using assms by (rule get_push_bit)

theorem bit_lib_push_bit_shifts_witness:
  "bit_lib_get_bit (bit_lib_push_bit [0x12, 0x80] 2 True) 7 \<and>
   bit_lib_get_bit (bit_lib_push_bit [0x12, 0x80] 2 True) 15"
  using bit_lib_push_bit_shifts [of "[0x12, 0x80]" 7 True] bit_lib_push_bit_shifts [of "[0x12, 0x80]" 15 True]
  by (simp add: get_bit_iff numeral_2_eq_2)

text \<open>
  Reversing a non-empty range of bits in place returns, reverses exactly that range and
  leaves every other bit alone.
\<close>

theorem bit_lib_reverse_bits_correct:
  assumes "0 < len" and "position + len \<le> 8 * length data"
  shows "\<exists>d. bit_lib_reverse_bits data position len = Some d \<and> length d = length data
    \<and> read_bits bit_lib_get_bit d position len = rev (read_bits bit_lib_get_bit data position len)
    \<and> (\<forall>q. \<not> (position \<le> q \<and> q < position + len) \<longrightarrow> bit_lib_get_bit d q = bit_lib_get_bit data q)"
  using assms by (rule reverse_bits_spec)

theorem bit_lib_reverse_bits_correct_witness:
  "\<exists>d. bit_lib_reverse_bits [0x12, 0x34] 4 8 = Some d \<and>
     read_bits bit_lib_get_bit d 4 8 = rev (read_bits bit_lib_get_bit [0x12, 0x34] 4 8)"
  using bit_lib_reverse_bits_correct [of 8 4 "[0x12, 0x34]"] by auto

text \<open>
  The three byte and word reversals agree: the fast 8-bit and 16-bit versions, and the
  in-place reversal of a one-byte array, all compute the mirror image of the word.
\<close>

theorem bit_lib_reversals_agree:
  "bit_lib_reverse_8_fast b = word_reverse b \<and> bit_lib_reverse_bits [b] 0 8 = Some [word_reverse b]
   \<and> bit_lib_reverse_16_fast w = word_reverse w"
proof -
  obtain d where "bit_lib_reverse_bits [b] 0 8 = Some d" "length d = 1"
    using reverse_bits_spec [of 8 0 "[b]"] by auto
  moreover then have "d = [bit_lib_reflect8 b]"
    by (cases d) (auto simp: bit_lib_reflect8_def)
  ultimately show ?thesis by (simp add: reverse_8_fast_eq reverse_16_fast_eq reflect8_eq)
qed

text \<open>
  C15. Removing every \<open>n\<close>-th bit in place returns the number of surviving bits and leaves them, in
  order, at the start of the range: the buffered writes never overtake the reads.
\<close>

theorem bit_lib_remove_bit_every_nth_correct:
  assumes "0 < n" and "position + len \<le> 8 * length data"
  shows "\<exists>d. bit_lib_remove_bit_every_nth data position len n = Some (d, length (nth_kept n [0..<len]))
    \<and> read_bits bit_lib_get_bit d position (length (nth_kept n [0..<len])) =
        map (\<lambda>c. bit_lib_get_bit data (position + c)) (nth_kept n [0..<len])
    \<and> (\<forall>q. \<not> (position \<le> q \<and> q < position + length (nth_kept n [0..<len])) \<longrightarrow>
           bit_lib_get_bit d q = bit_lib_get_bit data q)"
  using remove_bit_every_nth_spec [OF assms(2)] by blast

theorem bit_lib_remove_bit_every_nth_correct_witness:
  "\<exists>d. bit_lib_remove_bit_every_nth [0xFF, 0x7F] 0 16 9 = Some (d, 15)"
  using bit_lib_remove_bit_every_nth_correct [of 9 0 16 "[0xFF, 0x7F]"]
  by (auto simp: nth_kept_def upt_rec)

text \<open>
  Parity blocks round trip: for \<open>m\<close> words of \<open>parity_length - 1\<close> bits,
  \<^verbatim>\<open>bit_lib_add_parity\<close> followed by \<^verbatim>\<open>bit_lib_remove_bit_every_nth\<close> with the same block length
  gives back the source bits.
\<close>

theorem bit_lib_parity_roundtrip:
  assumes "2 \<le> parity_length" and "parity_length \<le> 33"
    and "dest_position + m * parity_length \<le> 8 * length dest"
  shows "\<exists>d n d'.
     bit_lib_add_parity data position dest dest_position (m * (parity_length - 1)) parity_length parity = Some (d, n)
     \<and> bit_lib_remove_bit_every_nth d dest_position n parity_length = Some (d', m * (parity_length - 1))
     \<and> read_bits bit_lib_get_bit d' dest_position (m * (parity_length - 1)) =
         read_bits bit_lib_get_bit data position (m * (parity_length - 1))"
  using assms by (rule add_then_remove_parity)

theorem bit_lib_parity_roundtrip_witness:
  "\<exists>d n d'. bit_lib_add_parity [0xA5, 0x3C] 0 [0, 0, 0] 0 16 9 BitLibParityEven = Some (d, n)
     \<and> bit_lib_remove_bit_every_nth d 0 n 9 = Some (d', 16)
     \<and> read_bits bit_lib_get_bit d' 0 16 = read_bits bit_lib_get_bit [0xA5, 0x3C] 0 16"
  using bit_lib_parity_roundtrip [of 9 0 2 "[0, 0, 0]" "[0xA5, 0x3C]" 0 BitLibParityEven] by simp



text \<open>
  Integers and byte strings: writing the low \<open>len\<close> bytes of a 64-bit number in either byte
  order and reading them back yields the number modulo \<open>256 ^ len\<close>; little endian is big endian
  reversed.
\<close>

theorem bit_lib_num_bytes_roundtrip:
  assumes "len \<le> 8" and "len \<le> length dest"
  shows "\<exists>b l. bit_lib_num_to_bytes_be src len dest = Some b \<and> bit_lib_num_to_bytes_le src len dest = Some l
    \<and> bit_lib_bytes_to_num_be b len = Some (take_bit (8 * len) src)
    \<and> bit_lib_bytes_to_num_le l len = Some (take_bit (8 * len) src)
    \<and> take len l = rev (take len b)"
  using num_bytes_be_roundtrip [OF assms, of src] num_bytes_le_roundtrip [OF assms, of src]
    num_to_bytes_le_eq [OF assms, of src] by auto

theorem bit_lib_num_bytes_roundtrip_witness:
  "\<exists>b. bit_lib_num_to_bytes_be 0x1234567 4 [0, 0, 0, 0] = Some b \<and> bit_lib_bytes_to_num_be b 4 = Some 0x1234567"
  using bit_lib_num_bytes_roundtrip [of 4 "[0, 0, 0, 0]" "0x1234567"] by (auto simp: take_bit_eq_mod)

text \<open>
  C17. Binary-coded decimal: for up to nine bytes the conversion never overflows 64 bits, returns
  the decimal number spelled by the nibbles, and its flag says exactly whether every nibble is a
  decimal digit.
\<close>

theorem bit_lib_bytes_to_num_bcd_correct:
  assumes "len \<le> 9" and "len \<le> length src"
  shows "\<exists>res. bit_lib_bytes_to_num_bcd src len =
      Some (res, \<forall>b \<in> set (take len src). unat b div 16 \<le> 9 \<and> unat b mod 16 \<le> 9)
    \<and> unat res = nibble_val (take len src)"
  using bcd_loop [OF assms] assms(1) by (auto simp: bit_lib_bytes_to_num_bcd_def)

theorem bit_lib_bytes_to_num_bcd_correct_witness:
  "\<exists>res. bit_lib_bytes_to_num_bcd [0x12, 0x34] 2 = Some (res, True) \<and> unat res = 1234"
  using bit_lib_bytes_to_num_bcd_correct [of 2 "[0x12, 0x34]"] by (auto simp: nibble_val_def)

end
