(* ===== verification/DateTime.thy ===== *)
theory DateTime
  imports Prelude
begin

text \<open>
  \<^verbatim>\<open>lib/datetime/datetime.c\<close>: calendar dates and UNIX timestamps. Fields are natural numbers in
  the range of their C type; the 8-bit year counters, the 16-bit year and the 32-bit timestamp
  wrap around explicitly. Month lengths come from a table, and a month outside it is \<open>None\<close>.
\<close>

section \<open>Definitions\<close>

record DateTime =
  hour :: nat
  minute :: nat
  second :: nat
  day :: nat
  month :: nat
  year :: nat
  weekday :: nat

definition SECONDS_PER_MINUTE :: nat where "SECONDS_PER_MINUTE = 60"
definition SECONDS_PER_HOUR :: nat where "SECONDS_PER_HOUR = SECONDS_PER_MINUTE * 60"
definition SECONDS_PER_DAY :: nat where "SECONDS_PER_DAY = SECONDS_PER_HOUR * 24"
definition EPOCH_START_YEAR :: nat where "EPOCH_START_YEAR = 1970"

definition datetime_days_per_month :: "nat list list" where
  "datetime_days_per_month =
     [[31, 28, 31, 30, 31, 30, 31, 31, 30, 31, 30, 31],
      [31, 29, 31, 30, 31, 30, 31, 31, 30, 31, 30, 31]]"

definition datetime_days_per_year :: "nat list" where
  "datetime_days_per_year = [365, 366]"

definition datetime_validate_datetime :: "DateTime \<Rightarrow> bool" where
  "datetime_validate_datetime dt =
     (let invalid = second dt > 59 \<or> minute dt > 59 \<or> hour dt > 23
            \<or> year dt < 2000 \<or> year dt > 2099
            \<or> month dt = 0 \<or> month dt > 12
            \<or> day dt = 0 \<or> day dt > 31
            \<or> weekday dt = 0 \<or> weekday dt > 7
      in \<not> invalid)"

definition datetime_is_leap_year :: "nat \<Rightarrow> bool" where
  "datetime_is_leap_year y \<longleftrightarrow> (y mod 4 = 0 \<and> y mod 100 \<noteq> 0) \<or> y mod 400 = 0"

definition datetime_get_days_per_year :: "nat \<Rightarrow> nat" where
  "datetime_get_days_per_year y = datetime_days_per_year ! (if datetime_is_leap_year y then 1 else 0)"

definition datetime_get_days_per_month :: "bool \<Rightarrow> nat \<Rightarrow> nat option" where
  "datetime_get_days_per_month leap_year m =
     (if m = 0 then None else rd (datetime_days_per_month ! (if leap_year then 1 else 0)) (m - 1))"

text \<open>
  The products are C \<open>int\<close> values added to an unsigned 32-bit sum, so the sum is taken modulo
  \<open>2 ^ 32\<close>. The year product alone exceeds \<open>INT_MAX\<close> from 2039 on, which ISO C leaves undefined;
  the model gives it the two's complement value of the target.
\<close>

fun datetime_months_loop :: "bool \<Rightarrow> nat list \<Rightarrow> int \<Rightarrow> int option" where
  "datetime_months_loop leap_year [] timestamp = Some timestamp"
| "datetime_months_loop leap_year (m # ms) timestamp = do {
     d \<leftarrow> datetime_get_days_per_month leap_year m;
     datetime_months_loop leap_year ms ((timestamp + int d * int SECONDS_PER_DAY) mod 2 ^ 32)
   }"

definition datetime_years_before :: "nat \<Rightarrow> nat \<times> nat" where
  "datetime_years_before y0 =
     for_loop EPOCH_START_YEAR y0
       (\<lambda>y (years, leap_years). if datetime_is_leap_year y then (years, (leap_years + 1) mod 256)
                                else ((years + 1) mod 256, leap_years)) (0, 0)"

definition datetime_datetime_to_timestamp :: "DateTime \<Rightarrow> nat option" where
  "datetime_datetime_to_timestamp dt = do {
     let (years, leap_years) = datetime_years_before (year dt);
     let timestamp = int ((years * datetime_days_per_year ! 0 + leap_years * datetime_days_per_year ! 1)
                          * SECONDS_PER_DAY) mod 2 ^ 32;
     timestamp \<leftarrow> datetime_months_loop (datetime_is_leap_year (year dt)) [1..<month dt] timestamp;
     let timestamp = (timestamp + (int (day dt) - 1) * int SECONDS_PER_DAY) mod 2 ^ 32;
     let timestamp = (timestamp + int (hour dt) * int SECONDS_PER_HOUR) mod 2 ^ 32;
     let timestamp = (timestamp + int (minute dt) * int SECONDS_PER_MINUTE) mod 2 ^ 32;
     let timestamp = (timestamp + int (second dt)) mod 2 ^ 32;
     Some (nat timestamp)
   }"

lemma days_per_year_pos: "0 < datetime_get_days_per_year y"
  by (simp add: datetime_get_days_per_year_def datetime_days_per_year_def)

lemma days_per_year_decreases:
  "datetime_get_days_per_year y \<le> days \<Longrightarrow> days - datetime_get_days_per_year y < days"
  using days_per_year_pos [of y] by linarith

lemma days_per_month_SomeD:
  "datetime_get_days_per_month leap_year m = Some d \<Longrightarrow> 1 \<le> m \<and> m \<le> 12"
  by (auto simp: datetime_get_days_per_month_def rd_def datetime_days_per_month_def split: if_splits)

function datetime_year_loop :: "nat \<Rightarrow> nat \<Rightarrow> nat \<times> nat" where
  "datetime_year_loop days y =
     (if days \<ge> datetime_get_days_per_year y
      then datetime_year_loop (days - datetime_get_days_per_year y) ((y + 1) mod 2 ^ 16)
      else (days, y))"
  by pat_completeness auto
termination
  by (relation "measure fst") (auto intro: days_per_year_decreases)

function datetime_month_loop :: "bool \<Rightarrow> nat \<Rightarrow> nat \<Rightarrow> (nat \<times> nat) option" where
  "datetime_month_loop leap_year days m =
     (case datetime_get_days_per_month leap_year m of
        None \<Rightarrow> None
      | Some d \<Rightarrow> if days \<ge> d then datetime_month_loop leap_year (days - d) (m + 1) else Some (days, m))"
  by pat_completeness auto
termination
  by (relation "measure (\<lambda>(leap_year, days, m). 13 - m)") (auto dest: days_per_month_SomeD)

definition datetime_timestamp_to_datetime :: "nat \<Rightarrow> DateTime option" where
  "datetime_timestamp_to_datetime timestamp = do {
     let days = timestamp div SECONDS_PER_DAY;
     let seconds_in_day = timestamp mod SECONDS_PER_DAY;
     let wd = (days + 3) mod 7 + 1;
     let (days, y) = datetime_year_loop days EPOCH_START_YEAR;
     (days, m) \<leftarrow> datetime_month_loop (datetime_is_leap_year y) days 1;
     Some \<lparr>hour = seconds_in_day div SECONDS_PER_HOUR,
           minute = (seconds_in_day mod SECONDS_PER_HOUR) div SECONDS_PER_MINUTE,
           second = seconds_in_day mod SECONDS_PER_MINUTE,
           day = days + 1, month = m, year = y, weekday = wd\<rparr>
   }"

declare datetime_year_loop.simps [simp del] datetime_month_loop.simps [simp del]

section \<open>The calendar\<close>

text \<open>
  The specification: days elapsed since the epoch, counted year by year and month by month, and
  the seconds of a date. \<open>calendar_date\<close> is what the Gregorian calendar calls a date and time from
  1970 on.
\<close>

definition days_before_year :: "nat \<Rightarrow> nat" where
  "days_before_year y = sum_list (map datetime_get_days_per_year [EPOCH_START_YEAR..<y])"

definition month_len :: "bool \<Rightarrow> nat \<Rightarrow> nat" where
  "month_len leap_year m = the (datetime_get_days_per_month leap_year m)"

primrec days_before_month :: "bool \<Rightarrow> nat \<Rightarrow> nat" where
  "days_before_month leap_year 0 = 0"
| "days_before_month leap_year (Suc m) =
     (if m = 0 then 0 else days_before_month leap_year m + month_len leap_year m)"

definition calendar_date :: "DateTime \<Rightarrow> bool" where
  "calendar_date dt \<longleftrightarrow>
     EPOCH_START_YEAR \<le> year dt \<and> 1 \<le> month dt \<and> month dt \<le> 12 \<and>
     1 \<le> day dt \<and> day dt \<le> month_len (datetime_is_leap_year (year dt)) (month dt) \<and>
     hour dt < 24 \<and> minute dt < 60 \<and> second dt < 60"

definition days_since_epoch :: "DateTime \<Rightarrow> nat" where
  "days_since_epoch dt = days_before_year (year dt)
     + days_before_month (datetime_is_leap_year (year dt)) (month dt) + (day dt - 1)"

definition unix_seconds :: "DateTime \<Rightarrow> nat" where
  "unix_seconds dt = days_since_epoch dt * SECONDS_PER_DAY + hour dt * SECONDS_PER_HOUR
     + minute dt * SECONDS_PER_MINUTE + second dt"

section \<open>Counting days\<close>

lemmas seconds_defs = SECONDS_PER_DAY_def SECONDS_PER_HOUR_def SECONDS_PER_MINUTE_def

lemma seconds_per_hour: "SECONDS_PER_HOUR = 3600"
  by (simp add: seconds_defs)

lemma seconds_per_minute: "SECONDS_PER_MINUTE = 60"
  by (simp add: seconds_defs)

lemma days_before_epoch [simp]: "y \<le> EPOCH_START_YEAR \<Longrightarrow> days_before_year y = 0"
  by (simp add: days_before_year_def)

lemma days_before_year_Suc [simp]:
  "EPOCH_START_YEAR \<le> y \<Longrightarrow> days_before_year (Suc y) = days_before_year y + datetime_get_days_per_year y"
  by (simp add: days_before_year_def)

lemma days_per_year_ge: "365 \<le> datetime_get_days_per_year y"
  by (simp add: datetime_get_days_per_year_def datetime_days_per_year_def)

lemma days_before_year_ge: "EPOCH_START_YEAR \<le> y \<Longrightarrow> 365 * (y - EPOCH_START_YEAR) \<le> days_before_year y"
proof (induction y rule: dec_induct)
  case base
  then show ?case by simp
next
  case (step y)
  then show ?case using days_per_year_ge [of y] by (simp add: Suc_diff_le)
qed

lemma month_len_table:
  "month_len b (Suc 0) = 31" "month_len b 2 = (if b then 29 else 28)" "month_len b 3 = 31" "month_len b 4 = 30"
  "month_len b 5 = 31" "month_len b 6 = 30" "month_len b 7 = 31" "month_len b 8 = 31"
  "month_len b 9 = 30" "month_len b 10 = 31" "month_len b 11 = 30" "month_len b 12 = 31"
  by (simp_all add: month_len_def datetime_get_days_per_month_def datetime_days_per_month_def rd_def)

lemma days_per_month_Some:
  "1 \<le> m \<Longrightarrow> m \<le> 12 \<Longrightarrow> datetime_get_days_per_month b m = Some (month_len b m)"
  by (auto simp: month_len_def datetime_get_days_per_month_def rd_def datetime_days_per_month_def)

lemma days_before_month_Suc [simp]:
  "1 \<le> m \<Longrightarrow> days_before_month b (Suc m) = days_before_month b m + month_len b m"
  by simp

lemma days_before_month_1 [simp]: "days_before_month b (Suc 0) = 0"
  by simp

lemma days_before_month_13: "days_before_month b 13 = (if b then 366 else 365)"
  by (cases b) (simp; code_simp)+

declare days_before_month.simps(2) [simp del]

lemma days_per_year_months:
  "datetime_get_days_per_year y = days_before_month (datetime_is_leap_year y) 13"
  by (simp add: days_before_month_13 datetime_get_days_per_year_def datetime_days_per_year_def)

section \<open>The loops count days\<close>

lemma years_before_eq:
  assumes "EPOCH_START_YEAR \<le> y" and "y - EPOCH_START_YEAR < 256"
  shows "\<exists>a b. datetime_years_before y = (a, b) \<and> a + b = y - EPOCH_START_YEAR
    \<and> a * 365 + b * 366 = days_before_year y"
  using assms
proof (induction y rule: dec_induct)
  case base
  then show ?case by (simp add: datetime_years_before_def)
next
  case (step n)
  then have "n - EPOCH_START_YEAR < 256" by simp
  then obtain a b where "datetime_years_before n = (a, b)" "a + b = n - EPOCH_START_YEAR"
    "a * 365 + b * 366 = days_before_year n" using step.IH by blast
  with step.hyps step.prems show ?case
    by (auto simp: datetime_years_before_def for_loop_Suc datetime_get_days_per_year_def
        datetime_days_per_year_def)
qed

lemma months_loop_eq:
  "1 \<le> m \<Longrightarrow> m \<le> 13 \<Longrightarrow> k \<le> m \<Longrightarrow> 1 \<le> k \<Longrightarrow>
   datetime_months_loop b [k..<m] ((t + int (days_before_month b k) * int SECONDS_PER_DAY) mod 2 ^ 32) =
     Some ((t + int (days_before_month b m) * int SECONDS_PER_DAY) mod 2 ^ 32)"
proof (induction "m - k" arbitrary: k)
  case 0
  then show ?case by simp
next
  case (Suc n)
  then have k: "k < m" by simp
  have "((t + int (days_before_month b k) * int SECONDS_PER_DAY) mod 2 ^ 32 + int (month_len b k) * int SECONDS_PER_DAY) mod 2 ^ 32
     = (t + int (days_before_month b (k + 1)) * int SECONDS_PER_DAY) mod 2 ^ 32"
    using Suc.prems unfolding mod_add_left_eq by (simp add: algebra_simps)
  moreover have "datetime_months_loop b [k + 1..<m] ((t + int (days_before_month b (k + 1)) * int SECONDS_PER_DAY) mod 2 ^ 32) =
     Some ((t + int (days_before_month b m) * int SECONDS_PER_DAY) mod 2 ^ 32)"
    using Suc k by (intro Suc.hyps(1)) auto
  ultimately show ?case
    using k Suc.prems by (simp add: upt_conv_Cons days_per_month_Some)
qed

lemma wrap_chain:
  "(((((a + b) mod M + c) mod M + d) mod M + e) mod M + f) mod M = (a + b + c + d + e + f) mod (M :: int)"
  by (simp only: mod_add_left_eq)

lemma nat_wrap_id: "n < nat M \<Longrightarrow> nat (int n mod M) = n"
  by simp

lemma to_timestamp_eq:
  assumes "calendar_date dt" and "unix_seconds dt < 2 ^ 32"
  shows "datetime_datetime_to_timestamp dt = Some (unix_seconds dt)"
proof -
  let ?b = "datetime_is_leap_year (year dt)"
  have c: "EPOCH_START_YEAR \<le> year dt" "1 \<le> month dt" "month dt \<le> 12" "1 \<le> day dt"
    using assms(1) by (auto simp: calendar_date_def)
  have "days_before_year (year dt) * 86400 < 2 ^ 32"
    using assms(2) by (simp add: unix_seconds_def days_since_epoch_def seconds_defs algebra_simps)
  then have "year dt - EPOCH_START_YEAR < 256"
    using days_before_year_ge [OF c(1)] by simp
  then obtain a b where ab: "datetime_years_before (year dt) = (a, b)"
    "a * 365 + b * 366 = days_before_year (year dt)"
    using years_before_eq [OF c(1)] by blast
  have days_in_years: "a * datetime_days_per_year ! 0 + b * datetime_days_per_year ! 1 = days_before_year (year dt)"
    using ab(2) by (simp add: datetime_days_per_year_def)
  have seconds: "int (days_before_year (year dt) * SECONDS_PER_DAY)
        + int (days_before_month ?b (month dt)) * int SECONDS_PER_DAY
        + (int (day dt) - 1) * int SECONDS_PER_DAY + int (hour dt) * int SECONDS_PER_HOUR
        + int (minute dt) * int SECONDS_PER_MINUTE + int (second dt) = int (unix_seconds dt)"
    using c(4) by (cases "day dt")
      (simp_all only: unix_seconds_def days_since_epoch_def of_nat_add of_nat_mult of_nat_Suc
        diff_Suc_1 add_diff_cancel_left' distrib_right)
  have "datetime_months_loop ?b [1..<month dt] (int (days_before_year (year dt) * SECONDS_PER_DAY) mod 2 ^ 32) =
     Some ((int (days_before_year (year dt) * SECONDS_PER_DAY)
        + int (days_before_month ?b (month dt)) * int SECONDS_PER_DAY) mod 2 ^ 32)"
    using months_loop_eq [of "month dt" 1 ?b "int (days_before_year (year dt) * SECONDS_PER_DAY)"] c by simp
  then have "datetime_datetime_to_timestamp dt = Some (nat
     ((((((int (days_before_year (year dt) * SECONDS_PER_DAY)
        + int (days_before_month ?b (month dt)) * int SECONDS_PER_DAY) mod 2 ^ 32
        + (int (day dt) - 1) * int SECONDS_PER_DAY) mod 2 ^ 32
        + int (hour dt) * int SECONDS_PER_HOUR) mod 2 ^ 32
        + int (minute dt) * int SECONDS_PER_MINUTE) mod 2 ^ 32 + int (second dt)) mod 2 ^ 32))"
    unfolding datetime_datetime_to_timestamp_def Let_def ab(1) prod.case days_in_years
    by (simp only: Option.bind.simps)
  also have "\<dots> = Some (nat (int (unix_seconds dt) mod 2 ^ 32))"
    unfolding wrap_chain seconds ..
  also have "nat (int (unix_seconds dt) mod 2 ^ 32) = unix_seconds dt"
    by (rule nat_wrap_id) (use assms(2) in simp)
  finally show ?thesis .
qed

lemma year_loop_eq:
  assumes "EPOCH_START_YEAR \<le> y" and "y + days div 365 < 2 ^ 16"
    and "datetime_year_loop days y = (d, y')"
  shows "days + days_before_year y = d + days_before_year y' \<and> d < datetime_get_days_per_year y' \<and> y \<le> y'"
  using assms
proof (induction days y rule: datetime_year_loop.induct)
  case (1 days y)
  show ?case
  proof (cases "datetime_get_days_per_year y \<le> days")
    case True
    have ge: "365 \<le> datetime_get_days_per_year y" by (rule days_per_year_ge)
    then have "days div 365 \<ge> 1" using True by (simp add: Suc_le_eq div_greater_zero_iff)
    then have y: "(y + 1) mod 2 ^ 16 = y + 1" using "1.prems"(2) by simp
    have "(days - datetime_get_days_per_year y) div 365 \<le> (days - 365) div 365"
      using ge by (intro div_le_mono) simp
    also have "\<dots> = days div 365 - 1" using ge True by (simp add: le_div_geq)
    finally have "y + 1 + (days - datetime_get_days_per_year y) div 365 < 2 ^ 16"
      using "1.prems"(2) \<open>days div 365 \<ge> 1\<close> by simp
    moreover have "datetime_year_loop (days - datetime_get_days_per_year y) (y + 1) = (d, y')"
      using "1.prems"(3) True y by (simp add: datetime_year_loop.simps [of days y])
    ultimately show ?thesis
      using "1.IH" [OF True] "1.prems"(1) True unfolding y by auto
  next
    case False
    then show ?thesis using "1.prems" by (simp add: datetime_year_loop.simps [of days y])
  qed
qed

lemma month_loop_eq:
  assumes "1 \<le> m" and "m \<le> 12" and "days + days_before_month b m < days_before_month b 13"
  shows "\<exists>d m'. datetime_month_loop b days m = Some (d, m') \<and> m \<le> m' \<and> m' \<le> 12
    \<and> days + days_before_month b m = d + days_before_month b m' \<and> d < month_len b m'"
  using assms
proof (induction b days m rule: datetime_month_loop.induct)
  case (1 b days m)
  have dpm: "datetime_get_days_per_month b m = Some (month_len b m)"
    using "1.prems" by (intro days_per_month_Some) auto
  show ?case
  proof (cases "month_len b m \<le> days")
    case True
    have step: "days - month_len b m + days_before_month b (m + 1) = days + days_before_month b m"
      using True "1.prems"(1) by (simp)
    have "m \<noteq> 12"
    proof
      assume "m = 12"
      then have "days_before_month b 13 = days_before_month b m + month_len b m"
        using days_before_month_Suc [of 12 b] by (simp)
      then show False using True "1.prems"(3) by simp
    qed
    then have "\<exists>d m'. datetime_month_loop b (days - month_len b m) (m + 1) = Some (d, m') \<and> m + 1 \<le> m' \<and> m' \<le> 12
       \<and> days - month_len b m + days_before_month b (m + 1) = d + days_before_month b m' \<and> d < month_len b m'"
      using "1.prems" True step by (intro "1.IH" [OF dpm]) auto
    then show ?thesis
      unfolding step using True by (auto simp: datetime_month_loop.simps [of b days m] dpm)
  next
    case False
    then show ?thesis
      using "1.prems" by (simp add: datetime_month_loop.simps [of b days m] dpm)
  qed
qed

lemma year_loop_range:
  assumes "timestamp < 2 ^ 32"
  shows "EPOCH_START_YEAR + timestamp div SECONDS_PER_DAY div 365 < 2 ^ 16"
proof -
  have "timestamp div SECONDS_PER_DAY div 365 \<le> 2 ^ 32 div 86400 div 365"
    using assms by (intro div_le_mono) (simp_all add: seconds_defs div_le_mono)
  then show ?thesis by (simp add: EPOCH_START_YEAR_def)
qed

lemma seconds_of_day:
  "(t mod SECONDS_PER_DAY) div SECONDS_PER_HOUR < 24"
  "(t mod SECONDS_PER_DAY) mod SECONDS_PER_HOUR div SECONDS_PER_MINUTE < 60"
  "(t mod SECONDS_PER_DAY) mod SECONDS_PER_MINUTE < 60"
  "t div SECONDS_PER_DAY * SECONDS_PER_DAY + (t mod SECONDS_PER_DAY) div SECONDS_PER_HOUR * SECONDS_PER_HOUR
   + (t mod SECONDS_PER_DAY) mod SECONDS_PER_HOUR div SECONDS_PER_MINUTE * SECONDS_PER_MINUTE
   + (t mod SECONDS_PER_DAY) mod SECONDS_PER_MINUTE = t"
proof -
  let ?s = "t mod SECONDS_PER_DAY"
  have s: "?s < 86400" by (simp add: seconds_defs)
  then show "?s div SECONDS_PER_HOUR < 24" "?s mod SECONDS_PER_HOUR div SECONDS_PER_MINUTE < 60"
    "?s mod SECONDS_PER_MINUTE < 60"
    by (simp_all add: seconds_defs less_mult_imp_div_less)
  have "?s div 3600 * 3600 + ?s mod 3600 = ?s" by (rule div_mult_mod_eq)
  moreover have "?s mod 3600 div 60 * 60 + ?s mod 3600 mod 60 = ?s mod 3600" by (rule div_mult_mod_eq)
  moreover have "?s mod 3600 mod 60 = ?s mod 60" by (rule mod_mod_cancel) simp
  moreover have "t div SECONDS_PER_DAY * SECONDS_PER_DAY + ?s = t" by (rule div_mult_mod_eq)
  ultimately show "t div SECONDS_PER_DAY * SECONDS_PER_DAY + ?s div SECONDS_PER_HOUR * SECONDS_PER_HOUR
   + ?s mod SECONDS_PER_HOUR div SECONDS_PER_MINUTE * SECONDS_PER_MINUTE + ?s mod SECONDS_PER_MINUTE = t"
    unfolding seconds_per_hour seconds_per_minute by linarith
qed

lemma to_datetime_eq:
  assumes "timestamp < 2 ^ 32"
  shows "\<exists>dt. datetime_timestamp_to_datetime timestamp = Some dt \<and> calendar_date dt
    \<and> unix_seconds dt = timestamp \<and> weekday dt = (days_since_epoch dt + 3) mod 7 + 1"
proof -
  let ?days = "timestamp div SECONDS_PER_DAY"
  obtain d y where yl: "datetime_year_loop ?days EPOCH_START_YEAR = (d, y)" by fastforce
  have year: "?days = d + days_before_year y" "d < datetime_get_days_per_year y" "EPOCH_START_YEAR \<le> y"
    using year_loop_eq [OF order_refl year_loop_range [OF assms] yl] by simp_all
  let ?b = "datetime_is_leap_year y"
  obtain d' m where ml: "datetime_month_loop ?b d 1 = Some (d', m)" "1 \<le> m" "m \<le> 12"
    "d = d' + days_before_month ?b m" "d' < month_len ?b m"
    using month_loop_eq [of 1 d ?b] year(2) by (auto simp: days_per_year_months)
  let ?dt = "\<lparr>hour = timestamp mod SECONDS_PER_DAY div SECONDS_PER_HOUR,
     minute = timestamp mod SECONDS_PER_DAY mod SECONDS_PER_HOUR div SECONDS_PER_MINUTE,
     second = timestamp mod SECONDS_PER_DAY mod SECONDS_PER_MINUTE,
     day = d' + 1, month = m, year = y, weekday = (?days + 3) mod 7 + 1\<rparr>"
  have "datetime_timestamp_to_datetime timestamp = Some ?dt"
    using yl ml by (simp add: datetime_timestamp_to_datetime_def Let_def)
  moreover have "calendar_date ?dt"
    using year ml seconds_of_day(1,2,3) [of timestamp] by (simp add: calendar_date_def)
  moreover have days: "days_since_epoch ?dt = ?days"
    using year ml by (simp add: days_since_epoch_def)
  moreover have "unix_seconds ?dt = timestamp"
    using seconds_of_day(4) [of timestamp] unfolding unix_seconds_def days by simp
  ultimately show ?thesis by (intro exI [of _ ?dt]) simp
qed

text \<open>Two calendar dates with the same number of seconds have the same fields.\<close>

lemma days_before_year_less:
  assumes "EPOCH_START_YEAR \<le> y" and "y < y'"
  shows "days_before_year y + datetime_get_days_per_year y \<le> days_before_year y'"
proof -
  have "Suc y \<le> y'" using assms(2) by simp
  then show ?thesis using assms(1) by (induction y' rule: dec_induct) auto
qed

lemma days_before_month_less:
  assumes "1 \<le> m" and "m < m'"
  shows "days_before_month b m + month_len b m \<le> days_before_month b m'"
proof -
  have "Suc m \<le> m'" using assms(2) by simp
  then show ?thesis using assms(1) by (induction m' rule: dec_induct) auto
qed

lemma day_of_year:
  assumes "calendar_date dt"
  shows "days_before_month (datetime_is_leap_year (year dt)) (month dt) + (day dt - 1)
    < datetime_get_days_per_year (year dt)"
  using assms days_before_month_less [of "month dt" 13 "datetime_is_leap_year (year dt)"]
  unfolding calendar_date_def days_per_year_months by linarith

lemma calendar_days_inject:
  assumes a: "calendar_date a" and b: "calendar_date b" and eq: "days_since_epoch a = days_since_epoch b"
  shows "year a = year b \<and> month a = month b \<and> day a = day b"
proof -
  have ya: "EPOCH_START_YEAR \<le> year a" and yb: "EPOCH_START_YEAR \<le> year b"
    using a b by (simp_all add: calendar_date_def)
  have y: "year a = year b"
    using days_before_year_less [OF ya, of "year b"] days_before_year_less [OF yb, of "year a"]
      day_of_year [OF a] day_of_year [OF b] eq
    unfolding days_since_epoch_def by (cases "year a" "year b" rule: linorder_cases) linarith+
  let ?l = "datetime_is_leap_year (year b)"
  have "days_before_month ?l (month a) + (day a - 1) = days_before_month ?l (month b) + (day b - 1)"
    using eq y by (simp add: days_since_epoch_def)
  moreover have "1 \<le> month a" "1 \<le> month b" "1 \<le> day a" "1 \<le> day b"
    "day a \<le> month_len ?l (month a)" "day b \<le> month_len ?l (month b)"
    using a b y by (simp_all add: calendar_date_def)
  ultimately have "month a = month b \<and> day a = day b"
    using days_before_month_less [of "month a" "month b" ?l] days_before_month_less [of "month b" "month a" ?l]
    by (cases "month a" "month b" rule: linorder_cases) auto
  with y show ?thesis by simp
qed

lemma clock_inject:
  assumes "h < 24" "m < 60" "s < 60" "h' < 24" "m' < 60" "s' < 60"
    and "d * SECONDS_PER_DAY + h * SECONDS_PER_HOUR + m * SECONDS_PER_MINUTE + s =
         d' * SECONDS_PER_DAY + h' * SECONDS_PER_HOUR + m' * SECONDS_PER_MINUTE + s'"
  shows "d = d' \<and> h = h' \<and> m = m' \<and> s = s'"
proof -
  have n: "d * 86400 + h * 3600 + m * 60 + s = d' * 86400 + h' * 3600 + m' * 60 + s'"
    using assms(7) by (simp add: seconds_defs)
  have d: "d = d'" using n assms(1-6) by (cases d d' rule: linorder_cases) linarith+
  have h: "h = h'" using n d assms(1-6) by (cases h h' rule: linorder_cases) linarith+
  have "m = m'" using n d h assms(1-6) by (cases m m' rule: linorder_cases) linarith+
  then show ?thesis using n d h by linarith
qed

lemma days_of_seconds:
  assumes "calendar_date dt"
  shows "unix_seconds dt div 86400 = days_since_epoch dt"
proof -
  have "hour dt < 24" "minute dt < 60" "second dt < 60" using assms by (simp_all add: calendar_date_def)
  then have "hour dt * 3600 + minute dt * 60 + second dt < 86400" by linarith
  moreover have "unix_seconds dt = days_since_epoch dt * 86400 + (hour dt * 3600 + minute dt * 60 + second dt)"
    by (simp add: unix_seconds_def seconds_defs)
  ultimately show ?thesis by simp
qed

lemma unix_seconds_inject:
  assumes "calendar_date a" and "calendar_date b" and "unix_seconds a = unix_seconds b"
  shows "a = b\<lparr>weekday := weekday a\<rparr>"
proof -
  have "days_since_epoch a = days_since_epoch b \<and> hour a = hour b \<and> minute a = minute b \<and> second a = second b"
    by (rule clock_inject) (use assms in \<open>auto simp: calendar_date_def unix_seconds_def\<close>)
  moreover have "year a = year b \<and> month a = month b \<and> day a = day b"
    using calendar_days_inject [OF assms(1,2)] calculation by blast
  ultimately show ?thesis by (cases a, cases b) simp
qed

section \<open>Properties\<close>





text \<open>
  Converting a calendar date to a timestamp and back returns the same date, with its day of
  the week recomputed.
\<close>

theorem datetime_date_roundtrip:
  assumes "calendar_date dt" and "unix_seconds dt < 2 ^ 32"
  shows "\<exists>ts. datetime_datetime_to_timestamp dt = Some ts
    \<and> datetime_timestamp_to_datetime ts = Some (dt\<lparr>weekday := (days_since_epoch dt + 3) mod 7 + 1\<rparr>)"
proof -
  obtain dt' where dt': "datetime_timestamp_to_datetime (unix_seconds dt) = Some dt'" "calendar_date dt'"
    "unix_seconds dt' = unix_seconds dt" "weekday dt' = (days_since_epoch dt' + 3) mod 7 + 1"
    using to_datetime_eq [OF assms(2)] by blast
  have eq: "dt' = dt\<lparr>weekday := weekday dt'\<rparr>"
    using unix_seconds_inject [OF dt'(2) assms(1) dt'(3)] .
  then have "days_since_epoch dt' = days_since_epoch dt"
    by (metis days_since_epoch_def DateTime.ext_inject DateTime.surjective DateTime.update_convs(7))
  with dt' eq to_timestamp_eq [OF assms] show ?thesis by metis
qed

theorem datetime_date_roundtrip_witness:
  "\<exists>ts. datetime_datetime_to_timestamp
       \<lparr>hour = 23, minute = 59, second = 59, day = 29, month = 2, year = 2000, weekday = 0\<rparr> = Some ts
    \<and> datetime_timestamp_to_datetime ts =
       Some \<lparr>hour = 23, minute = 59, second = 59, day = 29, month = 2, year = 2000, weekday = 2\<rparr>"
proof -
  let ?dt = "\<lparr>hour = 23, minute = 59, second = 59, day = 29, month = 2, year = 2000, weekday = 0\<rparr>"
  have "datetime_is_leap_year 2000" by (simp add: datetime_is_leap_year_def)
  moreover have "days_before_year 2000 = 10957"
    by (simp add: days_before_year_def EPOCH_START_YEAR_def upt_rec_numeral datetime_get_days_per_year_def
        datetime_days_per_year_def datetime_is_leap_year_def)
  moreover have "days_before_month True 2 = 31"
    using days_before_month_Suc [of 1 True] by (simp add: month_len_table numeral_2_eq_2)
  ultimately have "calendar_date ?dt" "unix_seconds ?dt < 2 ^ 32" "(days_since_epoch ?dt + 3) mod 7 + 1 = 2"
    by (simp_all add: calendar_date_def month_len_table EPOCH_START_YEAR_def unix_seconds_def
        days_since_epoch_def seconds_defs)
  with datetime_date_roundtrip [of ?dt] show ?thesis by (simp add: numeral_2_eq_2)
qed

end
