(* ===== verification/Varint.thy ===== *)
theory Varint
  imports Prelude
begin

text \<open>
  \<^verbatim>\<open>lib/toolbox/varint.c\<close>: variable-length integers, seven bits per byte, least significant group
  first, and the zigzag form of signed ones. Output goes to a caller's buffer; a write outside it
  is \<open>None\<close>, as is a shift by the width of the word or more, which C leaves undefined. A signed
  product that leaves the \<open>int32_t\<close> range has the two's complement value of the target.
\<close>

section \<open>Definitions\<close>

function varint_pack_loop :: "u32 \<Rightarrow> u8 list \<Rightarrow> nat \<Rightarrow> (u8 list \<times> nat) option" where
  "varint_pack_loop value out pos =
     (if value \<ge> 0x80 then do {
        out \<leftarrow> wr out pos (ucast (value OR 0x80));
        varint_pack_loop (shr value 7) out (pos + 1)
      } else do {
        out \<leftarrow> wr out pos (ucast value);
        Some (out, pos + 1)
      })"
  by pat_completeness auto

lemma shr_7_less: "(value :: u32) \<ge> 0x80 \<Longrightarrow> unat (shr value 7) < unat value"
  by (simp add: word_le_nat_alt unat_shr)

termination varint_pack_loop
  by (relation "measure (\<lambda>(value, _). unat value)") (auto intro: shr_7_less)

definition varint_uint32_pack :: "u32 \<Rightarrow> u8 list \<Rightarrow> (u8 list \<times> nat) option" where
  "varint_uint32_pack value out = varint_pack_loop value out 0"

text \<open>The loop stops with \<open>i\<close> at the byte whose top bit is clear, or at \<open>input_size\<close>.\<close>

function varint_unpack_loop :: "u8 list \<Rightarrow> nat \<Rightarrow> nat \<Rightarrow> u32 \<Rightarrow> (u32 \<times> nat) option" where
  "varint_unpack_loop input input_size i parsed =
     (if i < input_size then do {
        b \<leftarrow> rd input i;
        furi_check (7 * i < 32);
        let parsed = parsed OR shl (ucast b AND 0x7F) (7 * i);
        if b AND 0x80 = 0 then Some (parsed, i)
        else varint_unpack_loop input input_size (i + 1) parsed
      } else Some (parsed, i))"
  by pat_completeness auto
termination
  by (relation "measure (\<lambda>(input, input_size, i, parsed). input_size - i)") auto

definition varint_uint32_unpack :: "u8 list \<Rightarrow> nat \<Rightarrow> (u32 \<times> nat) option" where
  "varint_uint32_unpack input input_size = do {
     (parsed, i) \<leftarrow> varint_unpack_loop input input_size 0 0;
     Some (parsed, i + 1)
   }"

function varint_length_loop :: "u32 \<Rightarrow> nat \<Rightarrow> nat" where
  "varint_length_loop value size_acc =
     (if value \<ge> 0x80 then varint_length_loop (shr value 7) (size_acc + 1) else size_acc + 1)"
  by pat_completeness auto
termination
  by (relation "measure (\<lambda>(value, _). unat value)") (auto intro: shr_7_less)

definition varint_uint32_length :: "u32 \<Rightarrow> nat" where
  "varint_uint32_length value = varint_length_loop value 0"

definition varint_zigzag :: "int \<Rightarrow> u32" where
  "varint_zigzag value =
     (if value \<ge> 0 then word_of_int (value * 2) else word_of_int (value * -2) - 1)"

definition varint_int32_pack :: "int \<Rightarrow> u8 list \<Rightarrow> (u8 list \<times> nat) option" where
  "varint_int32_pack value out = varint_uint32_pack (varint_zigzag value) out"

text \<open>C's division truncates toward zero.\<close>

definition c_div :: "int \<Rightarrow> int \<Rightarrow> int" where
  "c_div a b = sgn a * sgn b * (\<bar>a\<bar> div \<bar>b\<bar>)"

definition varint_int32_unpack :: "u8 list \<Rightarrow> nat \<Rightarrow> (int \<times> nat) option" where
  "varint_int32_unpack input input_size = do {
     (v, n) \<leftarrow> varint_uint32_unpack input input_size;
     Some (if v AND 1 \<noteq> 0 then c_div (sint (v + 1)) (-2) else sint (v div 2), n)
   }"

definition varint_int32_length :: "int \<Rightarrow> nat" where
  "varint_int32_length value = varint_uint32_length (varint_zigzag value)"

declare varint_pack_loop.simps [simp del] varint_unpack_loop.simps [simp del]
  varint_length_loop.simps [simp del]

section \<open>The encoding\<close>

text \<open>The bytes of a number, as a list.\<close>

function varint_bytes :: "u32 \<Rightarrow> u8 list" where
  "varint_bytes value =
     (if value \<ge> 0x80 then ucast (value OR 0x80) # varint_bytes (shr value 7) else [ucast value])"
  by pat_completeness auto
termination
  by (relation "measure unat") (auto intro: shr_7_less)

declare varint_bytes.simps [simp del]

lemma varint_bytes_not_Nil [simp]: "varint_bytes v \<noteq> []"
  by (subst varint_bytes.simps) simp

lemma length_varint_bytes: "varint_length_loop v n = n + length (varint_bytes v)"
  by (induction v n rule: varint_length_loop.induct)
    (auto simp: varint_length_loop.simps [of v for v] varint_bytes.simps [of v for v])

lemma length_varint_bytes_le:
  "unat v < 2 ^ (7 * k) \<Longrightarrow> 0 < k \<Longrightarrow> length (varint_bytes v) \<le> k"
proof (induction k arbitrary: v)
  case 0
  then show ?case by simp
next
  case (Suc k)
  show ?case
  proof (cases "v \<ge> 0x80")
    case True
    then have "k \<noteq> 0" using Suc.prems(1) by (cases k) (simp_all add: word_le_nat_alt)
    moreover have "unat (shr v 7) < 2 ^ (7 * k)"
      using Suc.prems(1)
      by (simp add: unat_shr less_mult_imp_div_less power_add mult.commute)
    ultimately show ?thesis using Suc.IH [of "shr v 7"] True by (simp add: varint_bytes.simps [of v])
  next
    case False
    then show ?thesis by (simp add: varint_bytes.simps [of v])
  qed
qed

lemma pack_loop_eq:
  "pos + length (varint_bytes v) \<le> length out \<Longrightarrow>
   varint_pack_loop v out pos =
     Some (take pos out @ varint_bytes v @ drop (pos + length (varint_bytes v)) out,
           pos + length (varint_bytes v))"
proof (induction v out pos rule: varint_pack_loop.induct)
  case (1 v out pos)
  show ?case
  proof (cases "v \<ge> 0x80")
    case True
    let ?b = "ucast (v OR 0x80) :: u8"
    have bytes: "varint_bytes v = ?b # varint_bytes (shr v 7)"
      using True by (simp add: varint_bytes.simps [of v])
    then have pos: "pos < length out" using "1.prems" by simp
    have "varint_pack_loop (shr v 7) (out[pos := ?b]) (pos + 1) =
      Some (take (pos + 1) (out[pos := ?b]) @ varint_bytes (shr v 7)
              @ drop (pos + 1 + length (varint_bytes (shr v 7))) (out[pos := ?b]),
            pos + 1 + length (varint_bytes (shr v 7)))"
      using True pos "1.prems" bytes by (intro "1.IH") (auto simp: wr_def)
    then show ?thesis
      using True pos by (simp add: varint_pack_loop.simps [of v] wr_def bytes take_Suc_conv_app_nth take_update_cancel)
  next
    case False
    then have bytes: "varint_bytes v = [ucast v]" by (simp add: varint_bytes.simps [of v])
    then show ?thesis
      using False "1.prems" by (simp add: varint_pack_loop.simps [of v] wr_def upd_conv_take_nth_drop)
  qed
qed

lemma pack_eq:
  "length (varint_bytes v) \<le> length out \<Longrightarrow>
   varint_uint32_pack v out =
     Some (varint_bytes v @ drop (length (varint_bytes v)) out, length (varint_bytes v))"
  using pack_loop_eq [of 0 v out] by (simp add: varint_uint32_pack_def)

section \<open>Decoding\<close>

lemma group_split:
  "shl ((ucast (ucast (v OR 0x80) :: u8) :: u32) AND 0x7F) s OR shl (shr v 7) (7 + s) = shl v s"
proof (rule bit_word_eqI)
  fix n
  assume n: "n < LENGTH(32)"
  show "bit (shl ((ucast (ucast (v OR 0x80) :: u8) :: u32) AND 0x7F) s OR shl (shr v 7) (7 + s)) n = bit (shl v s) n"
    using n by (cases "n < s + 7") (auto simp: bit_simps bit_0x7F bit_0x80)
qed

lemma more_flag: "(ucast ((v :: u32) OR 0x80) :: u8) AND 0x80 \<noteq> 0"
proof -
  have "bit ((ucast (v OR 0x80) :: u8) AND 0x80) 7" by (simp add: bit_simps)
  then show ?thesis by (metis bit_0_eq bot_apply bot_bool_def)
qed

lemma last_flag:
  assumes "\<not> (v :: u32) \<ge> 0x80"
  shows "(ucast v :: u8) AND 0x80 = 0" and "(ucast (ucast v :: u8) :: u32) AND 0x7F = v"
proof -
  have "unat v < 2 ^ 7" using assms by (simp add: not_le word_less_nat_alt)
  note hi = unat_less_bitD [OF this]
  show "(ucast v :: u8) AND 0x80 = 0"
    by (rule bit_word_eqI) (auto simp: bit_simps bit_0x80 hi)
  show "(ucast (ucast v :: u8) :: u32) AND 0x7F = v"
  proof (rule bit_word_eqI)
    fix k
    show "bit ((ucast (ucast v :: u8) :: u32) AND 0x7F) k = bit v k"
      by (cases "k < 7") (auto simp: bit_simps bit_0x7F hi)
  qed
qed

lemma unpack_loop_eq:
  assumes "unat v < 2 ^ (32 - 7 * i)" and "7 * i < 32"
    and "i + length (varint_bytes v) \<le> input_size" and "input_size \<le> length input"
    and "take (length (varint_bytes v)) (drop i input) = varint_bytes v"
  shows "varint_unpack_loop input input_size i parsed =
    Some (parsed OR shl v (7 * i), i + length (varint_bytes v) - 1)"
  using assms
proof (induction v arbitrary: i parsed rule: varint_bytes.induct)
  case (1 v)
  have i: "i < input_size" "i < length input"
    using "1.prems"(3,4) length_greater_0_conv [THEN iffD2, OF varint_bytes_not_Nil [of v]] by linarith+
  have bi: "input ! i = hd (varint_bytes v)"
    using "1.prems"(5) i(2) by (metis Cons_nth_drop_Suc list.sel(1) take_Cons' length_0_conv varint_bytes_not_Nil)
  show ?case
  proof (cases "v \<ge> 0x80")
    case True
    have bytes: "varint_bytes v = ucast (v OR 0x80) # varint_bytes (shr v 7)"
      using True by (simp add: varint_bytes.simps [of v])
    have "(2 :: nat) ^ 7 < 2 ^ (32 - 7 * i)" using True "1.prems"(1) by (simp add: word_le_nat_alt)
    then have "7 < 32 - 7 * i" by (subst (asm) power_strict_increasing_iff) simp_all
    then have i7: "7 * (i + 1) < 32" by simp
    have "32 - 7 * i = 7 + (32 - 7 * (i + 1))" using i7 by simp
    then have "(2 :: nat) ^ (32 - 7 * i) = 2 ^ 7 * 2 ^ (32 - 7 * (i + 1))" by (simp only: power_add)
    then have "unat (shr v 7) < 2 ^ (32 - 7 * (i + 1))"
      using "1.prems"(1) by (simp add: unat_shr less_mult_imp_div_less mult.commute)
    moreover have "take (length (varint_bytes (shr v 7))) (drop (i + 1) input) = varint_bytes (shr v 7)"
      using "1.prems"(5) i(2) by (simp add: bytes flip: Cons_nth_drop_Suc)
    ultimately have "varint_unpack_loop input input_size (i + 1) p =
        Some (p OR shl (shr v 7) (7 * (i + 1)), i + 1 + length (varint_bytes (shr v 7)) - 1)" for p
      using True i7 "1.prems"(3,4) by (intro "1.IH") (auto simp: bytes)
    then show ?thesis
      using i bi "1.prems"(2) group_split [of "7 * i" v] more_flag [of v]
      by (simp add: varint_unpack_loop.simps [of input _ i] rd_def bytes or.assoc)
  next
    case False
    then have "varint_bytes v = [ucast v]" by (simp add: varint_bytes.simps [of v])
    then show ?thesis
      using i bi "1.prems"(2) last_flag [OF False]
      by (simp add: varint_unpack_loop.simps [of input _ i] rd_def del: push_bit_and)
  qed
qed

lemma varint_bytes_5: "length (varint_bytes v) \<le> 5"
proof (rule length_varint_bytes_le)
  have "unat v < 2 ^ 32" using unsigned_less [of v] by simp
  also have "(2 :: nat) ^ 32 \<le> 2 ^ (7 * 5)" by simp
  finally show "unat v < 2 ^ (7 * 5)" .
qed simp

lemma uint32_roundtrip:
  assumes "5 \<le> length out" and "varint_uint32_length v \<le> input_size" and "input_size \<le> length out"
  shows "\<exists>packed. varint_uint32_pack v out = Some (packed, varint_uint32_length v)
    \<and> length packed = length out
    \<and> drop (varint_uint32_length v) packed = drop (varint_uint32_length v) out
    \<and> varint_uint32_unpack packed input_size = Some (v, varint_uint32_length v)"
proof -
  let ?n = "length (varint_bytes v)"
  let ?p = "varint_bytes v @ drop ?n out"
  have n: "varint_uint32_length v = ?n" by (simp add: varint_uint32_length_def length_varint_bytes)
  have le: "?n \<le> length out" using varint_bytes_5 [of v] assms(1) by simp
  have v: "unat v < 2 ^ 32" using unsigned_less [of v] by simp
  have pos: "0 < ?n" by simp
  have "varint_unpack_loop ?p input_size 0 0 = Some (0 OR shl v (7 * 0), 0 + ?n - 1)"
    using assms le v n by (intro unpack_loop_eq) auto
  then have "varint_uint32_unpack ?p input_size = Some (v, ?n)"
    using pos by (simp add: varint_uint32_unpack_def)
  then show ?thesis using pack_eq [OF le] le by (simp add: n)
qed

section \<open>Zigzag numbers\<close>

lemma zigzag_decode:
  assumes "- (2 ^ 30) < value" and "value < 2 ^ 31"
  shows "(if varint_zigzag value AND 1 \<noteq> 0 then c_div (sint (varint_zigzag value + 1)) (-2)
          else sint (varint_zigzag value div 2)) = value"
proof (cases "value \<ge> 0")
  case True
  let ?v = "word_of_int (value * 2) :: u32"
  have u: "uint ?v = value * 2" using True assms unfolding uint_word_of_int by simp
  then have "?v AND 1 = 0" by (simp add: and_one_eq word_uint_eq_iff uint_mod_distrib)
  moreover have "uint (?v div 2) = value" using u by (simp add: uint_div_distrib)
  then have "sint (?v div 2) = value" using True assms(2) by (simp add: sint_uint signed_take_bit_int_eq_self)
  ultimately show ?thesis using True by (simp add: varint_zigzag_def)
next
  case False
  let ?w = "word_of_int (value * -2) :: u32"
  have uw: "uint ?w = value * -2" using False assms unfolding uint_word_of_int by simp
  have "uint (?w - 1) = (uint ?w - uint (1 :: u32)) mod 2 ^ LENGTH(32)" by (rule uint_word_ariths)
  then have u: "uint (?w - 1) = value * -2 - 1" using uw False assms by simp
  then have "odd (uint (?w - 1))" by simp
  then have "(?w - 1) AND 1 \<noteq> 0" by (simp add: and_one_eq word_uint_eq_iff uint_mod_distrib odd_iff_mod_2_eq_one)
  moreover have "sint ?w = value * -2" using False assms unfolding sint_uint uw by (intro signed_take_bit_int_eq_self) auto
  moreover have "c_div (value * -2) (-2) = value" using False by (simp add: c_div_def sgn_if abs_if)
  ultimately show ?thesis using False by (simp add: varint_zigzag_def)
qed

section \<open>Properties\<close>

text \<open>
  C20. Round trip: packing any 32-bit number into a buffer of five bytes writes as many bytes as
  \<^verbatim>\<open>varint_uint32_length\<close> announces (at most five), leaves the rest of the buffer alone, and unpacking
  the buffer returns the number and the same byte count.
\<close>

theorem varint_uint32_roundtrip:
  assumes "5 \<le> length out" and "varint_uint32_length v \<le> input_size" and "input_size \<le> length out"
  shows "varint_uint32_length v \<le> 5 \<and>
    (\<exists>packed. varint_uint32_pack v out = Some (packed, varint_uint32_length v)
      \<and> length packed = length out
      \<and> drop (varint_uint32_length v) packed = drop (varint_uint32_length v) out
      \<and> varint_uint32_unpack packed input_size = Some (v, varint_uint32_length v))"
  using uint32_roundtrip [OF assms] varint_bytes_5 [of v]
  by (simp add: varint_uint32_length_def length_varint_bytes)

theorem varint_uint32_roundtrip_witness:
  "\<exists>packed. varint_uint32_pack 300 [0, 0, 0, 0, 0, 7] = Some (packed, 2)
     \<and> varint_uint32_unpack packed 6 = Some (300, 2)"
proof -
  have n: "varint_uint32_length 300 = 2" by code_simp
  then show ?thesis using varint_uint32_roundtrip [of "[0, 0, 0, 0, 0, 7]" 300 6] by auto
qed

text \<open>
  Round trip of signed numbers: every \<^verbatim>\<open>int32_t\<close> above \<open>-(2^30)\<close> survives
  \<^verbatim>\<open>varint_int32_pack\<close> followed by \<^verbatim>\<open>varint_int32_unpack\<close>.
\<close>

theorem varint_int32_roundtrip:
  assumes "- (2 ^ 30) < value" and "value < 2 ^ 31" and "5 \<le> length out"
  shows "\<exists>packed. varint_int32_pack value out = Some (packed, varint_int32_length value)
    \<and> varint_int32_unpack packed (length packed) = Some (value, varint_int32_length value)"
proof -
  let ?v = "varint_zigzag value"
  have "varint_uint32_length ?v \<le> length out"
    using varint_bytes_5 [of ?v] assms(3) by (simp add: varint_uint32_length_def length_varint_bytes)
  from uint32_roundtrip [OF assms(3) this order_refl] obtain packed
    where "varint_uint32_pack ?v out = Some (packed, varint_uint32_length ?v)"
      and "varint_uint32_unpack packed (length packed) = Some (?v, varint_uint32_length ?v)" by auto
  then show ?thesis
    using zigzag_decode [OF assms(1,2)]
    by (auto simp: varint_int32_pack_def varint_int32_unpack_def varint_int32_length_def)
qed

theorem varint_int32_roundtrip_witness:
  "\<exists>packed. varint_int32_pack (- 70000) [0, 0, 0, 0, 0] = Some (packed, varint_int32_length (- 70000))
     \<and> varint_int32_unpack packed (length packed) = Some (- 70000, varint_int32_length (- 70000))"
  using varint_int32_roundtrip [of "- 70000" "[0, 0, 0, 0, 0]"] by simp

text \<open>Below that range the sign is lost: \<open>-(2^30)\<close> comes back as \<open>2^30\<close>.\<close>

lemma varint_int32_min_quarter:
  "varint_zigzag (- (2 ^ 30)) = 2 ^ 31 - 1 \<and> c_div (sint (varint_zigzag (- (2 ^ 30)) + 1)) (-2) = 2 ^ 30"
  by code_simp

end
