(* ===== verification/Strint.thy ===== *)
theory Strint
  imports Prelude
begin

text \<open>
  \<^verbatim>\<open>lib/toolbox/strint.c\<close>: integers read from text. A C string is the list of its characters
  before the terminator; \<open>peek\<close> is \<open>*str\<close>. The accumulator is a \<^verbatim>\<open>uint64_t\<close> and wraps around
  explicitly, so that the overflow checks of the code carry the proof that it never does.
\<close>

section \<open>Definitions\<close>

datatype StrintParseError =
    StrintParseSignError
  | StrintParseAbsentError
  | StrintParseOverflowError

definition peek :: "string \<Rightarrow> nat" where
  "peek str = (case str of [] \<Rightarrow> 0 | c # _ \<Rightarrow> of_char c)"

fun strint_skip_whitespace :: "string \<Rightarrow> string" where
  "strint_skip_whitespace [] = []"
| "strint_skip_whitespace (c # str) =
     (if (9 \<le> (of_char c :: nat) \<and> (of_char c :: nat) \<le> 13) \<or> c = CHR '' ''
      then strint_skip_whitespace str else c # str)"

definition strint_read_sign :: "nat \<Rightarrow> string \<Rightarrow> StrintParseError + bool \<times> string" where
  "strint_read_sign max_abs_negative str =
     (let (negative, str) =
            (if peek str = of_char CHR ''+'' \<or> peek str = of_char CHR ''-''
             then (peek str = of_char CHR ''-'', tl str) else (False, str))
      in if peek str = of_char CHR ''+'' \<or> peek str = of_char CHR ''-'' then Inl StrintParseSignError
         else if max_abs_negative = 0 \<and> negative then Inl StrintParseSignError
         else Inr (negative, str))"

text \<open>\<^verbatim>\<open>strncasecmp(str, prefix, 2) == 0\<close> for a prefix of a zero and a letter.\<close>

definition strint_has_prefix :: "string \<Rightarrow> char \<Rightarrow> char \<Rightarrow> bool" where
  "strint_has_prefix str lower upper =
     (case str of z # x # _ \<Rightarrow> z = CHR ''0'' \<and> (x = lower \<or> x = upper) | _ \<Rightarrow> False)"

definition strint_infer_base :: "string \<Rightarrow> nat \<times> string" where
  "strint_infer_base str =
     (if strint_has_prefix str CHR ''x'' CHR ''X'' then (16, drop 2 str)
      else if strint_has_prefix str CHR ''b'' CHR ''B'' then (2, drop 2 str)
      else if peek str = of_char CHR ''0'' then (8, tl str)
      else (10, str))"

definition strint_digit_value :: "char \<Rightarrow> nat option" where
  "strint_digit_value c =
     (let n = of_char c :: nat
      in if of_char CHR ''0'' \<le> n \<and> n \<le> of_char CHR ''9'' then Some (n - of_char CHR ''0'')
         else if of_char CHR ''A'' \<le> n \<and> n \<le> of_char CHR ''Z'' then Some (n - of_char CHR ''A'' + 10)
         else if of_char CHR ''a'' \<le> n \<and> n \<le> of_char CHR ''z'' then Some (n - of_char CHR ''a'' + 10)
         else None)"

text \<open>The digit loop: \<open>result\<close>, \<open>read_total\<close> and the rest of the string, or the overflow error.\<close>

fun strint_read_digits ::
  "nat \<Rightarrow> nat \<Rightarrow> nat \<Rightarrow> string \<Rightarrow> nat \<Rightarrow> nat \<Rightarrow> StrintParseError + nat \<times> nat \<times> string" where
  "strint_read_digits base limit mul_limit [] result read_total = Inr (result, read_total, [])"
| "strint_read_digits base limit mul_limit (c # str) result read_total =
     (if c = CHR 0x00 then Inr (result, read_total, c # str)
      else case strint_digit_value c of
        None \<Rightarrow> Inr (result, read_total, c # str)
      | Some digit_value \<Rightarrow>
          if digit_value \<ge> base then Inr (result, read_total, c # str)
          else if result > mul_limit then Inl StrintParseOverflowError
          else let result = (result * base) mod 2 ^ 64
               in if result > (limit + 2 ^ 64 - digit_value) mod 2 ^ 64 then Inl StrintParseOverflowError
                  else strint_read_digits base limit mul_limit str
                         ((result + digit_value) mod 2 ^ 64) (read_total + 1))"

definition strint_to_uint64_internal ::
  "string \<Rightarrow> nat \<Rightarrow> nat \<Rightarrow> nat \<Rightarrow> StrintParseError + nat \<times> bool \<times> string" where
  "strint_to_uint64_internal str base max_abs_negative max_positive =
     (case strint_read_sign max_abs_negative (strint_skip_whitespace str) of
        Inl err \<Rightarrow> Inl err
      | Inr (negative, str) \<Rightarrow>
          let (inferred_base, str) = strint_infer_base str;
              base = (if base = 0 then inferred_base else base);
              limit = (if negative then max_abs_negative else max_positive);
              mul_limit = limit div base
          in case strint_read_digits base limit mul_limit str 0 0 of
               Inl err \<Rightarrow> Inl err
             | Inr (result, read_total, str) \<Rightarrow>
                 if read_total = 0
                 then if inferred_base = 8 then Inr (0, negative, str) else Inl StrintParseAbsentError
                 else Inr (result, negative, str))"

text \<open>\<^verbatim>\<open>STRINT_MONO\<close>: \<open>conv\<close> is the conversion to \<^verbatim>\<open>ret_type\<close>.\<close>

definition STRINT_MONO ::
  "(int \<Rightarrow> int) \<Rightarrow> nat \<Rightarrow> nat \<Rightarrow> string \<Rightarrow> nat \<Rightarrow> StrintParseError + int \<times> string" where
  "STRINT_MONO conv neg_abs_limit pos_limit str base =
     (case strint_to_uint64_internal str base neg_abs_limit pos_limit of
        Inl err \<Rightarrow> Inl err
      | Inr (absolute, negative, end_ptr) \<Rightarrow>
          Inr (if negative then conv (- conv (int absolute)) else conv (int absolute), end_ptr))"

definition strint_to_uint64 :: "string \<Rightarrow> nat \<Rightarrow> StrintParseError + int \<times> string" where
  "strint_to_uint64 = STRINT_MONO (take_bit 64) 0 (2 ^ 64 - 1)"
definition strint_to_int64 :: "string \<Rightarrow> nat \<Rightarrow> StrintParseError + int \<times> string" where
  "strint_to_int64 = STRINT_MONO (signed_take_bit 63) (2 ^ 63) (2 ^ 63 - 1)"
definition strint_to_uint32 :: "string \<Rightarrow> nat \<Rightarrow> StrintParseError + int \<times> string" where
  "strint_to_uint32 = STRINT_MONO (take_bit 32) 0 (2 ^ 32 - 1)"
definition strint_to_int32 :: "string \<Rightarrow> nat \<Rightarrow> StrintParseError + int \<times> string" where
  "strint_to_int32 = STRINT_MONO (signed_take_bit 31) (2 ^ 31) (2 ^ 31 - 1)"
definition strint_to_uint16 :: "string \<Rightarrow> nat \<Rightarrow> StrintParseError + int \<times> string" where
  "strint_to_uint16 = STRINT_MONO (take_bit 16) 0 (2 ^ 16 - 1)"
definition strint_to_int16 :: "string \<Rightarrow> nat \<Rightarrow> StrintParseError + int \<times> string" where
  "strint_to_int16 = STRINT_MONO (signed_take_bit 15) (2 ^ 15) (2 ^ 15 - 1)"

section \<open>Specification\<close>

text \<open>
  What the text denotes, in unbounded integers: an optional sign, an optional prefix, the longest
  run of digits of the base. The result is the denoted integer if it lies in the range of the
  type.
\<close>

fun digit_run :: "nat \<Rightarrow> string \<Rightarrow> nat list \<times> string" where
  "digit_run base [] = ([], [])"
| "digit_run base (c # str) =
     (case strint_digit_value c of
        Some d \<Rightarrow> if d < base then (d # fst (digit_run base str), snd (digit_run base str)) else ([], c # str)
      | None \<Rightarrow> ([], c # str))"

definition digits_value :: "nat \<Rightarrow> nat \<Rightarrow> nat list \<Rightarrow> nat" where
  "digits_value base = foldl (\<lambda>a d. a * base + d)"

definition strint_spec :: "int \<Rightarrow> int \<Rightarrow> string \<Rightarrow> nat \<Rightarrow> StrintParseError + int \<times> string" where
  "strint_spec lo hi str base =
     (case strint_read_sign (nat (- lo)) (strint_skip_whitespace str) of
        Inl err \<Rightarrow> Inl err
      | Inr (negative, str) \<Rightarrow>
          let (inferred, str) = strint_infer_base str;
              (ds, rest) = digit_run (if base = 0 then inferred else base) str;
              n = int (digits_value (if base = 0 then inferred else base) 0 ds);
              value = (if negative then - n else n)
          in if ds = [] \<and> inferred \<noteq> 8 then Inl StrintParseAbsentError
             else if lo \<le> value \<and> value \<le> hi then Inr (value, rest)
             else Inl StrintParseOverflowError)"

section \<open>The digit loop never wraps around\<close>

lemma digits_value_ge: "0 < base \<Longrightarrow> r \<le> digits_value base r ds"
proof (induction ds arbitrary: r)
  case Nil
  then show ?case by (simp add: digits_value_def)
next
  case (Cons d ds)
  have "r \<le> r * base + d" using Cons.prems by (cases base) auto
  also have "\<dots> \<le> digits_value base (r * base + d) ds" using Cons by blast
  finally show ?case by (simp add: digits_value_def)
qed

lemma char_codes:
  "of_char CHR ''0'' = (48 :: nat)" "of_char CHR ''9'' = (57 :: nat)"
  "of_char CHR ''A'' = (65 :: nat)" "of_char CHR ''Z'' = (90 :: nat)"
  "of_char CHR ''a'' = (97 :: nat)" "of_char CHR ''z'' = (122 :: nat)"
  by simp_all

lemma digit_value_le:
  assumes "strint_digit_value c = Some d"
  shows "d \<le> 35"
proof -
  define n where "n = (of_char c :: nat)"
  have "(if 48 \<le> n \<and> n \<le> 57 then Some (n - 48) else if 65 \<le> n \<and> n \<le> 90 then Some (n - 65 + 10)
         else if 97 \<le> n \<and> n \<le> 122 then Some (n - 97 + 10) else None) = Some d"
    using assms unfolding strint_digit_value_def Let_def n_def char_codes .
  then show ?thesis by (simp split: if_splits)
qed

lemma digit_value_NUL [simp]: "strint_digit_value CHR 0x00 = None"
  unfolding strint_digit_value_def Let_def char_codes by simp

lemma read_digits_eq:
  assumes "0 < base" and "35 \<le> limit" and "limit < 2 ^ 64" and "r \<le> limit"
  shows "strint_read_digits base limit (limit div base) str r n =
    (let (ds, rest) = digit_run base str; v = digits_value base r ds
     in if v \<le> limit then Inr (v, n + length ds, rest) else Inl StrintParseOverflowError)"
  using assms(4)
proof (induction str arbitrary: r n)
  case Nil
  then show ?case by (simp add: digits_value_def)
next
  case (Cons c str)
  show ?case
  proof (cases "\<exists>d. strint_digit_value c = Some d \<and> d < base")
    case False
    then show ?thesis
      using Cons.prems by (auto simp: digits_value_def split: option.splits)
  next
    case True
    then obtain d where d: "strint_digit_value c = Some d" "d < base" by blast
    have d35: "d \<le> 35" using digit_value_le d(1) by blast
    have nz: "c \<noteq> CHR 0x00" using d(1) by auto
    let ?run = "digit_run base str"
    have run: "digit_run base (c # str) = (d # fst ?run, snd ?run)" using d by simp
    have v: "digits_value base r (d # fst ?run) = digits_value base (r * base + d) (fst ?run)"
      by (simp add: digits_value_def)
    have ge: "r * base + d \<le> digits_value base (r * base + d) (fst ?run)"
      using digits_value_ge assms(1) by blast
    have lim: "(limit + 2 ^ 64 - d) mod 2 ^ 64 = limit - d"
    proof -
      have "limit + 2 ^ 64 - d = (limit - d) + 2 ^ 64" using d35 assms(2) by linarith
      moreover have "limit - d < 2 ^ 64" using assms(3) by linarith
      ultimately show ?thesis by (simp only: mod_add_self2 mod_less)
    qed
    have unfold: "strint_read_digits base limit (limit div base) (c # str) r n =
      (if r > limit div base then Inl StrintParseOverflowError
       else if (r * base) mod 2 ^ 64 > limit - d then Inl StrintParseOverflowError
       else strint_read_digits base limit (limit div base) str (((r * base) mod 2 ^ 64 + d) mod 2 ^ 64) (n + 1))"
      using d nz lim by (simp add: Let_def)
    show ?thesis
    proof (cases "r * base + d \<le> limit")
      case True
      then have r: "r \<le> limit div base" using assms(1) by (simp add: less_eq_div_iff_mult_less_eq)
      have "\<not> limit - d < r * base" using True by linarith
      have m: "(r * base) mod 2 ^ 64 = r * base" "(r * base + d) mod 2 ^ 64 = r * base + d"
        using True assms(3) by simp_all
      show ?thesis
        unfolding unfold run m using Cons.IH [OF True] r True \<open>\<not> limit - d < r * base\<close>
        by (simp add: v Let_def split_beta)
    next
      case False
      then have over: "\<not> digits_value base r (d # fst ?run) \<le> limit" using ge v by simp
      have "r > limit div base \<or> (r * base) mod 2 ^ 64 > limit - d"
      proof (cases "r \<le> limit div base")
        case True
        then have "r * base \<le> limit" using assms(1) by (simp add: less_eq_div_iff_mult_less_eq)
        then have "(r * base) mod 2 ^ 64 = r * base" using assms(3) by simp
        moreover have "limit - d < r * base" using False d35 assms(2) by linarith
        ultimately show ?thesis by simp
      qed simp
      then show ?thesis unfolding unfold run using over by (auto simp: Let_def)
    qed
  qed
qed

lemma infer_base_cases: "strint_infer_base str = (b, rest) \<Longrightarrow> b = 16 \<or> b = 2 \<or> b = 8 \<or> b = 10"
  by (auto simp: strint_infer_base_def split: if_splits)

lemma read_sign_negative: "strint_read_sign m str = Inr (True, rest) \<Longrightarrow> 0 < m"
  by (auto simp: strint_read_sign_def Let_def split: if_splits)

lemma internal_eq:
  assumes "35 \<le> pos" and "pos < 2 ^ 64" and "neg = 0 \<or> 35 \<le> neg" and "neg < 2 ^ 64"
  shows "(case strint_to_uint64_internal str base neg pos of
       Inl err \<Rightarrow> Inl err
     | Inr (a, negative, rest) \<Rightarrow> Inr (if negative then - int a else int a, rest)) =
     strint_spec (- int neg) (int pos) str base"
proof (cases "strint_read_sign neg (strint_skip_whitespace str)")
  case (Inl err)
  then show ?thesis by (simp add: strint_to_uint64_internal_def strint_spec_def)
next
  case (Inr p)
  obtain negative str' where p: "p = (negative, str')" by (cases p)
  obtain inferred body where ib: "strint_infer_base str' = (inferred, body)" by fastforce
  let ?base = "if base = 0 then inferred else base"
  let ?limit = "if negative then neg else pos"
  obtain ds rest where run: "digit_run ?base body = (ds, rest)" by fastforce
  have b: "0 < ?base" using infer_base_cases [OF ib] by auto
  have l: "35 \<le> ?limit" "?limit < 2 ^ 64"
    using assms read_sign_negative [of neg] Inr p by (cases negative; fastforce)+
  have "strint_read_digits ?base ?limit (?limit div ?base) body 0 0 =
     (if digits_value ?base 0 ds \<le> ?limit then Inr (digits_value ?base 0 ds, length ds, rest)
      else Inl StrintParseOverflowError)"
    using read_digits_eq [OF b l, of 0 body 0] by (simp add: run)
  moreover have "digits_value ?base 0 [] = 0" by (simp add: digits_value_def)
  ultimately show ?thesis
    using Inr p ib run
    by (cases negative) (auto simp: strint_to_uint64_internal_def strint_spec_def Let_def)
qed

section \<open>Properties\<close>

lemma mono_eq:
  assumes "35 \<le> pos" and "pos < 2 ^ 64" and "neg = 0 \<or> 35 \<le> neg" and "neg < 2 ^ 64"
    and conv: "\<And>a. a \<le> pos \<Longrightarrow> conv (int a) = int a" "\<And>a. a \<le> neg \<Longrightarrow> conv (- conv (int a)) = - int a"
  shows "STRINT_MONO conv neg pos str base = strint_spec (- int neg) (int pos) str base"
proof -
  have eq: "(case strint_to_uint64_internal str base neg pos of
       Inl err \<Rightarrow> Inl err
     | Inr (a, negative, rest) \<Rightarrow> Inr (if negative then - int a else int a, rest)) =
     strint_spec (- int neg) (int pos) str base"
    using assms(1-4) by (rule internal_eq)
  have range: "- int neg \<le> v \<and> v \<le> int pos" if "strint_spec (- int neg) (int pos) str base = Inr (v, rest)" for v rest
    using that by (auto simp: strint_spec_def Let_def split: sum.splits prod.splits if_splits)
  show ?thesis
  proof (cases "strint_to_uint64_internal str base neg pos")
    case (Inl err)
    then show ?thesis using eq by (simp add: STRINT_MONO_def)
  next
    case (Inr p)
    obtain a negative rest where p: "p = (a, negative, rest)" by (cases p) auto
    have s: "strint_spec (- int neg) (int pos) str base = Inr (if negative then - int a else int a, rest)"
      using eq Inr p by simp
    then have "(if negative then - int a else int a) \<ge> - int neg" "(if negative then - int a else int a) \<le> int pos"
      using range by blast+
    then show ?thesis
      using s Inr p conv by (cases negative) (simp_all add: STRINT_MONO_def)
  qed
qed

lemma signed_id:
  assumes "int a < 2 ^ n"
  shows "signed_take_bit n (int a) = int a" and "signed_take_bit n (- int a) = - int a"
proof -
  have "0 < (2 :: int) ^ n" by simp
  then show "signed_take_bit n (int a) = int a" "signed_take_bit n (- int a) = - int a"
    using assms by (intro signed_take_bit_int_eq_self; linarith)+
qed

lemma signed_conv:
  assumes "a \<le> 2 ^ n"
  shows "signed_take_bit n (- signed_take_bit n (int a)) = - int a"
proof (cases "a = 2 ^ n")
  case True
  have "signed_take_bit n (2 ^ n :: int) = - (2 ^ n)"
    by (rule bit_eqI) (auto simp: bit_signed_take_bit_iff bit_minus_exp_iff bit_exp_iff min_def)
  then show ?thesis using True by simp
next
  case False
  then have "int a < 2 ^ n" using assms by (metis le_neq_implies_less of_nat_less_iff of_nat_numeral of_nat_power)
  then show ?thesis by (simp add: signed_id)
qed

lemma pow_bounds: "6 \<le> n \<Longrightarrow> n \<le> 64 \<Longrightarrow> 64 \<le> (2 :: nat) ^ n \<and> (2 :: nat) ^ n \<le> 2 ^ 64"
  using power_increasing [of 6 n "2 :: nat"] power_increasing [of n 64 "2 :: nat"] by simp

lemma int_less_pow: "a \<le> 2 ^ n - 1 \<Longrightarrow> int a < 2 ^ n"
  by (metis Suc_diff_1 less_Suc_eq_le of_nat_less_iff of_nat_numeral of_nat_power zero_less_numeral zero_less_power)

lemma mono_unsigned:
  assumes "6 \<le> n" and "n \<le> 64"
  shows "STRINT_MONO (take_bit n) 0 (2 ^ n - 1) str base = strint_spec (- int 0) (int (2 ^ n - 1)) str base"
proof (rule mono_eq)
  show "35 \<le> (2 :: nat) ^ n - 1" "(2 :: nat) ^ n - 1 < 2 ^ 64" using pow_bounds [OF assms] by linarith+
qed (auto intro!: take_bit_int_eq_self int_less_pow)

lemma mono_signed:
  assumes "6 \<le> n" and "n \<le> 63"
  shows "STRINT_MONO (signed_take_bit n) (2 ^ n) (2 ^ n - 1) str base =
    strint_spec (- int (2 ^ n)) (int (2 ^ n - 1)) str base"
proof (rule mono_eq)
  have b: "64 \<le> (2 :: nat) ^ n" using pow_bounds [of n] assms by simp
  have "(2 :: nat) ^ n \<le> 2 ^ 63" using assms(2) by (intro power_increasing) auto
  then show "(2 :: nat) ^ n - 1 < 2 ^ 64" "(2 :: nat) ^ n < 2 ^ 64" by simp_all
  show "35 \<le> (2 :: nat) ^ n - 1" "(2 :: nat) ^ n = 0 \<or> 35 \<le> (2 :: nat) ^ n" using b by linarith+
  fix a :: nat
  show "signed_take_bit n (int a) = int a" if "a \<le> 2 ^ n - 1"
    using int_less_pow [OF that] by (rule signed_id)
  show "signed_take_bit n (- signed_take_bit n (int a)) = - int a" if "a \<le> 2 ^ n"
    using that by (rule signed_conv)
qed


end
