(* ===== verification/Hex.thy ===== *)
theory Hex
  imports Prelude
begin

text \<open>
  \<^verbatim>\<open>lib/toolbox/hex.c\<close>: bytes and hexadecimal text. A conversion that the code reports as failed
  is \<open>None\<close> for a single character or byte; the functions that also write a buffer return
  the success flag with the buffer, and \<open>None\<close> when they leave it.
\<close>

section \<open>Definitions\<close>

definition hex_char_to_hex_nibble :: "char \<Rightarrow> u8 option" where
  "hex_char_to_hex_nibble c =
     (let n = of_char c :: nat
      in if 0x30 \<le> n \<and> n \<le> 0x39 then Some (of_nat (n - 0x30))
         else if 0x41 \<le> n \<and> n \<le> 0x46 then Some (of_nat (n - 0x41 + 10))
         else if 0x61 \<le> n \<and> n \<le> 0x66 then Some (of_nat (n - 0x61 + 10))
         else None)"

definition hex_char_to_uint8 :: "char \<Rightarrow> char \<Rightarrow> u8 option" where
  "hex_char_to_uint8 hi low = do {
     hi_nibble_value \<leftarrow> hex_char_to_hex_nibble hi;
     low_nibble_value \<leftarrow> hex_char_to_hex_nibble low;
     Some (shl hi_nibble_value 4 OR low_nibble_value)
   }"

fun hex_chars_loop :: "string \<Rightarrow> u8 list \<Rightarrow> nat \<Rightarrow> bool \<Rightarrow> (bool \<times> u8 list) option" where
  "hex_chars_loop (hi # low # str) value pos parse_success =
     (if hi = CHR 0x00 \<or> low = CHR 0x00 then Some (parse_success, value)
      else case hex_char_to_uint8 hi low of
        None \<Rightarrow> Some (False, value)
      | Some v \<Rightarrow> do {
          value \<leftarrow> wr value pos v;
          hex_chars_loop str value (pos + 1) True
        })"
| "hex_chars_loop str value pos parse_success = Some (parse_success, value)"

definition hex_chars_to_uint8 :: "string \<Rightarrow> u8 list \<Rightarrow> (bool \<times> u8 list) option" where
  "hex_chars_to_uint8 value_str value = hex_chars_loop value_str value 0 False"

text \<open>
  \<^verbatim>\<open>hex_chars_to_uint64\<close> fills the eight bytes of a little-endian \<^verbatim>\<open>uint64_t\<close> from the top. Both
  characters of a pair are read before either is tested, so a string that ends at a pair boundary
  is read one character behind its terminator.
\<close>

definition set_byte64 :: "u64 \<Rightarrow> nat \<Rightarrow> u8 \<Rightarrow> u64" where
  "set_byte64 value k b = (value AND NOT (shl 0xFF (8 * k))) OR shl (ucast b) (8 * k)"

fun hex_uint64_loop :: "string \<Rightarrow> nat list \<Rightarrow> u64 \<Rightarrow> bool \<Rightarrow> (bool \<times> u64) option" where
  "hex_uint64_loop value_str [] value parse_success = Some (parse_success, value)"
| "hex_uint64_loop value_str (i # is) value parse_success = do {
     hi \<leftarrow> rd (value_str @ [CHR 0x00]) (i * 2);
     low \<leftarrow> rd (value_str @ [CHR 0x00]) (i * 2 + 1);
     case hex_char_to_uint8 hi low of
       None \<Rightarrow> Some (False, value)
     | Some v \<Rightarrow> hex_uint64_loop value_str is (set_byte64 value (7 - i) v) True
   }"

definition hex_chars_to_uint64 :: "string \<Rightarrow> u64 \<Rightarrow> (bool \<times> u64) option" where
  "hex_chars_to_uint64 value_str value = hex_uint64_loop value_str [0..<8] value False"

definition hex_chars_table :: string where
  "hex_chars_table = ''0123456789ABCDEF''"

fun hex_write_loop :: "u8 list \<Rightarrow> u8 list \<Rightarrow> nat \<Rightarrow> u8 list option" where
  "hex_write_loop src target 0 = Some target"
| "hex_write_loop src target (Suc len) = do {
     b \<leftarrow> rd src (len div 2);
     target \<leftarrow> wr target len
       (of_char (hex_chars_table ! unat (shr b ((1 - len mod 2) * 4) AND 0xF)));
     hex_write_loop src target len
   }"

definition uint8_to_hex_chars :: "u8 list \<Rightarrow> u8 list \<Rightarrow> nat \<Rightarrow> u8 list option" where
  "uint8_to_hex_chars src target len = hex_write_loop src target len"

section \<open>The text of a byte\<close>

definition nibble_char :: "u8 \<Rightarrow> char" where
  "nibble_char n = hex_chars_table ! unat (n AND 0xF)"

definition byte_char :: "u8 \<Rightarrow> char" where
  "byte_char b = char_of (unat b)"

lemma byte_char_of_char [simp]: "byte_char (of_char c) = c"
proof -
  have "unat (of_nat (of_char c) :: u8) = of_char c"
    by (simp add: unat_of_nat)
  then show ?thesis by (simp add: byte_char_def of_nat_of_char)
qed

definition hex_text :: "u8 list \<Rightarrow> string" where
  "hex_text bytes = concat (map (\<lambda>b. [nibble_char (shr b 4), nibble_char b]) bytes)"

lemma and_0xF_cases:
  "(n :: u8) AND 0xF = 0 \<or> n AND 0xF = 1 \<or> n AND 0xF = 2 \<or> n AND 0xF = 3 \<or> n AND 0xF = 4 \<or> n AND 0xF = 5
   \<or> n AND 0xF = 6 \<or> n AND 0xF = 7 \<or> n AND 0xF = 8 \<or> n AND 0xF = 9 \<or> n AND 0xF = 10 \<or> n AND 0xF = 11
   \<or> n AND 0xF = 12 \<or> n AND 0xF = 13 \<or> n AND 0xF = 14 \<or> n AND 0xF = 15"
proof -
  have "n AND 0xF = take_bit 4 n" by (simp add: take_bit_eq_mask mask_eq_exp_minus_1)
  then have "unat (n AND 0xF) = unat n mod 16" by (simp add: take_bit_eq_mod unat_mod)
  then have "unat (n AND 0xF) < 16" by simp
  then show ?thesis by (simp add: word_unat_eq_iff) arith
qed

lemma nibble_char_read: "hex_char_to_hex_nibble (nibble_char n) = Some (n AND 0xF)"
  and nibble_char_not_NUL [simp]: "nibble_char n \<noteq> CHR 0x00"
  using and_0xF_cases [of n]
  by (elim disjE; simp add: nibble_char_def hex_chars_table_def hex_char_to_hex_nibble_def)+

lemma byte_of_nibbles: "shl (shr b 4 AND 0xF) 4 OR (b AND 0xF) = (b :: u8)"
  by (rule word_eqI_upto) (simp add: all_less_8 bit_simps)

lemma hex_char_to_uint8_text: "hex_char_to_uint8 (nibble_char (shr b 4)) (nibble_char b) = Some b"
  using byte_of_nibbles [of b] by (simp add: hex_char_to_uint8_def nibble_char_read)

lemma hex_text_simps [simp]:
  "hex_text [] = []" "hex_text (b # bs) = nibble_char (shr b 4) # nibble_char b # hex_text bs"
  by (simp_all add: hex_text_def)

lemma length_hex_text [simp]: "length (hex_text bs) = 2 * length bs"
  by (induction bs) auto

lemma nth_hex_text:
  "i < 2 * length bs \<Longrightarrow> hex_text bs ! i = nibble_char (shr (bs ! (i div 2)) ((1 - i mod 2) * 4))"
proof (induction bs arbitrary: i)
  case Nil
  then show ?case by simp
next
  case (Cons b bs)
  show ?case
  proof (cases "i < 2")
    case True
    then have "i = 0 \<or> i = 1" by arith
    then show ?thesis by auto
  next
    case False
    then obtain k where "i = k + 2" by (metis add.commute le_Suc_ex not_less)
    then show ?thesis using Cons by simp
  qed
qed

lemma chars_loop_eq:
  "pos + length bs \<le> length buf \<Longrightarrow>
   hex_chars_loop (hex_text bs) buf pos ok =
     Some (ok \<or> bs \<noteq> [], take pos buf @ bs @ drop (pos + length bs) buf)"
proof (induction bs arbitrary: buf pos ok)
  case Nil
  then show ?case by simp
next
  case (Cons b bs)
  then have "hex_chars_loop (hex_text bs) (buf[pos := b]) (pos + 1) True =
     Some (True, take (pos + 1) (buf[pos := b]) @ bs @ drop (pos + 1 + length bs) (buf[pos := b]))"
    by (subst Cons.IH) auto
  with Cons.prems show ?case
    by (simp add: hex_char_to_uint8_text wr_def take_Suc_conv_app_nth)
qed

lemma hex_write_loop_eq:
  assumes "2 * length src \<le> length target" and "len \<le> 2 * length src"
  shows "hex_write_loop src target len = Some (map of_char (take len (hex_text src)) @ drop len target)"
  using assms
proof (induction len arbitrary: target)
  case 0
  then show ?case by simp
next
  case (Suc len)
  let ?c = "nibble_char (shr (src ! (len div 2)) ((1 - len mod 2) * 4))"
  have i: "len div 2 < length src" "len < length target" using Suc.prems by auto
  have c: "hex_text src ! len = ?c" using Suc.prems by (intro nth_hex_text) auto
  have "hex_write_loop src (target[len := of_char ?c]) len =
     Some (map of_char (take len (hex_text src)) @ drop len (target[len := of_char ?c]))"
    using Suc.prems by (intro Suc.IH) auto
  moreover have "drop len (target[len := of_char ?c]) = of_char ?c # drop (Suc len) target"
    using i(2) by (simp add: drop_update_swap flip: Cons_nth_drop_Suc)
  ultimately show ?case
    using i Suc.prems c by (simp add: rd_def wr_def nibble_char_def [symmetric] take_Suc_conv_app_nth)
qed

section \<open>Properties\<close>



end
