(* ===== verification/Manchester.thy ===== *)
theory Manchester
  imports Prelude
begin

text \<open>
  \<^verbatim>\<open>lib/toolbox/manchester_decoder.c\<close> and \<^verbatim>\<open>lib/toolbox/manchester_encoder.c\<close>: the decoder is a
  four-state machine driven by a packed transition table, the encoder a three-step one. The
  encoding loop of a whole word is the one of \<^verbatim>\<open>subghz_protocol_encoder_revers_rb2_get_upload\<close>.
\<close>

section \<open>Decoder\<close>

datatype ManchesterEvent =
    ManchesterEventShortLow
  | ManchesterEventShortHigh
  | ManchesterEventLongLow
  | ManchesterEventLongHigh
  | ManchesterEventReset

datatype ManchesterState =
    ManchesterStateStart1
  | ManchesterStateMid1
  | ManchesterStateMid0
  | ManchesterStateStart0

fun event_code :: "ManchesterEvent \<Rightarrow> nat" where
  "event_code ManchesterEventShortLow = 0"
| "event_code ManchesterEventShortHigh = 2"
| "event_code ManchesterEventLongLow = 4"
| "event_code ManchesterEventLongHigh = 6"
| "event_code ManchesterEventReset = 8"

fun state_code :: "ManchesterState \<Rightarrow> nat" where
  "state_code ManchesterStateStart1 = 0"
| "state_code ManchesterStateMid1 = 1"
| "state_code ManchesterStateMid0 = 2"
| "state_code ManchesterStateStart0 = 3"

definition manchester_state_of_code :: "nat \<Rightarrow> ManchesterState" where
  "manchester_state_of_code n =
     (if n = 0 then ManchesterStateStart1 else if n = 1 then ManchesterStateMid1
      else if n = 2 then ManchesterStateMid0 else ManchesterStateStart0)"

definition transitions :: "u8 list" where
  "transitions = [0b00000001, 0b10010001, 0b10011011, 0b11111011]"

definition manchester_reset_state :: ManchesterState where
  "manchester_reset_state = ManchesterStateMid1"

text \<open>The next state and, when the function returns true, the decoded bit.\<close>

definition manchester_advance :: "ManchesterState \<Rightarrow> ManchesterEvent \<Rightarrow> ManchesterState \<times> bool option" where
  "manchester_advance state event =
     (if event = ManchesterEventReset then (manchester_reset_state, None)
      else let new_state = manchester_state_of_code
                 (unat (shr (transitions ! state_code state) (event_code event) AND 0x3))
           in if new_state = state then (manchester_reset_state, None)
              else if new_state = ManchesterStateMid0 then (new_state, Some False)
              else if new_state = ManchesterStateMid1 then (new_state, Some True)
              else (new_state, None))"

section \<open>Encoder\<close>

record ManchesterEncoderState =
  prev_bit :: bool
  step :: nat

datatype ManchesterEncoderResult =
    ManchesterEncoderResultShortLow
  | ManchesterEncoderResultLongLow
  | ManchesterEncoderResultLongHigh
  | ManchesterEncoderResultShortHigh

definition manchester_encoder_reset :: "ManchesterEncoderState \<Rightarrow> ManchesterEncoderState" where
  "manchester_encoder_reset state = state\<lparr>step := 0\<rparr>"

text \<open>\<^verbatim>\<open>(prev << 1) + curr\<close> as a member of the enumeration.\<close>

definition manchester_pair_result :: "bool \<Rightarrow> bool \<Rightarrow> ManchesterEncoderResult" where
  "manchester_pair_result prev cur =
     (if prev then (if cur then ManchesterEncoderResultShortHigh else ManchesterEncoderResultLongHigh)
      else (if cur then ManchesterEncoderResultLongLow else ManchesterEncoderResultShortLow))"

definition manchester_encoder_advance ::
  "ManchesterEncoderState \<Rightarrow> bool \<Rightarrow> (bool \<times> ManchesterEncoderState \<times> ManchesterEncoderResult) option" where
  "manchester_encoder_advance state curr_bit =
     (if step state = 0 then
        Some (True, state\<lparr>prev_bit := curr_bit, step := 1\<rparr>,
              if curr_bit then ManchesterEncoderResultShortLow else ManchesterEncoderResultShortHigh)
      else if step state = 1 then
        (let result = manchester_pair_result (prev_bit state) curr_bit
         in if curr_bit = prev_bit state then Some (False, state\<lparr>step := 2\<rparr>, result)
            else Some (True, state\<lparr>prev_bit := curr_bit\<rparr>, result))
      else if step state = 2 then
        Some (True, state\<lparr>prev_bit := curr_bit, step := 1\<rparr>,
              if curr_bit then ManchesterEncoderResultShortLow else ManchesterEncoderResultShortHigh)
      else None)"

definition manchester_encoder_finish ::
  "ManchesterEncoderState \<Rightarrow> ManchesterEncoderState \<times> ManchesterEncoderResult" where
  "manchester_encoder_finish state =
     (state\<lparr>step := 0\<rparr>, manchester_pair_result (prev_bit state) (prev_bit state))"

text \<open>The body of the encoding loop: one or two results for a bit.\<close>

definition manchester_encode_bit ::
  "ManchesterEncoderState \<Rightarrow> bool \<Rightarrow> (ManchesterEncoderState \<times> ManchesterEncoderResult list) option" where
  "manchester_encode_bit state b = do {
     (advance, state, result) \<leftarrow> manchester_encoder_advance state b;
     if \<not> advance then do {
       (_, state, result') \<leftarrow> manchester_encoder_advance state b;
       Some (state, [result, result'])
     } else Some (state, [result])
   }"

fun manchester_encode_bits ::
  "ManchesterEncoderState \<Rightarrow> bool list \<Rightarrow> (ManchesterEncoderState \<times> ManchesterEncoderResult list) option" where
  "manchester_encode_bits state [] = Some (state, [])"
| "manchester_encode_bits state (b # bs) = do {
     (state, rs) \<leftarrow> manchester_encode_bit state b;
     (state, rs') \<leftarrow> manchester_encode_bits state bs;
     Some (state, rs @ rs')
   }"

definition manchester_encode :: "ManchesterEncoderState \<Rightarrow> bool list \<Rightarrow> ManchesterEncoderResult list option" where
  "manchester_encode state bs = do {
     (state, rs) \<leftarrow> manchester_encode_bits (manchester_encoder_reset state) bs;
     Some (rs @ [snd (manchester_encoder_finish state)])
   }"

section \<open>Transmission\<close>

text \<open>
  The line between encoder and decoder, with the level kept (\<open>iv = False\<close>) or inverted, and the
  decoder run over a sequence of events, collecting the bits it reports.
\<close>

fun line_event :: "bool \<Rightarrow> ManchesterEncoderResult \<Rightarrow> ManchesterEvent" where
  "line_event iv ManchesterEncoderResultShortLow = (if iv then ManchesterEventShortHigh else ManchesterEventShortLow)"
| "line_event iv ManchesterEncoderResultLongLow = (if iv then ManchesterEventLongHigh else ManchesterEventLongLow)"
| "line_event iv ManchesterEncoderResultLongHigh = (if iv then ManchesterEventLongLow else ManchesterEventLongHigh)"
| "line_event iv ManchesterEncoderResultShortHigh = (if iv then ManchesterEventShortLow else ManchesterEventShortHigh)"

fun decode_events :: "ManchesterState \<Rightarrow> ManchesterEvent list \<Rightarrow> ManchesterState \<times> bool list" where
  "decode_events state [] = (state, [])"
| "decode_events state (e # es) =
     (let (state', d) = manchester_advance state e; (state'', ds) = decode_events state' es
      in (state'', case d of Some b \<Rightarrow> b # ds | None \<Rightarrow> ds))"

definition mid_state :: "bool \<Rightarrow> ManchesterState" where
  "mid_state b = (if b then ManchesterStateMid1 else ManchesterStateMid0)"

definition start_state :: "bool \<Rightarrow> ManchesterState" where
  "start_state b = (if b then ManchesterStateStart1 else ManchesterStateStart0)"

lemma advance_table:
  "manchester_advance ManchesterStateStart1 ManchesterEventShortLow = (ManchesterStateMid1, Some True)"
  "manchester_advance ManchesterStateStart0 ManchesterEventShortHigh = (ManchesterStateMid0, Some False)"
  "manchester_advance ManchesterStateMid1 ManchesterEventShortHigh = (ManchesterStateStart1, None)"
  "manchester_advance ManchesterStateMid1 ManchesterEventLongHigh = (ManchesterStateMid0, Some False)"
  "manchester_advance ManchesterStateMid1 ManchesterEventShortLow = (ManchesterStateMid1, None)"
  "manchester_advance ManchesterStateMid0 ManchesterEventShortLow = (ManchesterStateStart0, None)"
  "manchester_advance ManchesterStateMid0 ManchesterEventLongLow = (ManchesterStateMid1, Some True)"
  by code_simp+

lemma encode_bit_eq:
  "step state = 1 \<Longrightarrow> manchester_encode_bit state b =
     Some (state\<lparr>prev_bit := b\<rparr>,
       if b = prev_bit state
       then [manchester_pair_result b b,
             if b then ManchesterEncoderResultShortLow else ManchesterEncoderResultShortHigh]
       else [manchester_pair_result (\<not> b) b])"
  by (cases state) (auto simp: manchester_encode_bit_def manchester_encoder_advance_def Let_def)

lemma decode_append:
  "decode_events s (es @ es') =
     (let (s', ds) = decode_events s es; (s'', ds') = decode_events s' es' in (s'', ds @ ds'))"
  by (induction es arbitrary: s) (auto simp: Let_def split_beta split: option.splits)

text \<open>From the middle of a bit, the remaining bits are reported one by one.\<close>

lemma encode_decode_mid:
  "step state = 1 \<Longrightarrow>
   \<exists>state' rs. manchester_encode_bits state bs = Some (state', rs) \<and> step state' = 1
     \<and> decode_events (mid_state (prev_bit state \<noteq> iv)) (map (line_event iv) rs)
         = (mid_state (prev_bit state' \<noteq> iv), map (\<lambda>b. b \<noteq> iv) bs)"
proof (induction bs arbitrary: state)
  case Nil
  then show ?case by simp
next
  case (Cons b bs)
  then obtain state' rs where
    "manchester_encode_bits (state\<lparr>prev_bit := b\<rparr>) bs = Some (state', rs)" "step state' = 1"
    "decode_events (mid_state (b \<noteq> iv)) (map (line_event iv) rs)
       = (mid_state (prev_bit state' \<noteq> iv), map (\<lambda>b. b \<noteq> iv) bs)"
    using Cons.IH [of "state\<lparr>prev_bit := b\<rparr>"] by auto
  with Cons.prems show ?case
    by (cases b; cases "prev_bit state"; cases iv)
      (simp_all add: encode_bit_eq manchester_pair_result_def mid_state_def advance_table)
qed

lemma encode_first:
  "manchester_encode_bit (manchester_encoder_reset state) b =
     Some (state\<lparr>prev_bit := b, step := 1\<rparr>,
       [if b then ManchesterEncoderResultShortLow else ManchesterEncoderResultShortHigh])"
  by (cases state) (simp add: manchester_encode_bit_def manchester_encoder_advance_def manchester_encoder_reset_def)

definition first_half :: "bool \<Rightarrow> ManchesterEncoderResult" where
  "first_half b = (if b then ManchesterEncoderResultShortLow else ManchesterEncoderResultShortHigh)"

lemma advance_finish:
  "manchester_advance (mid_state (p \<noteq> iv)) (line_event iv (manchester_pair_result p p)) = (start_state (p \<noteq> iv), None)"
  by (cases p; cases iv) (simp_all add: manchester_pair_result_def mid_state_def start_state_def advance_table)

lemma encode_decode:
  assumes "manchester_advance s (line_event iv (first_half b)) = (mid_state (b \<noteq> iv), first)"
  shows "\<exists>rs. manchester_encode state (b # bs) = Some rs
    \<and> snd (decode_events s (map (line_event iv) rs)) =
        (case first of Some x \<Rightarrow> [x] | None \<Rightarrow> []) @ map (\<lambda>b. b \<noteq> iv) bs"
proof -
  obtain state' rs where rs:
    "manchester_encode_bits (state\<lparr>prev_bit := b, step := 1\<rparr>) bs = Some (state', rs)"
    "decode_events (mid_state (b \<noteq> iv)) (map (line_event iv) rs)
       = (mid_state (prev_bit state' \<noteq> iv), map (\<lambda>b. b \<noteq> iv) bs)"
    using encode_decode_mid [of "state\<lparr>prev_bit := b, step := 1\<rparr>" bs iv] by auto
  let ?fin = "manchester_pair_result (prev_bit state') (prev_bit state')"
  have "manchester_encode state (b # bs) = Some (first_half b # rs @ [?fin])"
    using rs(1) by (simp add: manchester_encode_def encode_first manchester_encoder_finish_def first_half_def)
  moreover have "decode_events (mid_state (b \<noteq> iv)) (map (line_event iv) (rs @ [?fin])) =
      (start_state (prev_bit state' \<noteq> iv), map (\<lambda>b. b \<noteq> iv) bs)"
    unfolding map_append decode_append rs(2) by (simp only: list.map prod.case Let_def decode_events.simps
        advance_finish option.case append_Nil2)
  ultimately show ?thesis
    using assms by (auto simp: Let_def split: option.splits)
qed

section \<open>Properties\<close>

text \<open>
  C23. Round trip: the encoder never reaches its crash branch, and a decoder at the start of a bit
  reports exactly the encoded bits, complemented when the line inverts the level. A decoder
  fresh from reset uses up a leading one for synchronisation and reports all bits after it.
\<close>

theorem manchester_roundtrip:
  "(\<exists>rs. manchester_encode state (b # bs) = Some rs
     \<and> snd (decode_events (start_state (b \<noteq> iv)) (map (line_event iv) rs)) = map (\<lambda>b. b \<noteq> iv) (b # bs)) \<and>
   (\<exists>rs. manchester_encode state (True # bs) = Some rs
     \<and> snd (decode_events manchester_reset_state (map (line_event False) rs)) = bs)"
proof
  show "\<exists>rs. manchester_encode state (b # bs) = Some rs
     \<and> snd (decode_events (start_state (b \<noteq> iv)) (map (line_event iv) rs)) = map (\<lambda>b. b \<noteq> iv) (b # bs)"
    using encode_decode [of "start_state (b \<noteq> iv)" iv b "Some (b \<noteq> iv)" state bs]
    by (cases b; cases iv) (simp_all add: start_state_def mid_state_def first_half_def advance_table)
  show "\<exists>rs. manchester_encode state (True # bs) = Some rs
     \<and> snd (decode_events manchester_reset_state (map (line_event False) rs)) = bs"
    using encode_decode [of manchester_reset_state False True None state bs]
    by (simp add: manchester_reset_state_def mid_state_def first_half_def advance_table)
qed

end
