(* ===== verification/BitBuffer.thy ===== *)
theory BitBuffer
  imports Prelude
begin

text \<open>
  \<^verbatim>\<open>lib/toolbox/bit_buffer.c\<close>: a byte buffer with a size in bits and one parity bit per byte. Every
  operation is a function from the buffer record; \<open>None\<close> is a failed \<^verbatim>\<open>furi_check\<close> or an access
  outside \<open>data\<close>, \<open>parity\<close> or the caller's array. \<^verbatim>\<open>malloc\<close> clears the memory it returns
  (\<^verbatim>\<open>furi/core/memmgr_heap.c\<close>). \<^verbatim>\<open>size_t\<close> has 32 bits; subtractions that may go below zero wrap around.
\<close>

section \<open>Definitions\<close>

definition BITS_IN_BYTE :: nat where "BITS_IN_BYTE = 8"

record BitBuffer =
  data :: "u8 list"
  parity :: "u8 list"
  capacity_bytes :: nat
  size_bits :: nat

definition bit_buffer_alloc :: "nat \<Rightarrow> BitBuffer option" where
  "bit_buffer_alloc capacity = do {
     furi_check (capacity \<noteq> 0);
     let parity_buf_size = (capacity + BITS_IN_BYTE - 1) div BITS_IN_BYTE;
     Some \<lparr>data = replicate capacity 0, parity = replicate parity_buf_size 0,
           capacity_bytes = capacity, size_bits = 0\<rparr>
   }"

definition bit_buffer_get_size_bytes :: "BitBuffer \<Rightarrow> nat" where
  "bit_buffer_get_size_bytes buf =
     size_bits buf div BITS_IN_BYTE + (if size_bits buf mod BITS_IN_BYTE \<noteq> 0 then 1 else 0)"

definition bit_buffer_reset :: "BitBuffer \<Rightarrow> BitBuffer option" where
  "bit_buffer_reset buf = do {
     d \<leftarrow> memset (data buf) 0 (capacity_bytes buf);
     let parity_buf_size = (capacity_bytes buf + BITS_IN_BYTE - 1) div BITS_IN_BYTE;
     p \<leftarrow> memset (parity buf) 0 parity_buf_size;
     Some (buf\<lparr>data := d, parity := p, size_bits := 0\<rparr>)
   }"

text \<open>Two distinct buffers; a buffer copied onto itself stays as it is.\<close>

definition bit_buffer_copy :: "BitBuffer \<Rightarrow> BitBuffer \<Rightarrow> BitBuffer option" where
  "bit_buffer_copy buf other = do {
     furi_check (capacity_bytes buf * BITS_IN_BYTE \<ge> size_bits other);
     d \<leftarrow> memcpy (data buf) 0 (data other) 0 (bit_buffer_get_size_bytes other);
     Some (buf\<lparr>data := d, size_bits := size_bits other\<rparr>)
   }"

definition bit_buffer_copy_right :: "BitBuffer \<Rightarrow> BitBuffer \<Rightarrow> nat \<Rightarrow> BitBuffer option" where
  "bit_buffer_copy_right buf other start_index = do {
     furi_check (bit_buffer_get_size_bytes other > start_index);
     furi_check (capacity_bytes buf \<ge> bit_buffer_get_size_bytes other - start_index);
     d \<leftarrow> memcpy (data buf) 0 (data other) start_index (bit_buffer_get_size_bytes other - start_index);
     Some (buf\<lparr>data := d, size_bits := size_bits other - start_index * BITS_IN_BYTE\<rparr>)
   }"

definition bit_buffer_copy_left :: "BitBuffer \<Rightarrow> BitBuffer \<Rightarrow> nat \<Rightarrow> BitBuffer option" where
  "bit_buffer_copy_left buf other end_index = do {
     furi_check (capacity_bytes buf \<ge> end_index);
     furi_check (bit_buffer_get_size_bytes other \<ge> end_index);
     d \<leftarrow> memcpy (data buf) 0 (data other) 0 end_index;
     Some (buf\<lparr>data := d, size_bits := end_index * BITS_IN_BYTE\<rparr>)
   }"

definition bit_buffer_copy_bytes :: "BitBuffer \<Rightarrow> u8 list \<Rightarrow> nat \<Rightarrow> BitBuffer option" where
  "bit_buffer_copy_bytes buf src size_bytes = do {
     furi_check (capacity_bytes buf \<ge> size_bytes);
     d \<leftarrow> memcpy (data buf) 0 src 0 size_bytes;
     Some (buf\<lparr>data := d, size_bits := size_bytes * BITS_IN_BYTE\<rparr>)
   }"

definition bit_buffer_copy_bits :: "BitBuffer \<Rightarrow> u8 list \<Rightarrow> nat \<Rightarrow> BitBuffer option" where
  "bit_buffer_copy_bits buf src nbits = do {
     furi_check (capacity_bytes buf * BITS_IN_BYTE \<ge> nbits);
     let size_bytes = (nbits + BITS_IN_BYTE - 1) div BITS_IN_BYTE;
     d \<leftarrow> memcpy (data buf) 0 src 0 size_bytes;
     Some (buf\<lparr>data := d, size_bits := nbits\<rparr>)
   }"

text \<open>One round of the loop of \<^verbatim>\<open>bit_buffer_copy_bytes_with_parity\<close>.\<close>

definition copy_with_parity_step ::
  "u8 list \<Rightarrow> nat \<Rightarrow> nat \<Rightarrow> u8 list \<times> u8 list \<Rightarrow> (u8 list \<times> u8 list) option" where
  "copy_with_parity_step src bits_processed curr_byte = (\<lambda>(d, p). do {
     lo \<leftarrow> rd src (bits_processed div BITS_IN_BYTE);
     hi \<leftarrow> rd src (bits_processed div BITS_IN_BYTE + 1);
     d \<leftarrow> wr d curr_byte (shr lo (bits_processed mod BITS_IN_BYTE)
                         OR shl hi (BITS_IN_BYTE - bits_processed mod BITS_IN_BYTE));
     let bit_value = FURI_BIT hi (bits_processed mod BITS_IN_BYTE);
     old \<leftarrow> rd p (curr_byte div BITS_IN_BYTE);
     p \<leftarrow> wr p (curr_byte div BITS_IN_BYTE)
       (if bits_processed mod BITS_IN_BYTE = 0 then bit_value
        else old OR shl bit_value (bits_processed mod BITS_IN_BYTE));
     Some (d, p)
   })"

function copy_with_parity_loop ::
  "u8 list \<Rightarrow> nat \<Rightarrow> nat \<Rightarrow> nat \<Rightarrow> u8 list \<times> u8 list \<Rightarrow> (nat \<times> u8 list \<times> u8 list) option" where
  "copy_with_parity_loop src nbits bits_processed curr_byte dp =
     (if bits_processed < nbits then do {
        dp \<leftarrow> copy_with_parity_step src bits_processed curr_byte dp;
        copy_with_parity_loop src nbits (bits_processed + (BITS_IN_BYTE + 1)) (curr_byte + 1) dp
      } else Some (curr_byte, dp))"
  by pat_completeness auto
termination
  by (relation "measure (\<lambda>(src, nbits, bits_processed, curr_byte, dp). nbits - bits_processed)")
    (auto simp: BITS_IN_BYTE_def)

declare copy_with_parity_loop.simps [simp del]

definition bit_buffer_copy_bytes_with_parity :: "BitBuffer \<Rightarrow> u8 list \<Rightarrow> nat \<Rightarrow> BitBuffer option" where
  "bit_buffer_copy_bytes_with_parity buf src nbits =
     (if nbits < BITS_IN_BYTE + 1 then do {
        b \<leftarrow> rd src 0;
        d \<leftarrow> wr (data buf) 0 b;
        Some (buf\<lparr>data := d, size_bits := nbits\<rparr>)
      } else do {
        furi_check (nbits mod (BITS_IN_BYTE + 1) = 0);
        (curr_byte, d, p) \<leftarrow> copy_with_parity_loop src nbits 0 0 (data buf, parity buf);
        Some (buf\<lparr>data := d, parity := p, size_bits := curr_byte * BITS_IN_BYTE\<rparr>)
      })"

definition bit_buffer_write_bytes :: "BitBuffer \<Rightarrow> u8 list \<Rightarrow> nat \<Rightarrow> u8 list option" where
  "bit_buffer_write_bytes buf dest size_bytes = do {
     furi_check (bit_buffer_get_size_bytes buf \<le> size_bytes);
     memcpy dest 0 (data buf) 0 (bit_buffer_get_size_bytes buf)
   }"

text \<open>\<open>curr_bit_pos\<close> is a \<^verbatim>\<open>uint16_t\<close>.\<close>

definition write_with_parity_step :: "BitBuffer \<Rightarrow> nat \<Rightarrow> u8 list \<times> nat \<Rightarrow> (u8 list \<times> nat) option" where
  "write_with_parity_step buf i = (\<lambda>(bitstream, curr_bit_pos). do {
     pb \<leftarrow> rd (parity buf) (i div BITS_IN_BYTE);
     let next_par_bit = FURI_BIT pb (i mod BITS_IN_BYTE);
     b \<leftarrow> rd (data buf) i;
     if curr_bit_pos mod BITS_IN_BYTE = 0 then do {
       bitstream \<leftarrow> wr bitstream (curr_bit_pos div BITS_IN_BYTE) b;
       let curr_bit_pos = (curr_bit_pos + BITS_IN_BYTE) mod 2 ^ 16;
       bitstream \<leftarrow> wr bitstream (curr_bit_pos div BITS_IN_BYTE) next_par_bit;
       Some (bitstream, (curr_bit_pos + 1) mod 2 ^ 16)
     } else do {
       let k = curr_bit_pos div BITS_IN_BYTE;
       old \<leftarrow> rd bitstream k;
       bitstream \<leftarrow> wr bitstream k (old OR shl b (curr_bit_pos mod BITS_IN_BYTE));
       bitstream \<leftarrow> wr bitstream (k + 1)
         (shr b (BITS_IN_BYTE - curr_bit_pos mod BITS_IN_BYTE)
          OR shl next_par_bit (curr_bit_pos mod BITS_IN_BYTE));
       Some (bitstream, (curr_bit_pos + BITS_IN_BYTE + 1) mod 2 ^ 16)
     }
   })"

fun write_with_parity_loop :: "BitBuffer \<Rightarrow> nat list \<Rightarrow> u8 list \<times> nat \<Rightarrow> (u8 list \<times> nat) option" where
  "write_with_parity_loop buf [] st = Some st"
| "write_with_parity_loop buf (i # is) st = do {
     st \<leftarrow> write_with_parity_step buf i st;
     write_with_parity_loop buf is st
   }"

definition bit_buffer_write_bytes_with_parity ::
  "BitBuffer \<Rightarrow> u8 list \<Rightarrow> nat \<Rightarrow> (u8 list \<times> nat) option" where
  "bit_buffer_write_bytes_with_parity buf dest size_bytes = do {
     let buf_size_bytes = bit_buffer_get_size_bytes buf;
     let buf_size_with_parity_bytes =
       (buf_size_bytes * (BITS_IN_BYTE + 1) + BITS_IN_BYTE) div BITS_IN_BYTE;
     furi_check (buf_size_with_parity_bytes \<le> size_bytes);
     write_with_parity_loop buf [0..<buf_size_bytes] (dest, 0)
   }"

definition bit_buffer_write_bytes_mid :: "BitBuffer \<Rightarrow> u8 list \<Rightarrow> nat \<Rightarrow> nat \<Rightarrow> u8 list option" where
  "bit_buffer_write_bytes_mid buf dest start_index size_bytes = do {
     furi_check (start_index + size_bytes \<le> bit_buffer_get_size_bytes buf);
     memcpy dest 0 (data buf) start_index size_bytes
   }"

definition bit_buffer_has_partial_byte :: "BitBuffer \<Rightarrow> bool" where
  "bit_buffer_has_partial_byte buf \<longleftrightarrow> size_bits buf mod BITS_IN_BYTE \<noteq> 0"

definition bit_buffer_starts_with_byte :: "BitBuffer \<Rightarrow> u8 \<Rightarrow> bool option" where
  "bit_buffer_starts_with_byte buf byte =
     (if bit_buffer_get_size_bytes buf \<noteq> 0 then do { b \<leftarrow> rd (data buf) 0; Some (b = byte) } else Some False)"

definition bit_buffer_get_capacity_bytes :: "BitBuffer \<Rightarrow> nat" where
  "bit_buffer_get_capacity_bytes buf = capacity_bytes buf"

definition bit_buffer_get_size :: "BitBuffer \<Rightarrow> nat" where
  "bit_buffer_get_size buf = size_bits buf"

definition bit_buffer_get_byte :: "BitBuffer \<Rightarrow> nat \<Rightarrow> u8 option" where
  "bit_buffer_get_byte buf index = do {
     furi_check (capacity_bytes buf > index);
     rd (data buf) index
   }"

definition bit_buffer_get_byte_from_bit :: "BitBuffer \<Rightarrow> nat \<Rightarrow> u8 option" where
  "bit_buffer_get_byte_from_bit buf index_bits = do {
     furi_check (capacity_bytes buf * BITS_IN_BYTE > index_bits);
     let byte_index = index_bits div BITS_IN_BYTE;
     let bit_offset = index_bits mod BITS_IN_BYTE;
     lo \<leftarrow> rd (data buf) byte_index;
     hi \<leftarrow> rd (data buf) (byte_index + 1);
     Some (shr lo bit_offset OR shl hi (BITS_IN_BYTE - bit_offset))
   }"

definition bit_buffer_get_data :: "BitBuffer \<Rightarrow> u8 list" where
  "bit_buffer_get_data buf = data buf"

definition bit_buffer_get_parity :: "BitBuffer \<Rightarrow> u8 list" where
  "bit_buffer_get_parity buf = parity buf"

definition bit_buffer_set_byte :: "BitBuffer \<Rightarrow> nat \<Rightarrow> u8 \<Rightarrow> BitBuffer option" where
  "bit_buffer_set_byte buf index byte = do {
     furi_check (bit_buffer_get_size_bytes buf > index);
     d \<leftarrow> wr (data buf) index byte;
     Some (buf\<lparr>data := d\<rparr>)
   }"

definition bit_buffer_set_byte_with_parity :: "BitBuffer \<Rightarrow> nat \<Rightarrow> u8 \<Rightarrow> bool \<Rightarrow> BitBuffer option" where
  "bit_buffer_set_byte_with_parity buff index byte par = do {
     furi_check (size_bits buff div BITS_IN_BYTE > index);
     d \<leftarrow> wr (data buff) index byte;
     old \<leftarrow> rd (parity buff) (index div BITS_IN_BYTE);
     p \<leftarrow> wr (parity buff) (index div BITS_IN_BYTE)
       (if index mod BITS_IN_BYTE = 0 then of_bool par
        else old OR shl (of_bool par) (index mod BITS_IN_BYTE));
     Some (buff\<lparr>data := d, parity := p\<rparr>)
   }"

definition bit_buffer_set_size :: "BitBuffer \<Rightarrow> nat \<Rightarrow> BitBuffer option" where
  "bit_buffer_set_size buf new_size = do {
     furi_check (capacity_bytes buf * BITS_IN_BYTE \<ge> new_size);
     Some (buf\<lparr>size_bits := new_size\<rparr>)
   }"

definition bit_buffer_set_size_bytes :: "BitBuffer \<Rightarrow> nat \<Rightarrow> BitBuffer option" where
  "bit_buffer_set_size_bytes buf new_size_bytes = do {
     furi_check (capacity_bytes buf \<ge> new_size_bytes);
     Some (buf\<lparr>size_bits := new_size_bytes * BITS_IN_BYTE\<rparr>)
   }"

definition bit_buffer_append_right :: "BitBuffer \<Rightarrow> BitBuffer \<Rightarrow> nat \<Rightarrow> BitBuffer option" where
  "bit_buffer_append_right buf other start_index = do {
     let size_bytes = bit_buffer_get_size_bytes buf;
     let other_size_bytes = nat ((int (bit_buffer_get_size_bytes other) - int start_index) mod 2 ^ 32);
     furi_check (capacity_bytes buf \<ge> (size_bytes + other_size_bytes) mod 2 ^ 32);
     d \<leftarrow> memcpy (data buf) size_bytes (data other) start_index other_size_bytes;
     Some (buf\<lparr>data := d,
       size_bits := nat ((int (size_bits buf) + (int (size_bits other) - int (start_index * BITS_IN_BYTE))) mod 2 ^ 32)\<rparr>)
   }"

definition bit_buffer_append :: "BitBuffer \<Rightarrow> BitBuffer \<Rightarrow> BitBuffer option" where
  "bit_buffer_append buf other = bit_buffer_append_right buf other 0"

definition bit_buffer_append_byte :: "BitBuffer \<Rightarrow> u8 \<Rightarrow> BitBuffer option" where
  "bit_buffer_append_byte buf byte = do {
     let data_size_bytes = bit_buffer_get_size_bytes buf;
     let new_data_size_bytes = data_size_bytes + 1;
     furi_check (new_data_size_bytes \<le> capacity_bytes buf);
     d \<leftarrow> wr (data buf) data_size_bytes byte;
     Some (buf\<lparr>data := d, size_bits := new_data_size_bytes * BITS_IN_BYTE\<rparr>)
   }"

definition bit_buffer_append_bytes :: "BitBuffer \<Rightarrow> u8 list \<Rightarrow> nat \<Rightarrow> BitBuffer option" where
  "bit_buffer_append_bytes buf src size_bytes = do {
     let buf_size_bytes = bit_buffer_get_size_bytes buf;
     furi_check (capacity_bytes buf \<ge> buf_size_bytes + size_bytes);
     d \<leftarrow> memcpy (data buf) buf_size_bytes src 0 size_bytes;
     Some (buf\<lparr>data := d, size_bits := size_bits buf + size_bytes * BITS_IN_BYTE\<rparr>)
   }"

definition bit_buffer_append_bit :: "BitBuffer \<Rightarrow> bool \<Rightarrow> BitBuffer option" where
  "bit_buffer_append_bit buf b = do {
     furi_check (bit_buffer_get_size_bytes buf
       \<le> capacity_bytes buf - (if bit_buffer_has_partial_byte buf then 0 else 1));
     d \<leftarrow> (if b then do {
             let byte_index = size_bits buf div BITS_IN_BYTE;
             let bit_offset = size_bits buf mod BITS_IN_BYTE;
             old \<leftarrow> rd (data buf) byte_index;
             wr (data buf) byte_index (old OR shl 1 bit_offset)
           } else Some (data buf));
     Some (buf\<lparr>data := d, size_bits := size_bits buf + 1\<rparr>)
   }"

section \<open>The invariant\<close>

definition bit_buffer_ok :: "BitBuffer \<Rightarrow> bool" where
  "bit_buffer_ok buf \<longleftrightarrow>
     0 < capacity_bytes buf \<and> length (data buf) = capacity_bytes buf \<and>
     length (parity buf) = (capacity_bytes buf + 7) div 8 \<and> capacity_bytes buf * 8 < 2 ^ 32 \<and>
     size_bits buf \<le> capacity_bytes buf * 8"

text \<open>
  A capacity in bits fits in \<^verbatim>\<open>size_t\<close>: the address space of the device has no larger block.
  Every way the module changes a buffer. The arguments are arbitrary, with one exception:
  \<^verbatim>\<open>bit_buffer_append_right\<close> needs the dropped bytes to be complete bytes of the source.
\<close>

inductive bit_buffer_step :: "BitBuffer \<Rightarrow> BitBuffer \<Rightarrow> bool" where
  "bit_buffer_reset buf = Some buf' \<Longrightarrow> bit_buffer_step buf buf'"
| "bit_buffer_copy buf other = Some buf' \<Longrightarrow> bit_buffer_step buf buf'"
| "bit_buffer_copy_right buf other i = Some buf' \<Longrightarrow> bit_buffer_step buf buf'"
| "bit_buffer_copy_left buf other i = Some buf' \<Longrightarrow> bit_buffer_step buf buf'"
| "bit_buffer_copy_bytes buf src n = Some buf' \<Longrightarrow> bit_buffer_step buf buf'"
| "bit_buffer_copy_bits buf src n = Some buf' \<Longrightarrow> bit_buffer_step buf buf'"
| "bit_buffer_copy_bytes_with_parity buf src n = Some buf' \<Longrightarrow> bit_buffer_step buf buf'"
| "bit_buffer_set_byte buf i b = Some buf' \<Longrightarrow> bit_buffer_step buf buf'"
| "bit_buffer_set_byte_with_parity buf i b p = Some buf' \<Longrightarrow> bit_buffer_step buf buf'"
| "bit_buffer_set_size buf n = Some buf' \<Longrightarrow> bit_buffer_step buf buf'"
| "bit_buffer_set_size_bytes buf n = Some buf' \<Longrightarrow> bit_buffer_step buf buf'"
| "bit_buffer_append_right buf other i = Some buf' \<Longrightarrow> i * 8 \<le> size_bits other \<Longrightarrow> bit_buffer_ok other \<Longrightarrow>
   bit_buffer_step buf buf'"
| "bit_buffer_append buf other = Some buf' \<Longrightarrow> bit_buffer_ok other \<Longrightarrow> bit_buffer_step buf buf'"
| "bit_buffer_append_byte buf b = Some buf' \<Longrightarrow> bit_buffer_step buf buf'"
| "bit_buffer_append_bytes buf src n = Some buf' \<Longrightarrow> bit_buffer_step buf buf'"
| "bit_buffer_append_bit buf v = Some buf' \<Longrightarrow> bit_buffer_step buf buf'"

inductive bit_buffer_reachable :: "BitBuffer \<Rightarrow> bool" where
  alloc: "bit_buffer_alloc n = Some buf \<Longrightarrow> n * 8 < 2 ^ 32 \<Longrightarrow> bit_buffer_reachable buf"
| step: "bit_buffer_reachable buf \<Longrightarrow> bit_buffer_step buf buf' \<Longrightarrow> bit_buffer_reachable buf'"

lemma size_bytes_eq: "bit_buffer_get_size_bytes buf = (size_bits buf + 7) div 8"
proof -
  obtain q r where s: "size_bits buf = 8 * q + r" "r < 8" by (rule split_by_8)
  then show ?thesis
    by (cases "r = 0") (simp_all add: bit_buffer_get_size_bytes_def BITS_IN_BYTE_def)
qed

lemma size_bytes_le: "(k + 7) div 8 \<le> n \<longleftrightarrow> k \<le> n * (8 :: nat)"
proof -
  obtain q r where k: "k = 8 * q + r" "r < 8" by (rule split_by_8)
  have "(k + 7) div 8 = q + (if r = 0 then 0 else 1)"
    using less_8_cases [OF k(2)] k(1) by (elim disjE) simp_all
  then show ?thesis using k by (cases "q < n"; cases "r = 0") auto
qed

lemma copy_with_parity_step_length:
  "copy_with_parity_step src k n (d, p) = Some (d', p') \<Longrightarrow>
   length d' = length d \<and> length p' = length p \<and> n < length d"
  by (auto simp: copy_with_parity_step_def wr_def rd_def Let_def split: if_splits Option.bind_splits)

lemma copy_with_parity_loop_length:
  "copy_with_parity_loop src nbits k n dp = Some (n', d', p') \<Longrightarrow> n \<le> length (fst dp) \<Longrightarrow>
   length d' = length (fst dp) \<and> length p' = length (snd dp) \<and> n' \<le> length d'"
proof (induction src nbits k n dp rule: copy_with_parity_loop.induct)
  case (1 src nbits k n dp)
  show ?case
  proof (cases "k < nbits")
    case True
    then obtain dp' where dp': "copy_with_parity_step src k n dp = Some dp'"
      "copy_with_parity_loop src nbits (k + (BITS_IN_BYTE + 1)) (n + 1) dp' = Some (n', d', p')"
      using "1.prems"(1) by (auto simp: copy_with_parity_loop.simps [of src nbits k] split: Option.bind_splits)
    have len: "length (fst dp') = length (fst dp) \<and> length (snd dp') = length (snd dp) \<and> n < length (fst dp)"
      using dp'(1) copy_with_parity_step_length by (cases dp; cases dp') fastforce
    then show ?thesis using "1.IH" [OF True dp'(1) dp'(2)] by simp
  next
    case False
    then show ?thesis using "1.prems" by (simp add: copy_with_parity_loop.simps [of src nbits k])
  qed
qed

lemmas bit_buffer_defs = bit_buffer_reset_def bit_buffer_copy_def bit_buffer_copy_right_def
  bit_buffer_copy_left_def bit_buffer_copy_bytes_def bit_buffer_copy_bits_def
  bit_buffer_set_byte_def bit_buffer_set_byte_with_parity_def bit_buffer_set_size_def
  bit_buffer_set_size_bytes_def bit_buffer_append_byte_def bit_buffer_append_bytes_def
  bit_buffer_append_bit_def

lemma append_right_ok:
  assumes "bit_buffer_append_right buf other i = Some buf'" and "i * 8 \<le> size_bits other"
    and "bit_buffer_ok other" and "bit_buffer_ok buf"
  shows "bit_buffer_ok buf'"
proof -
  let ?n = "bit_buffer_get_size_bytes other - i" and ?k = "bit_buffer_get_size_bytes buf"
  have i: "i \<le> bit_buffer_get_size_bytes other" "size_bits other - i * 8 \<le> ?n * 8"
    using assms(2) size_bytes_le [of "size_bits other" "bit_buffer_get_size_bytes other"]
      size_bytes_le [of "i * 8" "bit_buffer_get_size_bytes other"]
    by (auto simp: size_bytes_eq diff_mult_distrib) 
  have "?n \<le> capacity_bytes other" using assms(3) size_bytes_le [of "size_bits other" "capacity_bytes other"]
    by (simp add: size_bytes_eq bit_buffer_ok_def)
  then have n: "nat ((int (bit_buffer_get_size_bytes other) - int i) mod 2 ^ 32) = ?n"
    using i(1) assms(3) by (simp add: bit_buffer_ok_def flip: of_nat_diff)
  obtain d where d: "memcpy (data buf) ?k (data other) i ?n = Some d"
    "buf' = buf\<lparr>data := d, size_bits := nat ((int (size_bits buf) + (int (size_bits other) - int (i * 8))) mod 2 ^ 32)\<rparr>"
    using assms(1) unfolding bit_buffer_append_right_def n Let_def BITS_IN_BYTE_def
    by (auto split: Option.bind_splits)
  have "?k + ?n \<le> capacity_bytes buf" "length d = capacity_bytes buf"
    using d(1) assms(4) by (auto simp: memcpy_def bit_buffer_ok_def split: if_splits)
  moreover have "size_bits buf \<le> ?k * 8" using size_bytes_le [of "size_bits buf" ?k] by (simp add: size_bytes_eq)
  ultimately have total: "size_bits buf + (size_bits other - i * 8) \<le> capacity_bytes buf * 8"
    using i(2) by linarith
  have "int (size_bits buf) + (int (size_bits other) - int (i * 8)) = int (size_bits buf + (size_bits other - i * 8))"
    using assms(2) by simp
  then have "size_bits buf' = (size_bits buf + (size_bits other - i * 8)) mod 2 ^ 32"
    by (cases buf) (simp only: d(2) BitBuffer.simps nat_int_mod_pow2)
  then have "size_bits buf' \<le> capacity_bytes buf * 8"
    using total mod_less_eq_dividend [of "size_bits buf + (size_bits other - i * 8)" "2 ^ 32"] by linarith
  then show ?thesis using d(2) \<open>length d = capacity_bytes buf\<close> assms(4) by (simp add: bit_buffer_ok_def)
qed

lemma copy_bytes_with_parity_ok:
  assumes "bit_buffer_copy_bytes_with_parity buf src n = Some buf'" and "bit_buffer_ok buf"
  shows "bit_buffer_ok buf'"
proof (cases "n < 9")
  case True
  then show ?thesis
    using assms by (auto simp: bit_buffer_copy_bytes_with_parity_def bit_buffer_ok_def BITS_IN_BYTE_def
        rd_def wr_def split: if_splits Option.bind_splits)
next
  case False
  then obtain k d p where *: "copy_with_parity_loop src n 0 0 (data buf, parity buf) = Some (k, d, p)"
    "buf' = buf\<lparr>data := d, parity := p, size_bits := k * 8\<rparr>"
    using assms(1) by (auto simp: bit_buffer_copy_bytes_with_parity_def BITS_IN_BYTE_def split: Option.bind_splits)
  then show ?thesis
    using copy_with_parity_loop_length [OF *(1)] assms(2) by (simp add: bit_buffer_ok_def)
qed

lemma append_bit_ok:
  assumes "bit_buffer_append_bit buf v = Some buf'" and "bit_buffer_ok buf"
  shows "bit_buffer_ok buf'"
proof -
  have "size_bits buf + 1 \<le> capacity_bytes buf * 8"
  proof (cases "size_bits buf mod 8 = 0")
    case True
    then show ?thesis
      using assms size_bytes_le [of "size_bits buf" "capacity_bytes buf - 1"]
      by (auto simp: bit_buffer_append_bit_def size_bytes_eq bit_buffer_has_partial_byte_def BITS_IN_BYTE_def
          bit_buffer_ok_def split: Option.bind_splits)
  next
    case False
    then have "size_bits buf \<noteq> capacity_bytes buf * 8" by auto
    then show ?thesis using assms(2) by (simp add: bit_buffer_ok_def)
  qed
  then show ?thesis
    using assms by (auto simp: bit_buffer_append_bit_def bit_buffer_ok_def rd_def wr_def Let_def
        split: if_splits Option.bind_splits)
qed

lemma bit_buffer_step_ok: "bit_buffer_step buf buf' \<Longrightarrow> bit_buffer_ok buf \<Longrightarrow> bit_buffer_ok buf'"
proof (induction rule: bit_buffer_step.induct)
  case (12 buf other i buf')
  then show ?case using append_right_ok by blast
next
  case (13 buf other buf')
  then show ?case using append_right_ok [of buf other 0] by (simp add: bit_buffer_append_def)
next
  case (7 buf src n buf')
  then show ?case using copy_bytes_with_parity_ok by blast
next
  case (16 buf v buf')
  then show ?case using append_bit_ok by blast
next
  case (15 buf src n buf')
  then show ?case
    using size_bytes_le [of "size_bits buf" "capacity_bytes buf - n"]
    by (auto simp: bit_buffer_append_bytes_def bit_buffer_ok_def size_bytes_eq BITS_IN_BYTE_def memcpy_def
        Let_def diff_mult_distrib split: if_splits Option.bind_splits)
next
  case (3 buf other i buf')
  then show ?case
    using size_bytes_le [of "size_bits other" "capacity_bytes buf + i"]
    by (auto simp: bit_buffer_copy_right_def bit_buffer_ok_def size_bytes_eq BITS_IN_BYTE_def memcpy_def
        Let_def split: if_splits Option.bind_splits)
qed (auto simp: bit_buffer_defs bit_buffer_ok_def BITS_IN_BYTE_def c_defs Let_def
    split: if_splits Option.bind_splits)

lemma bit_buffer_alloc_ok: "bit_buffer_alloc n = Some buf \<Longrightarrow> n * 8 < 2 ^ 32 \<Longrightarrow> bit_buffer_ok buf"
  by (auto simp: bit_buffer_alloc_def bit_buffer_ok_def BITS_IN_BYTE_def Let_def split: Option.bind_splits)

lemma reachable_ok: "bit_buffer_reachable buf \<Longrightarrow> bit_buffer_ok buf"
  by (induction rule: bit_buffer_reachable.induct) (auto intro: bit_buffer_alloc_ok bit_buffer_step_ok)

section \<open>Contents\<close>

text \<open>What a byte-aligned buffer holds.\<close>

definition aligned :: "BitBuffer \<Rightarrow> bool" where
  "aligned buf \<longleftrightarrow> size_bits buf mod 8 = 0"

definition contents :: "BitBuffer \<Rightarrow> u8 list" where
  "contents buf = take (bit_buffer_get_size_bytes buf) (data buf)"

lemma size_bytes_capacity: "bit_buffer_ok buf \<Longrightarrow> bit_buffer_get_size_bytes buf \<le> capacity_bytes buf"
  using size_bytes_le [of "size_bits buf" "capacity_bytes buf"] by (simp add: size_bytes_eq bit_buffer_ok_def)

lemma length_contents: "bit_buffer_ok buf \<Longrightarrow> length (contents buf) = bit_buffer_get_size_bytes buf"
  using size_bytes_capacity [of buf] by (simp add: contents_def bit_buffer_ok_def min_def)

lemma size_bytes_aligned: "size_bits buf = 8 * k \<Longrightarrow> bit_buffer_get_size_bytes buf = k"
  by (simp add: bit_buffer_get_size_bytes_def BITS_IN_BYTE_def)

lemma append_bytes_contents:
  assumes ok: "bit_buffer_ok buf" and al: "aligned buf"
    and fits: "bit_buffer_get_size_bytes buf + n \<le> capacity_bytes buf" and n: "n \<le> length src"
  shows "\<exists>buf'. bit_buffer_append_bytes buf src n = Some buf' \<and> bit_buffer_ok buf' \<and> aligned buf'
    \<and> contents buf' = contents buf @ take n src \<and> capacity_bytes buf' = capacity_bytes buf
    \<and> parity buf' = parity buf"
proof -
  let ?k = "bit_buffer_get_size_bytes buf"
  obtain k where k: "size_bits buf = 8 * k" using al by (auto simp: aligned_def)
  have kk: "?k = k" using k by (rule size_bytes_aligned)
  let ?d = "take ?k (data buf) @ take n src @ drop (?k + n) (data buf)"
  let ?buf = "buf\<lparr>data := ?d, size_bits := size_bits buf + n * 8\<rparr>"
  have len: "length (data buf) = capacity_bytes buf" using ok by (simp add: bit_buffer_ok_def)
  have eq: "bit_buffer_append_bytes buf src n = Some ?buf"
    using fits n len by (simp add: bit_buffer_append_bytes_def memcpy_def Let_def BITS_IN_BYTE_def)
  have "bit_buffer_get_size_bytes ?buf = k + n" using k by (intro size_bytes_aligned) simp
  then have "contents ?buf = contents buf @ take n src"
    using len fits n kk by (simp add: contents_def)
  moreover have "bit_buffer_ok ?buf" using bit_buffer_step_ok [OF bit_buffer_step.intros(15) [OF eq] ok] .
  ultimately show ?thesis using eq k by (auto simp: aligned_def)
qed

section \<open>Frames with parity\<close>

text \<open>
  The transmitted frame as a stream of bits, least significant first: eight data bits and the
  parity bit of every byte.
\<close>

definition sbit :: "u8 list \<Rightarrow> nat \<Rightarrow> bool" where
  "sbit d q = bit (d ! (q div 8)) (q mod 8)"

lemma sbit_split: "r < 8 \<Longrightarrow> sbit d (8 * k + r) = bit (d ! k) r"
  by (simp add: sbit_def)

definition framed :: "BitBuffer \<Rightarrow> u8 list \<Rightarrow> nat \<Rightarrow> bool" where
  "framed buf d n \<longleftrightarrow>
     (\<forall>i<n. (\<forall>j<8. sbit d (9 * i + j) = bit (data buf ! i) j) \<and> sbit d (9 * i + 8) = sbit (parity buf) i)"

text \<open>The byte under construction has no bits above the position.\<close>

definition clear_above :: "u8 list \<Rightarrow> nat \<Rightarrow> bool" where
  "clear_above d p \<longleftrightarrow> p mod 8 \<noteq> 0 \<longrightarrow> (\<forall>r<8. p mod 8 \<le> r \<longrightarrow> \<not> bit (d ! (p div 8)) r)"

text \<open>Adding one byte and its parity bit at bit position \<open>8 * k + s\<close>.\<close>

definition add_frame :: "u8 list \<Rightarrow> nat \<Rightarrow> nat \<Rightarrow> u8 \<Rightarrow> bool \<Rightarrow> u8 list" where
  "add_frame d k s b p = d[k := (if s = 0 then 0 else d ! k) OR shl b s, k + 1 := shr b (8 - s) OR shl (of_bool p) s]"

lemma add_frame_bits:
  assumes k: "k + 1 < length d" and s: "s < 8" and clear: "clear_above d (8 * k + s)"
  shows "q < 8 * k + s \<Longrightarrow> sbit (add_frame d k s b p) q = sbit d q"
    and "j < 8 \<Longrightarrow> sbit (add_frame d k s b p) (8 * k + s + j) = bit b j"
    and "sbit (add_frame d k s b p) (8 * k + s + 8) = p"
    and "clear_above (add_frame d k s b p) (8 * k + s + 9)"
proof -
  let ?d = "add_frame d k s b p"
  have b8: "\<not> bit b r" if "8 \<le> r" for r using that bit_imp_le_length [of b r] by auto
  have k0: "?d ! k = (if s = 0 then 0 else d ! k) OR shl b s" and k1: "?d ! (k + 1) = shr b (8 - s) OR shl (of_bool p) s"
    and other: "\<And>i. i \<noteq> k \<Longrightarrow> i \<noteq> k + 1 \<Longrightarrow> ?d ! i = d ! i"
    using k by (simp_all add: add_frame_def)
  have clr: "\<not> bit (d ! k) r" if "s \<noteq> 0" "s \<le> r" "r < 8" for r
    using clear that s by (simp add: clear_above_def)
  show "sbit ?d q = sbit d q" if "q < 8 * k + s"
  proof -
    obtain i r where q: "q = 8 * i + r" "r < 8" by (rule split_by_8)
    show ?thesis
    proof (cases "i = k")
      case True
      then have "r < s" using that q by simp
      then show ?thesis using True q by (simp add: sbit_split k0 bit_simps)
    next
      case False
      then have "i < k" using that q s by linarith
      then show ?thesis using q other [of i] by (simp add: sbit_split)
    qed
  qed
  show "sbit ?d (8 * k + s + j) = bit b j" if "j < 8"
  proof (cases "s + j < 8")
    case True
    have "sbit ?d (8 * k + (s + j)) = bit (?d ! k) (s + j)" using True by (rule sbit_split)
    also have "\<dots> = bit b j" using True clr [of "s + j"] by (auto simp: k0 bit_simps)
    finally show ?thesis by (simp add: add.assoc)
  next
    case False
    then obtain t where t: "s + j = 8 + t" by (metis le_Suc_ex not_less)
    then have r: "8 * k + s + j = 8 * (k + 1) + t" "t < 8" "t + (8 - s) = j" "t < s"
      using that s by (simp_all add: algebra_simps)
    have "sbit ?d (8 * (k + 1) + t) = bit (?d ! (k + 1)) t" using r(2) by (rule sbit_split)
    also have "\<dots> = bit b j" unfolding k1 using r(3,4) by (auto simp: bit_simps add.commute)
    finally show ?thesis unfolding r(1) .
  qed
  have "sbit ?d (8 * (k + 1) + s) = bit (?d ! (k + 1)) s" using s by (rule sbit_split)
  also have "\<dots> = p" unfolding k1 using s b8 by (simp add: bit_simps)
  finally show "sbit ?d (8 * k + s + 8) = p" by (simp add: algebra_simps)
  show "clear_above ?d (8 * k + s + 9)"
  proof (cases "s = 7")
    case False
    then have "s + 1 < 8" using s by simp
    moreover have "8 * k + s + 9 = 8 * (k + 1) + (s + 1)" by simp
    ultimately have "(8 * k + s + 9) div 8 = k + 1" "(8 * k + s + 9) mod 8 = s + 1"
      by (metis div_mult_self4 div_less add_0_right zero_neq_numeral, metis mod_mult_self4 mod_less)
    then show ?thesis using b8 by (auto simp: clear_above_def k1 [simplified] bit_simps)
  qed (simp add: clear_above_def)
qed

lemma write_step_eq:
  assumes ok: "bit_buffer_ok buf" and i: "i < bit_buffer_get_size_bytes buf" and pos: "9 * i + 9 < 2 ^ 16"
    and len: "9 * i div 8 + 1 < length d"
  shows "write_with_parity_step buf i (d, 9 * i) =
    Some (add_frame d (9 * i div 8) (9 * i mod 8) (data buf ! i) (sbit (parity buf) i), 9 * (i + 1))"
proof -
  have cap: "i < capacity_bytes buf" using i size_bytes_capacity [OF ok] by simp
  then have di: "i < length (data buf)" using ok by (simp add: bit_buffer_ok_def)
  have pi: "i div 8 < length (parity buf)"
    using ok cap size_bytes_le [of "capacity_bytes buf" "i div 8"] by (simp add: bit_buffer_ok_def)
  have m: "(9 * i + 8) mod 2 ^ 16 = 9 * i + 8" "(9 * i + 8 + 1) mod 2 ^ 16 = 9 * i + 9" using pos by simp_all
  show ?thesis
  proof (cases "9 * i mod 8 = 0")
    case True
    then have "(9 * i + 8) div 8 = 9 * i div 8 + 1" by simp
    then show ?thesis
      using True di pi len m
      by (simp add: write_with_parity_step_def rd_def wr_def Let_def BITS_IN_BYTE_def add_frame_def sbit_def)
  next
    case False
    then show ?thesis
      using di pi len m
      by (simp add: write_with_parity_step_def rd_def wr_def Let_def BITS_IN_BYTE_def add_frame_def sbit_def)
  qed
qed

lemma framed_add:
  assumes "framed buf d i" and "clear_above d (9 * i)" and "9 * i div 8 + 1 < length d"
  defines "d' \<equiv> add_frame d (9 * i div 8) (9 * i mod 8) (data buf ! i) (sbit (parity buf) i)"
  shows "framed buf d' (i + 1)" and "clear_above d' (9 * (i + 1))" and "length d' = length d"
proof -
  have pos: "8 * (9 * i div 8) + 9 * i mod 8 = 9 * i" by (rule mult_div_mod_eq)
  note bits = add_frame_bits [where k = "9 * i div 8" and s = "9 * i mod 8" and d = d and b = "data buf ! i"
      and p = "sbit (parity buf) i", unfolded pos, OF assms(3) _ assms(2), folded d'_def, simplified]
  show "framed buf d' (i + 1)"
    unfolding framed_def
  proof (intro allI impI)
    fix k assume "k < i + 1"
    show "(\<forall>j<8. sbit d' (9 * k + j) = bit (data buf ! k) j) \<and> sbit d' (9 * k + 8) = sbit (parity buf) k"
    proof (cases "k = i")
      case True
      then show ?thesis using bits(2,3) by simp
    next
      case False
      then have "k < i" using \<open>k < i + 1\<close> by simp
      then have "sbit d' (9 * k + j) = sbit d (9 * k + j)" if "j < 9" for j
        using that by (intro bits(1)) auto
      with \<open>k < i\<close> assms(1) show ?thesis by (simp add: framed_def)
    qed
  qed
  show "clear_above d' (9 * (i + 1))" using bits(4) by (simp add: add.commute)
  show "length d' = length d" by (simp add: d'_def add_frame_def)
qed

lemma write_loop_eq:
  assumes ok: "bit_buffer_ok buf" and n: "n \<le> bit_buffer_get_size_bytes buf" and "9 * n < 2 ^ 16"
    and "(9 * n + 7) div 8 \<le> length d" and "i \<le> n" and "framed buf d i" and "clear_above d (9 * i)"
  shows "\<exists>d'. write_with_parity_loop buf [i..<n] (d, 9 * i) = Some (d', 9 * n)
    \<and> framed buf d' n \<and> length d' = length d"
  using assms(4-7)
proof (induction "n - i" arbitrary: i d)
  case 0
  then show ?case by auto
next
  case (Suc m)
  then have i: "i < n" by simp
  have "9 * i div 8 + 1 < (9 * n + 7) div 8"
  proof -
    have "9 * i + 16 \<le> 9 * n + 7" using i by simp
    then have "(9 * i + 16) div 8 \<le> (9 * n + 7) div 8" by (rule div_le_mono)
    then show ?thesis by simp
  qed
  then have len: "9 * i div 8 + 1 < length d" using Suc.prems(1) by simp
  let ?d = "add_frame d (9 * i div 8) (9 * i mod 8) (data buf ! i) (sbit (parity buf) i)"
  have "write_with_parity_step buf i (d, 9 * i) = Some (?d, 9 * (i + 1))"
    using ok n i assms(3) len by (intro write_step_eq) auto
  moreover have "\<exists>d'. write_with_parity_loop buf [i + 1..<n] (?d, 9 * (i + 1)) = Some (d', 9 * n)
    \<and> framed buf d' n \<and> length d' = length ?d"
    using framed_add [OF Suc.prems(3,4) len] Suc.hyps(2) Suc.prems(1) i by (intro Suc.hyps(1)) auto
  ultimately show ?case
    using i framed_add(3) [OF Suc.prems(3,4) len] by (simp add: upt_conv_Cons)
qed

text \<open>The reading loop takes one byte and one parity bit from the stream.\<close>

definition add_parity_bit :: "u8 list \<Rightarrow> nat \<Rightarrow> bool \<Rightarrow> u8 list" where
  "add_parity_bit p i v = p[i div 8 := (if i mod 8 = 0 then of_bool v else p ! (i div 8) OR shl (of_bool v) (i mod 8))]"

lemma add_parity_bit_bits:
  assumes len: "i div 8 < length p" and clear: "clear_above p i"
  shows "k \<le> i \<Longrightarrow> sbit (add_parity_bit p i v) k = (if k = i then v else sbit p k)"
    and "clear_above (add_parity_bit p i v) (i + 1)"
proof -
  obtain K s where i: "i = 8 * K + s" "s < 8" by (rule split_by_8)
  then have ds: "i div 8 = K" "i mod 8 = s" by simp_all
  let ?p = "add_parity_bit p i v"
  have K: "?p ! K = (if s = 0 then of_bool v else p ! K OR shl (of_bool v) s)"
    and other: "\<And>j. j \<noteq> K \<Longrightarrow> ?p ! j = p ! j"
    using len by (simp_all add: add_parity_bit_def ds)
  have clr: "\<not> bit (p ! K) r" if "s \<noteq> 0" "s \<le> r" "r < 8" for r
    using clear that by (simp add: clear_above_def ds)
  show "sbit ?p k = (if k = i then v else sbit p k)" if "k \<le> i"
  proof -
    obtain J r where k: "k = 8 * J + r" "r < 8" by (rule split_by_8)
    show ?thesis
    proof (cases "J = K")
      case True
      then have "r \<le> s" using that k(1) i(1) by simp
      have "k = i \<longleftrightarrow> r = s" using True k(1) i(1) by simp
      moreover have "sbit ?p k = bit (?p ! K) r" "sbit p k = bit (p ! K) r"
        unfolding k(1) True using k(2) by (simp_all add: sbit_split)
      ultimately show ?thesis
        using \<open>r \<le> s\<close> i(2) clr [of s] unfolding K by (cases "r = s") (auto simp: bit_simps)
    next
      case False
      then have "k \<noteq> i" using k i by (metis div_mult_self4 div_less add_0_right zero_neq_numeral)
      then show ?thesis using False k by (simp add: sbit_split other)
    qed
  qed
  show "clear_above ?p (i + 1)"
  proof (cases "s = 7")
    case True
    then show ?thesis by (simp add: clear_above_def i)
  next
    case False
    then have "(i + 1) div 8 = K" "(i + 1) mod 8 = s + 1" using i by simp_all
    then show ?thesis using clr by (auto simp: clear_above_def K bit_simps)
  qed
qed

lemma unaligned_byte:
  assumes s: "s < 8" and j: "j < 8"
  shows "bit (shr (d ! k) s OR shl (d ! (k + 1)) (8 - s) :: u8) j = sbit d (8 * k + s + j)"
proof (cases "s + j < 8")
  case True
  have "sbit d (8 * k + (s + j)) = bit (d ! k) (s + j)" using True by (rule sbit_split)
  moreover have "\<not> 8 - s \<le> j" using True by linarith
  ultimately show ?thesis using j by (simp add: bit_simps add.assoc)
next
  case False
  then obtain t where t: "s + j = 8 + t" by (metis le_Suc_ex not_less)
  then have t8: "t < 8" using j s by simp
  have "sbit d (8 * (k + 1) + t) = bit (d ! (k + 1)) t" using t8 by (rule sbit_split)
  then have "sbit d (8 * k + s + j) = bit (d ! (k + 1)) t"
    using t by (simp add: add.assoc add.left_commute [of 8])
  moreover have "\<not> bit (d ! k) (s + j)" using t bit_imp_le_length [of "d ! k" "s + j"] by auto
  moreover have "j - (8 - s) = t" "8 - s \<le> j" using t s by simp_all
  ultimately show ?thesis using j by (simp add: bit_simps add.commute)
qed

lemma unaligned_parity: "s < 8 \<Longrightarrow> sbit d (8 * k + s + 8) = bit (d ! (k + 1)) s"
  using sbit_split [of s d "k + 1"] by (simp add: algebra_simps)

lemma copy_step_eq:
  assumes "framed buf src n" and "i < n" and "9 * i div 8 + 1 < length src" and "i < length d" and "i div 8 < length p"
  shows "copy_with_parity_step src (9 * i) i (d, p) = Some (d[i := data buf ! i], add_parity_bit p i (sbit (parity buf) i))"
proof -
  let ?k = "9 * i div 8" and ?s = "9 * i mod 8"
  have pos: "8 * ?k + ?s = 9 * i" and s: "?s < 8" by simp_all
  have "9 * i = i + 8 * i" by simp
  then have m: "?s = i mod 8" by (simp only: mod_mult_self2)
  have fr: "sbit src (9 * i + j) = bit (data buf ! i) j" if "j < 8" for j
    using assms(1,2) that by (simp add: framed_def)
  have byte: "shr (src ! ?k) ?s OR shl (src ! (?k + 1)) (8 - ?s) = data buf ! i"
    by (rule word_eqI_upto) (use unaligned_byte [OF s, of _ src ?k] pos fr in simp)
  have par: "bit (src ! (?k + 1)) ?s = sbit (parity buf) i"
    using unaligned_parity [OF s, of src ?k] assms(1,2) unfolding pos by (simp add: framed_def)
  have "rd src ?k = Some (src ! ?k)" "rd src (?k + 1) = Some (src ! (?k + 1))" using assms(3) by (simp_all add: rd_def)
  then show ?thesis
    unfolding copy_with_parity_step_def BITS_IN_BYTE_def Let_def FURI_BIT_eq prod.case
    using assms(4,5) byte par by (simp only: Option.bind.simps) (simp add: rd_def wr_def add_parity_bit_def m)
qed

lemma copy_loop_eq:
  assumes fr: "framed buf src n" and src: "(9 * n + 7) div 8 \<le> length src"
    and "n \<le> length d" and "(n + 7) div 8 \<le> length p"
    and "i \<le> n" and "\<forall>k<i. d ! k = data buf ! k" and "\<forall>k<i. sbit p k = sbit (parity buf) k"
    and "clear_above p i"
  shows "\<exists>d' p'. copy_with_parity_loop src (9 * n) (9 * i) i (d, p) = Some (n, d', p')
    \<and> (\<forall>k<n. d' ! k = data buf ! k) \<and> (\<forall>k<n. sbit p' k = sbit (parity buf) k)"
  using assms(3-)
proof (induction "n - i" arbitrary: i d p)
  case 0
  then show ?case by (simp add: copy_with_parity_loop.simps)
next
  case (Suc m)
  then have i: "i < n" by simp
  have "9 * i + 16 \<le> 9 * n + 7" using i by simp
  then have "(9 * i + 16) div 8 \<le> (9 * n + 7) div 8" by (rule div_le_mono)
  then have len: "9 * i div 8 + 1 < length src" using src by simp
  have "(i + 8) div 8 \<le> (n + 7) div 8" using i by (intro div_le_mono) simp
  then have leni: "i < length d" "i div 8 < length p" using Suc.prems(1,2) i by simp_all
  let ?d = "d[i := data buf ! i]" and ?p = "add_parity_bit p i (sbit (parity buf) i)"
  have step: "copy_with_parity_step src (9 * i) i (d, p) = Some (?d, ?p)"
    using fr i len leni by (rule copy_step_eq)
  note bits = add_parity_bit_bits [OF leni(2) Suc.prems(6)]
  have "\<exists>d' p'. copy_with_parity_loop src (9 * n) (9 * (i + 1)) (i + 1) (?d, ?p) = Some (n, d', p')
    \<and> (\<forall>k<n. d' ! k = data buf ! k) \<and> (\<forall>k<n. sbit p' k = sbit (parity buf) k)"
  proof (rule Suc.hyps(1))
    show "\<forall>k<i + 1. ?d ! k = data buf ! k" using Suc.prems(4) leni(1) by (auto simp: less_Suc_eq)
    show "\<forall>k<i + 1. sbit ?p k = sbit (parity buf) k" using Suc.prems(5) bits(1) by (auto simp: less_Suc_eq_le)
    show "clear_above ?p (i + 1)" by (rule bits(2))
  qed (use Suc i in \<open>auto simp: add_parity_bit_def\<close>)
  then show ?case
    using step i by (simp add: copy_with_parity_loop.simps [of src "9 * n" "9 * i"] BITS_IN_BYTE_def add.commute)
qed

lemma parity_roundtrip:
  assumes ok: "bit_buffer_ok buf" and al: "aligned buf" and n: "bit_buffer_get_size_bytes buf = n" "0 < n"
    and "9 * n < 2 ^ 16" and "(9 * n + 8) div 8 \<le> length dest"
    and ok2: "bit_buffer_ok buf2" and cap: "n \<le> capacity_bytes buf2"
  shows "\<exists>stream buf2'. bit_buffer_write_bytes_with_parity buf dest (length dest) = Some (stream, 9 * n)
    \<and> bit_buffer_copy_bytes_with_parity buf2 stream (9 * n) = Some buf2'
    \<and> contents buf2' = contents buf \<and> (\<forall>i<n. sbit (parity buf2') i = sbit (parity buf) i)"
proof -
  have dest: "(9 * n + 7) div 8 \<le> length dest"
    using assms(6) div_le_mono [of "9 * n + 7" "9 * n + 8" 8] by simp
  obtain stream where st: "write_with_parity_loop buf [0..<n] (dest, 9 * 0) = Some (stream, 9 * n)"
    "framed buf stream n" "length stream = length dest"
    using write_loop_eq [OF ok _ assms(5) dest, of 0] n(1) by (auto simp: framed_def clear_above_def)
  have "(n + 7) div 8 \<le> (capacity_bytes buf2 + 7) div 8" using cap by (intro div_le_mono) simp
  then obtain d p where dp: "copy_with_parity_loop stream (9 * n) (9 * 0) 0 (data buf2, parity buf2) = Some (n, d, p)"
    "\<forall>k<n. d ! k = data buf ! k" "\<forall>k<n. sbit p k = sbit (parity buf) k"
    using copy_loop_eq [OF st(2), of "data buf2" "parity buf2" 0] dest st(3) ok2 cap
    by (auto simp: bit_buffer_ok_def clear_above_def)
  let ?b = "buf2\<lparr>data := d, parity := p, size_bits := n * 8\<rparr>"
  have eq: "bit_buffer_copy_bytes_with_parity buf2 stream (9 * n) = Some ?b"
    using dp(1) n(2) by (simp add: bit_buffer_copy_bytes_with_parity_def BITS_IN_BYTE_def)
  have "length d = capacity_bytes buf2"
    using copy_with_parity_loop_length [OF dp(1)] ok2 by (simp add: bit_buffer_ok_def)
  moreover have "n \<le> length (data buf)" using size_bytes_capacity [OF ok] ok n(1) by (simp add: bit_buffer_ok_def)
  moreover have "bit_buffer_get_size_bytes ?b = n" by (rule size_bytes_aligned) simp
  ultimately have "contents ?b = contents buf"
    using dp(2) cap n(1) by (auto simp: contents_def intro!: nth_equalityI)
  with eq st(1) dp(3) n(1) assms(6) show ?thesis
    by (simp add: bit_buffer_write_bytes_with_parity_def BITS_IN_BYTE_def Let_def mult.commute)
qed

section \<open>Properties\<close>



text \<open>
  C25. Round trip of frames with parity: writing a byte-aligned buffer of up to 7281 bytes with
  its parity bits interleaved and reading the stream into another buffer of sufficient capacity
  reproduces the bytes and all parity bits, for every number of bytes and every alignment.
\<close>

theorem bit_buffer_parity_roundtrip:
  assumes "bit_buffer_ok buf" and "aligned buf" and "bit_buffer_get_size_bytes buf = n" and "0 < n"
    and "9 * n < 2 ^ 16" and "(9 * n + 8) div 8 \<le> length dest"
    and "bit_buffer_ok buf2" and "n \<le> capacity_bytes buf2"
  shows "\<exists>stream buf2'. bit_buffer_write_bytes_with_parity buf dest (length dest) = Some (stream, 9 * n)
    \<and> bit_buffer_copy_bytes_with_parity buf2 stream (9 * n) = Some buf2'
    \<and> contents buf2' = contents buf \<and> (\<forall>i<n. sbit (parity buf2') i = sbit (parity buf) i)"
  using assms by (rule parity_roundtrip)

theorem bit_buffer_parity_roundtrip_witness:
  "\<exists>stream buf2'. bit_buffer_write_bytes_with_parity
       \<lparr>data = [0x26, 0xA5], parity = [2], capacity_bytes = 2, size_bits = 16\<rparr> [0, 0, 0] 3 = Some (stream, 18)
    \<and> bit_buffer_copy_bytes_with_parity \<lparr>data = [0, 0, 0], parity = [0], capacity_bytes = 3, size_bits = 0\<rparr> stream 18
       = Some buf2'
    \<and> contents buf2' = [0x26, 0xA5]"
proof -
  let ?buf = "\<lparr>data = [0x26, 0xA5], parity = [2], capacity_bytes = 2, size_bits = 16\<rparr>"
  let ?buf2 = "\<lparr>data = [0, 0, 0], parity = [0], capacity_bytes = 3, size_bits = 0\<rparr>"
  have "bit_buffer_ok ?buf" "aligned ?buf" "bit_buffer_get_size_bytes ?buf = 2" "bit_buffer_ok ?buf2"
    "contents ?buf = [0x26, 0xA5]"
    by (simp_all add: bit_buffer_ok_def aligned_def bit_buffer_get_size_bytes_def BITS_IN_BYTE_def contents_def)
  then show ?thesis using bit_buffer_parity_roundtrip [of ?buf 2 "[0, 0, 0]" ?buf2] by (auto simp: numeral_3_eq_3)
qed

text \<open>
  Two defects, on concrete inputs. A clear bit appended over stale data keeps the stale bit, and
  reading a byte at a bit position of the last byte leaves the buffer although the check passes.
\<close>

lemma append_bit_keeps_stale_bit:
  "bit_buffer_append_bit \<lparr>data = [0xFF], parity = [0], capacity_bytes = 1, size_bits = 0\<rparr> False =
     Some \<lparr>data = [0xFF], parity = [0], capacity_bytes = 1, size_bits = 1\<rparr>"
  by code_simp

lemma get_byte_from_last_bit_out_of_bounds:
  "bit_buffer_get_byte_from_bit \<lparr>data = [0xFF], parity = [0], capacity_bytes = 1, size_bits = 8\<rparr> 0 = None"
  by code_simp

lemma append_right_partial_byte_wraps:
  "bit_buffer_append_right \<lparr>data = [0], parity = [0], capacity_bytes = 1, size_bits = 0\<rparr>
     \<lparr>data = [1], parity = [0], capacity_bytes = 1, size_bits = 1\<rparr> 1 =
   Some \<lparr>data = [0], parity = [0], capacity_bytes = 1, size_bits = 2 ^ 32 - 7\<rparr>"
  by (simp add: bit_buffer_append_right_def bit_buffer_get_size_bytes_def BITS_IN_BYTE_def memcpy_def)

end
