(* ===== verification/XorLinear.thy ===== *)
theory XorLinear
  imports Prelude
begin

text \<open>
  Functions on words that commute with exclusive or. Checksums and shift registers are of this
  kind, and two such functions are equal as soon as they agree on the powers of two, which turns
  the equivalence of a table-driven and a bitwise routine into finitely many evaluations.
  The second half is the reference checksum: a reflected cyclic redundancy check of any width,
  one bit at a time.
\<close>

section \<open>Linear functions\<close>

definition xor_linear :: "('a::len word \<Rightarrow> 'b::len word) \<Rightarrow> bool" where
  "xor_linear f \<longleftrightarrow> (\<forall>x y. f (x XOR y) = f x XOR f y)"

named_theorems linear_intros \<open>closure rules of \<open>xor_linear\<close>\<close>

lemma xor_cancel_right: "a XOR p = b XOR p \<Longrightarrow> a = (b :: 'a::len word)"
  by (metis xor.assoc xor_self_eq xor.right_neutral)

lemma xor_linearD: "xor_linear f \<Longrightarrow> f (x XOR y) = f x XOR f y"
  by (simp add: xor_linear_def)

lemma xor_linear_0: "xor_linear f \<Longrightarrow> f 0 = 0"
  by (metis xor_linearD xor_self_eq)

lemma linear_id [linear_intros]: "xor_linear (\<lambda>x. x)"
  by (simp add: xor_linear_def)

lemma linear_xor [linear_intros]: "xor_linear f \<Longrightarrow> xor_linear g \<Longrightarrow> xor_linear (\<lambda>x. f x XOR g x)"
  by (simp add: xor_linear_def ac_simps)

lemma linear_shl [linear_intros]: "xor_linear f \<Longrightarrow> xor_linear (\<lambda>x. shl (f x) n)"
  by (simp add: xor_linear_def push_bit_xor)

lemma linear_shr [linear_intros]: "xor_linear f \<Longrightarrow> xor_linear (\<lambda>x. shr (f x) n)"
  by (simp add: xor_linear_def drop_bit_xor)

lemma linear_ucast [linear_intros]: "xor_linear f \<Longrightarrow> xor_linear (\<lambda>x. ucast (f x))"
  by (simp add: xor_linear_def unsigned_xor_eq)

lemma linear_and [linear_intros]: "xor_linear f \<Longrightarrow> xor_linear (\<lambda>x. f x AND m)"
  by (auto simp: xor_linear_def intro!: bit_word_eqI simp: bit_simps)

lemma linear_select [linear_intros]:
  "xor_linear f \<Longrightarrow> xor_linear (\<lambda>x. if bit (f x) n then P else 0)"
  by (auto simp: xor_linear_def bit_xor_iff)

lemma linear_comp: "xor_linear f \<Longrightarrow> xor_linear g \<Longrightarrow> xor_linear (\<lambda>x. f (g x))"
  by (simp add: xor_linear_def)

lemma linear_funpow:
  fixes f :: "'a::len word \<Rightarrow> 'a word"
  shows "xor_linear f \<Longrightarrow> xor_linear (f ^^ n)"
  by (induction n) (simp_all add: xor_linear_def)

lemma linear_eqI:
  fixes f g :: "'a::len word \<Rightarrow> 'b::len word"
  assumes f: "xor_linear f" and g: "xor_linear g" and basis: "\<And>k. k < LENGTH('a) \<Longrightarrow> f (2 ^ k) = g (2 ^ k)"
  shows "f x = g x"
proof -
  have "n \<le> LENGTH('a) \<Longrightarrow> f (take_bit n x) = g (take_bit n x)" for n
  proof (induction n)
    case 0
    then show ?case using xor_linear_0 [OF f] xor_linear_0 [OF g] by simp
  next
    case (Suc n)
    have "take_bit (Suc n) x = take_bit n x XOR (if bit x n then 2 ^ n else 0)"
      using Suc.prems by (intro bit_word_eqI) (auto simp: bit_simps less_Suc_eq)
    then show ?case
      using Suc xor_linearD [OF f] xor_linearD [OF g] basis [of n] by (cases "bit x n") auto
  qed
  from this [of "LENGTH('a)"] show ?thesis by simp
qed

lemma all_less_Suc: "(\<forall>k<Suc n. P k) \<longleftrightarrow> P n \<and> (\<forall>k<n. P k)"
  by (auto simp: less_Suc_eq)

section \<open>The reflected cyclic redundancy check\<close>

definition crc_step :: "'a::len word \<Rightarrow> 'a word \<Rightarrow> 'a word" where
  "crc_step P x = shr x 1 XOR (if bit x 0 then P else 0)"

definition crc_byte :: "'a::len word \<Rightarrow> u8 \<Rightarrow> 'a word \<Rightarrow> 'a word" where
  "crc_byte P b c = (crc_step P ^^ 8) (c XOR ucast b)"

definition crc_refl :: "'a::len word \<Rightarrow> 'a word \<Rightarrow> u8 list \<Rightarrow> 'a word" where
  "crc_refl P init bytes = fold (crc_byte P) bytes init"

lemma linear_crc_step: "xor_linear (crc_step P)"
  unfolding crc_step_def by (intro linear_intros)

lemma crc_steps_high: "(crc_step P ^^ n) (x AND NOT (mask n)) = shr (x :: 'a::len word) n"
proof (induction n arbitrary: x)
  case 0
  then show ?case by simp
next
  case (Suc n)
  have "crc_step P (x AND NOT (mask (Suc n))) = shr x 1 AND NOT (mask n)"
    by (rule bit_word_eqI) (auto simp: crc_step_def bit_simps dest: bit_imp_le_length)
  then show ?case using Suc [of "shr x 1"] by (simp add: funpow_Suc_right drop_bit_drop_bit del: funpow.simps)
qed

lemma linear_crc_steps: "xor_linear (crc_step P ^^ n)"
  by (intro linear_funpow linear_crc_step)

lemma crc_steps_split: "(crc_step P ^^ n) x = shr x n XOR (crc_step P ^^ n) (x AND mask n)"
proof -
  have "x = (x AND NOT (mask n)) XOR (x AND mask n)"
    by (rule bit_word_eqI) (auto simp: bit_simps)
  then have "(crc_step P ^^ n) x = (crc_step P ^^ n) (x AND NOT (mask n)) XOR (crc_step P ^^ n) (x AND mask n)"
    using xor_linearD [OF linear_crc_steps] by metis
  then show ?thesis by (simp add: crc_steps_high)
qed

lemma xor_shuffle: "((x XOR z) XOR p) XOR z = x XOR (p :: 'a::len word)" "(x XOR z) XOR z = (x :: 'a word)"
  by (rule bit_word_eqI, auto simp: bit_xor_iff)+

text \<open>The same register shifted the other way, most significant bit first.\<close>

definition msb_step :: "'a::len word \<Rightarrow> 'a word \<Rightarrow> 'a word" where
  "msb_step P x = shl x 1 XOR (if bit x (LENGTH('a) - 1) then P else 0)"

lemma linear_msb_step: "xor_linear (msb_step P)"
  unfolding msb_step_def by (intro linear_intros)

lemma reverse_msb_step: "word_reverse (msb_step P x) = crc_step (word_reverse P) (word_reverse x)"
proof (rule bit_word_eqI)
  fix n assume "n < LENGTH('a)"
  then show "bit (word_reverse (msb_step P x) :: 'a word) n = bit (crc_step (word_reverse P) (word_reverse x)) n"
    by (auto simp: msb_step_def crc_step_def bit_word_reverse_iff bit_simps)
qed

lemma reverse_msb_steps: "word_reverse ((msb_step P ^^ n) x) = (crc_step (word_reverse P) ^^ n) (word_reverse x)"
  by (induction n) (simp_all add: reverse_msb_step)

lemma reverse_xor: "word_reverse (x XOR y) = word_reverse x XOR (word_reverse y :: 'a::len word)"
  by (rule bit_word_eqI) (simp add: bit_word_reverse_iff bit_xor_iff)

lemma crc_step_inj:
  fixes P :: "'a::len word"
  assumes "bit P (LENGTH('a) - 1)"
  shows "crc_step P x = crc_step P y \<longleftrightarrow> x = y"
proof
  assume eq: "crc_step P x = crc_step P y"
  let ?n = "LENGTH('a) - 1"
  have top: "bit (crc_step P z) ?n = bit z 0" for z
    using assms by (auto simp: crc_step_def bit_simps)
  have low: "bit x 0 = bit y 0" using top [of x] top [of y] eq by simp
  then have "shr x 1 = shr y 1"
    using eq unfolding crc_step_def by (cases "bit y 0") (auto dest: xor_cancel_right)
  then have "bit (shr x 1) m = bit (shr y 1) m" for m by simp
  then have high: "bit x (Suc m) = bit y (Suc m)" for m by (simp add: bit_simps)
  show "x = y"
  proof (rule bit_word_eqI)
    fix n
    show "bit x n = bit y n" using low high by (cases n) simp_all
  qed
qed simp

lemma crc_steps_inj:
  fixes P :: "'a::len word"
  assumes "bit P (LENGTH('a) - 1)"
  shows "(crc_step P ^^ n) x = (crc_step P ^^ n) y \<longleftrightarrow> x = y"
  by (induction n) (simp_all add: crc_step_inj [OF assms])

lemma crc_refl_Nil [simp]: "crc_refl P init [] = init"
  by (simp add: crc_refl_def)

lemma crc_refl_Cons [simp]: "crc_refl P init (b # bs) = crc_refl P (crc_byte P b init) bs"
  by (simp add: crc_refl_def)

lemma crc_refl_append: "crc_refl P init (xs @ ys) = crc_refl P (crc_refl P init xs) ys"
  by (simp add: crc_refl_def)

lemma crc_refl_inj:
  fixes P :: "'a::len word"
  assumes "bit P (LENGTH('a) - 1)"
  shows "crc_refl P c bs = crc_refl P c' bs \<longleftrightarrow> c = c'"
proof (induction bs arbitrary: c c')
  case (Cons b bs)
  have "crc_byte P b c = crc_byte P b c' \<longleftrightarrow> c = c'"
    unfolding crc_byte_def crc_steps_inj [OF assms] by (metis xor.assoc xor_self_eq xor.right_neutral)
  with Cons show ?case by simp
qed simp

text \<open>A change confined to one byte always changes the checksum.\<close>

lemma crc_refl_detects:
  fixes P :: "'a::len word"
  assumes P: "bit P (LENGTH('a) - 1)" and len: "8 \<le> LENGTH('a)" and i: "i < length bs" and b: "b \<noteq> bs ! i"
  shows "crc_refl P c (bs[i := b]) \<noteq> crc_refl P c bs"
proof
  let ?c = "crc_refl P c (take i bs)"
  have *: "crc_refl P c (take i bs @ x # drop (Suc i) bs) = crc_refl P (crc_byte P x ?c) (drop (Suc i) bs)" for x
    by (simp add: crc_refl_append)
  assume "crc_refl P c (bs[i := b]) = crc_refl P c bs"
  then have "crc_refl P (crc_byte P b ?c) (drop (Suc i) bs) = crc_refl P (crc_byte P (bs ! i) ?c) (drop (Suc i) bs)"
    using * [of b] * [of "bs ! i"] i by (simp add: upd_conv_take_nth_drop id_take_nth_drop [symmetric])
  then have "?c XOR ucast b = ?c XOR ucast (bs ! i)"
    unfolding crc_refl_inj [OF P] crc_byte_def crc_steps_inj [OF P] .
  then have "(ucast b :: 'a word) = ucast (bs ! i)" by (metis xor.assoc xor.left_neutral xor_self_eq)
  then have "unat (ucast b :: 'a word) = unat (ucast (bs ! i) :: 'a word)" by simp
  then have "unat b = unat (bs ! i)" using len by (simp add: unat_ucast_up)
  then show False using b by (simp add: word_unat_eq_iff)
qed

section \<open>Parity\<close>

lemma odd_filter_xor:
  "odd (length (filter (\<lambda>x. P x \<noteq> Q x) xs)) = (odd (length (filter P xs)) \<noteq> odd (length (filter Q xs)))"
  by (induction xs) auto

lemma parity_xor: "builtin_parity (x XOR y) = (builtin_parity x \<noteq> builtin_parity (y :: 'a::len word))"
proof -
  have "bit (x XOR y) = (\<lambda>n. bit x n \<noteq> bit y n)" by (simp add: fun_eq_iff bit_xor_iff)
  then show ?thesis using odd_filter_xor [of "bit x" "bit y"] by (simp add: builtin_parity_def builtin_popcount_def)
qed

lemma filter_single: "k < m \<Longrightarrow> filter (\<lambda>n. n = k) [0..<m] = [k]"
  by (induction m) (auto simp: less_Suc_eq filter_empty_conv)

lemma parity_single: "k < LENGTH('a) \<Longrightarrow> builtin_parity (shl (of_bool b) k :: 'a::len word) = b"
proof -
  assume k: "k < LENGTH('a)"
  have "filter (bit (shl (of_bool b) k :: 'a word)) [0..<LENGTH('a)] = (if b then [k] else [])"
  proof (cases b)
    case True
    have "filter (\<lambda>n. n = k) [0..<LENGTH('a)] = [k]"
      using k by (rule filter_single)
    moreover have "bit (shl (of_bool True) k :: 'a word) = (\<lambda>n. n = k)"
      using k by (auto simp: bit_simps fun_eq_iff)
    ultimately show ?thesis using True by simp
  qed (simp add: filter_empty_conv)
  then show ?thesis by (simp add: builtin_parity_def builtin_popcount_def)
qed

lemma parity_of_bool [simp]: "builtin_parity (of_bool b :: 'a::len word) = b"
  using parity_single [of 0 b, where ?'a = 'a] by simp

end
