(* ===== verification/Checksums.thy ===== *)
theory Checksums
  imports BitLib BitBuffer XorLinear
begin

text \<open>
  The firmware's checksum routines: \<^verbatim>\<open>lib/toolbox/crc32_calc.c\<close> (nibble table),
  \<^verbatim>\<open>lib/one_wire/maxim_crc.c\<close>, and the frame checksums of \<^verbatim>\<open>lib/nfc/helpers\<close>, which are appended to
  and checked on a bit buffer. All are compared with one reference (\<open>crc_refl\<close>) and
  with the generic routines of \<^verbatim>\<open>bit_lib\<close>; the contract of the three frame formats is the locale
  \<open>frame_crc\<close>.
\<close>

section \<open>CRC-32\<close>

definition rtable :: "u32 list" where
  "rtable = [0x00000000, 0x1db71064, 0x3b6e20c8, 0x26d930ac, 0x76dc4190, 0x6b6b51f4, 0x4db26158, 0x5005713c,
             0xedb88320, 0xf00f9344, 0xd6d6a3e8, 0xcb61b38c, 0x9b64c2b0, 0x86d3d2d4, 0xa00ae278, 0xbdbdf21c]"

definition crc32_nibble :: "u32 \<Rightarrow> u8 \<Rightarrow> u32" where
  "crc32_nibble crc d = shr crc 4 XOR rtable ! unat ((crc XOR ucast d) AND 0xf)"

definition crc32_calc_buffer :: "u32 \<Rightarrow> u8 list \<Rightarrow> nat \<Rightarrow> u32" where
  "crc32_calc_buffer crc buffer n =
     NOT (for_loop 0 n
       (\<lambda>i crc. crc32_nibble (crc32_nibble crc (shr (buffer ! i) 0)) (shr (buffer ! i) 4)) (NOT crc))"

definition CRC_DATA_BUFFER_MAX_LEN :: nat where "CRC_DATA_BUFFER_MAX_LEN = 512"

text \<open>
  \<open>reads\<close> are the blocks that \<^verbatim>\<open>storage_file_read\<close> delivers; when they run out it delivers nothing.
  The second component lists the percentages reported to the progress callback, in \<^verbatim>\<open>uint32_t\<close>
  arithmetic.
\<close>

fun crc32_file_loop :: "nat \<Rightarrow> nat \<Rightarrow> u8 list list \<Rightarrow> u32 \<Rightarrow> nat list \<Rightarrow> u32 \<times> nat list" where
  "crc32_file_loop file_size fptr [] crc progress = (crc, progress)"
| "crc32_file_loop file_size fptr (block # reads) crc progress =
     (if fptr < file_size then
        if block = [] then (crc, progress)
        else let fptr = (fptr + length block) mod 2 ^ 32;
                 progress = (if fptr mod CRC_DATA_BUFFER_MAX_LEN = 0
                             then progress @ [fptr * 100 mod 2 ^ 32 div file_size] else progress)
             in crc32_file_loop file_size fptr reads (crc32_calc_buffer crc block (length block)) progress
      else (crc, progress))"

definition crc32_calc_file :: "nat \<Rightarrow> u8 list list \<Rightarrow> u32 \<times> nat list" where
  "crc32_calc_file file_size reads = crc32_file_loop file_size 0 reads 0 []"

section \<open>Dallas/Maxim CRC-8\<close>

definition maxim_crc8_bit :: "u8 \<times> u8 \<Rightarrow> u8 \<times> u8" where
  "maxim_crc8_bit = (\<lambda>(crc, input_byte).
     let mix = (crc XOR input_byte) AND 0x01;
         crc = shr crc 1;
         crc = (if mix \<noteq> 0 then crc XOR 0x8C else crc)
     in (crc, shr input_byte 1))"

definition maxim_crc8 :: "u8 list \<Rightarrow> nat \<Rightarrow> u8 \<Rightarrow> u8" where
  "maxim_crc8 bytes data_size crc_init =
     for_loop 0 data_size
       (\<lambda>index crc. fst (for_loop 0 8 (\<lambda>_. maxim_crc8_bit) (crc, bytes ! index))) crc_init"

section \<open>Checksums of NFC frames\<close>

datatype Iso14443CrcType = Iso14443CrcTypeA | Iso14443CrcTypeB

definition ISO14443_3A_CRC_INIT :: u16 where "ISO14443_3A_CRC_INIT = 0x6363"
definition ISO14443_3B_CRC_INIT :: u16 where "ISO14443_3B_CRC_INIT = 0xFFFF"
definition ISO14443_CRC_SIZE :: nat where "ISO14443_CRC_SIZE = 2"

definition iso14443_crc_byte :: "u8 \<Rightarrow> u16 \<Rightarrow> u16" where
  "iso14443_crc_byte byte crc =
     (let byte = byte XOR ucast (crc AND 0xff);
          byte = byte XOR shl byte 4
      in shr crc 8 XOR shl (ucast byte) 8 XOR shl (ucast byte) 3 XOR ucast (shr byte 4))"

definition iso14443_crc_calculate :: "Iso14443CrcType \<Rightarrow> u8 list \<Rightarrow> nat \<Rightarrow> u16" where
  "iso14443_crc_calculate type bytes data_size =
     (let crc = (if type = Iso14443CrcTypeA then ISO14443_3A_CRC_INIT else ISO14443_3B_CRC_INIT);
          crc = for_loop 0 data_size (\<lambda>i crc. iso14443_crc_byte (bytes ! i) crc) crc
      in if type = Iso14443CrcTypeA then crc else NOT crc)"

text \<open>A \<^verbatim>\<open>uint16_t\<close> in memory, low byte first.\<close>

definition u16_bytes :: "u16 \<Rightarrow> u8 list" where
  "u16_bytes w = [ucast w, ucast (shr w 8)]"

definition u16_of_bytes :: "u8 list \<Rightarrow> u16" where
  "u16_of_bytes bs = ucast (bs ! 0) OR shl (ucast (bs ! 1)) 8"

definition iso14443_crc_append :: "Iso14443CrcType \<Rightarrow> BitBuffer \<Rightarrow> BitBuffer option" where
  "iso14443_crc_append type buf = do {
     let crc = iso14443_crc_calculate type (bit_buffer_get_data buf) (bit_buffer_get_size_bytes buf);
     bit_buffer_append_bytes buf (u16_bytes crc) ISO14443_CRC_SIZE
   }"

definition iso14443_crc_check :: "Iso14443CrcType \<Rightarrow> BitBuffer \<Rightarrow> bool option" where
  "iso14443_crc_check type buf = do {
     let data_size = bit_buffer_get_size_bytes buf;
     if data_size \<le> ISO14443_CRC_SIZE then Some False
     else do {
       crc_received \<leftarrow> bit_buffer_write_bytes_mid buf [0, 0] (data_size - ISO14443_CRC_SIZE) ISO14443_CRC_SIZE;
       let crc_calc = iso14443_crc_calculate type (bit_buffer_get_data buf) (data_size - ISO14443_CRC_SIZE);
       Some (crc_calc = u16_of_bytes crc_received)
     }
   }"

definition iso14443_crc_trim :: "BitBuffer \<Rightarrow> BitBuffer option" where
  "iso14443_crc_trim buf = do {
     let data_size = bit_buffer_get_size_bytes buf;
     furi_check (data_size > ISO14443_CRC_SIZE);
     bit_buffer_set_size_bytes buf (data_size - ISO14443_CRC_SIZE)
   }"

datatype Iso13239CrcType = Iso13239CrcTypeDefault | Iso13239CrcTypePicopass

definition ISO13239_CRC_INIT_DEFAULT :: u16 where "ISO13239_CRC_INIT_DEFAULT = 0xFFFF"
definition ISO13239_CRC_INIT_PICOPASS :: u16 where "ISO13239_CRC_INIT_PICOPASS = 0xE012"
definition ISO13239_CRC_POLY :: u16 where "ISO13239_CRC_POLY = 0x8408"
definition ISO13239_CRC_SIZE :: nat where "ISO13239_CRC_SIZE = 2"

definition iso13239_crc_byte :: "u8 \<Rightarrow> u16 \<Rightarrow> u16" where
  "iso13239_crc_byte byte crc =
     for_loop 0 8 (\<lambda>_ crc. if crc AND 1 \<noteq> 0 then shr crc 1 XOR ISO13239_CRC_POLY else shr crc 1)
       (crc XOR ucast byte)"

definition iso13239_crc_calculate :: "Iso13239CrcType \<Rightarrow> u8 list \<Rightarrow> nat \<Rightarrow> u16" where
  "iso13239_crc_calculate type bytes data_size =
     (let crc = (if type = Iso13239CrcTypeDefault then ISO13239_CRC_INIT_DEFAULT else ISO13239_CRC_INIT_PICOPASS);
          crc = for_loop 0 data_size (\<lambda>i crc. iso13239_crc_byte (bytes ! i) crc) crc
      in if type = Iso13239CrcTypePicopass then crc else NOT crc)"

definition iso13239_crc_append :: "Iso13239CrcType \<Rightarrow> BitBuffer \<Rightarrow> BitBuffer option" where
  "iso13239_crc_append type buf = do {
     let crc = iso13239_crc_calculate type (bit_buffer_get_data buf) (bit_buffer_get_size_bytes buf);
     bit_buffer_append_bytes buf (u16_bytes crc) ISO13239_CRC_SIZE
   }"

definition iso13239_crc_check :: "Iso13239CrcType \<Rightarrow> BitBuffer \<Rightarrow> bool option" where
  "iso13239_crc_check type buf = do {
     let data_size = bit_buffer_get_size_bytes buf;
     if data_size \<le> ISO13239_CRC_SIZE then Some False
     else do {
       crc_received \<leftarrow> bit_buffer_write_bytes_mid buf [0, 0] (data_size - ISO13239_CRC_SIZE) ISO13239_CRC_SIZE;
       let crc_calc = iso13239_crc_calculate type (bit_buffer_get_data buf) (data_size - ISO13239_CRC_SIZE);
       Some (crc_calc = u16_of_bytes crc_received)
     }
   }"

text \<open>\<^verbatim>\<open>furi_assert\<close> is compiled out of release builds; the difference of two \<^verbatim>\<open>size_t\<close> wraps around.\<close>

definition iso13239_crc_trim :: "BitBuffer \<Rightarrow> BitBuffer option" where
  "iso13239_crc_trim buf = do {
     let data_size = bit_buffer_get_size_bytes buf;
     bit_buffer_set_size_bytes buf (nat ((int data_size - int ISO13239_CRC_SIZE) mod 2 ^ 32))
   }"

definition FELICA_CRC_POLY :: u16 where "FELICA_CRC_POLY = 0x1021"
definition FELICA_CRC_INIT :: u16 where "FELICA_CRC_INIT = 0x0000"
definition FELICA_CRC_SIZE :: nat where "FELICA_CRC_SIZE = 2"

definition felica_crc_byte :: "u8 \<Rightarrow> u16 \<Rightarrow> u16" where
  "felica_crc_byte byte crc =
     for_loop 0 8 (\<lambda>_ crc. if crc AND 0x8000 \<noteq> 0 then shl crc 1 XOR FELICA_CRC_POLY else shl crc 1)
       (crc XOR shl (ucast byte) 8)"

definition felica_crc_calculate :: "u8 list \<Rightarrow> nat \<Rightarrow> u16" where
  "felica_crc_calculate bytes len =
     (let crc = for_loop 0 len (\<lambda>i crc. felica_crc_byte (bytes ! i) crc) FELICA_CRC_INIT
      in shl crc 8 OR shr crc 8)"

definition felica_crc_append :: "BitBuffer \<Rightarrow> BitBuffer option" where
  "felica_crc_append buf = do {
     let crc = felica_crc_calculate (bit_buffer_get_data buf) (bit_buffer_get_size_bytes buf);
     bit_buffer_append_bytes buf (u16_bytes crc) FELICA_CRC_SIZE
   }"

definition felica_crc_check :: "BitBuffer \<Rightarrow> bool option" where
  "felica_crc_check buf = do {
     let data_size = bit_buffer_get_size_bytes buf;
     if data_size \<le> FELICA_CRC_SIZE then Some False
     else do {
       crc_received \<leftarrow> bit_buffer_write_bytes_mid buf [0, 0] (data_size - FELICA_CRC_SIZE) FELICA_CRC_SIZE;
       let crc_calc = felica_crc_calculate (bit_buffer_get_data buf) (data_size - FELICA_CRC_SIZE);
       Some (crc_calc = u16_of_bytes crc_received)
     }
   }"

definition felica_crc_trim :: "BitBuffer \<Rightarrow> BitBuffer option" where
  "felica_crc_trim buf = do {
     let data_size = bit_buffer_get_size_bytes buf;
     bit_buffer_set_size_bytes buf (nat ((int data_size - int FELICA_CRC_SIZE) mod 2 ^ 32))
   }"

section \<open>The routines compute the reference checksum\<close>

text \<open>A loop over the bytes of a buffer is a fold over the prefix it reads.\<close>

lemma for_loop_bytes:
  "n \<le> length bytes \<Longrightarrow> for_loop 0 n (\<lambda>i s. f (bytes ! i) s) s = fold f (take n bytes) s"
  by (induction n) (auto simp: for_loop_Suc take_Suc_conv_app_nth)

lemma for_loop_funpow: "for_loop 0 n (\<lambda>_. f) s = (f ^^ n) s"
  by (induction n) (auto simp: for_loop_Suc)

lemma crc32_table: "n < 16 \<Longrightarrow> rtable ! n = (crc_step 0xedb88320 ^^ 4) (of_nat n)"
proof -
  have "\<forall>n<16. rtable ! n = (crc_step 0xedb88320 ^^ 4) (of_nat n)"
    unfolding all_less_16 all_less_8 by code_simp
  then show "n < 16 \<Longrightarrow> rtable ! n = (crc_step 0xedb88320 ^^ 4) (of_nat n)" by blast
qed

lemma mask_4: "(mask 4 :: 'a::len word) = 0xf"
  by (simp add: mask_eq_exp_minus_1)

lemma unat_nibble: "unat ((x :: u32) AND 0xf) < 16"
proof -
  have "x AND 0xf = take_bit 4 x" by (simp add: take_bit_eq_mask mask_4)
  then show ?thesis by (simp add: take_bit_eq_mod unat_mod)
qed

lemma crc32_nibble_eq: "crc32_nibble crc d = (crc_step 0xedb88320 ^^ 4) (crc XOR ucast (d AND 0xf))"
proof -
  let ?n = "(crc XOR ucast d) AND 0xf"
  have nib: "(crc XOR ucast (d AND 0xf)) AND mask 4 = ?n"
    by (rule bit_word_eqI) (auto simp: bit_simps bit_0xF mask_4)
  have sh: "shr (crc XOR ucast (d AND 0xf)) 4 = shr crc 4"
    by (rule bit_word_eqI) (auto simp: bit_simps bit_0xF)
  have "rtable ! unat ?n = (crc_step 0xedb88320 ^^ 4) ?n" using crc32_table [OF unat_nibble] by simp
  then show ?thesis
    using crc_steps_split [where P = "0xedb88320" and n = 4 and x = "crc XOR ucast (d AND 0xf)"] unfolding nib sh crc32_nibble_def by simp
qed

lemma crc32_byte_eq:
  "crc32_nibble (crc32_nibble crc (shr b 0)) (shr b 4) = crc_byte 0xedb88320 b crc"
proof -
  let ?f = "crc_step 0xedb88320 ^^ 4 :: u32 \<Rightarrow> u32"
  have eight: "8 = 4 + (4 :: nat)" by simp
  have "crc XOR ucast b = (crc XOR ucast (b AND 0xf)) XOR (ucast b AND NOT (mask 4))"
    by (rule bit_word_eqI) (auto simp: bit_simps bit_0xF)
  then have "?f (crc XOR ucast b) = ?f ((crc XOR ucast (b AND 0xf)) XOR (ucast b AND NOT (mask 4)))" by simp
  also have "\<dots> = ?f (crc XOR ucast (b AND 0xf)) XOR shr (ucast b) 4"
    by (simp only: xor_linearD [OF linear_crc_steps] crc_steps_high)
  finally have "?f (crc XOR ucast b) = ?f (crc XOR ucast (b AND 0xf)) XOR shr (ucast b) 4" .
  moreover have "shr (ucast b :: u32) 4 = ucast (shr b 4 AND 0xf)"
    by (rule bit_word_eqI) (auto simp: bit_simps bit_0xF dest: bit_imp_le_length)
  moreover have "(crc_step 0xedb88320 ^^ 8) x = ?f (?f x)" for x :: u32
    unfolding eight funpow_add comp_apply ..
  ultimately show ?thesis by (simp only: crc32_nibble_eq crc_byte_def drop_bit_0 id_apply)
qed

lemma iso14443_byte_eq: "iso14443_crc_byte b c = crc_byte 0x8408 b c"
proof -
  let ?f = "\<lambda>x :: u16. iso14443_crc_byte 0 x"
  have "ucast ((c XOR ucast b) AND 0xff) = (ucast (c AND 0xff) :: u8) XOR b"
    by (rule word_eqI_upto) (simp add: all_less_8 bit_simps)
  moreover have "shr (c XOR ucast b) 8 = shr c 8"
    by (rule bit_word_eqI) (auto simp: bit_simps dest: bit_imp_le_length)
  ultimately have 1: "iso14443_crc_byte b c = iso14443_crc_byte 0 (c XOR ucast b)"
    by (simp add: iso14443_crc_byte_def Let_def xor.commute [of b])
  have lin: "xor_linear ?f"
    unfolding iso14443_crc_byte_def Let_def xor.left_neutral by (intro linear_intros)
  have "?f x = (crc_step 0x8408 ^^ 8) x" for x
  proof (rule linear_eqI [OF lin linear_crc_steps])
    have *: "\<forall>k<16. ?f (2 ^ k) = (crc_step 0x8408 ^^ 8) (2 ^ k)"
      unfolding all_less_16 all_less_8 by code_simp
    fix k assume "k < LENGTH(16)"
    with * show "?f (2 ^ k) = (crc_step 0x8408 ^^ 8) (2 ^ k)" by simp
  qed
  then show ?thesis using 1 by (simp add: crc_byte_def)
qed

lemma iso13239_byte_eq: "iso13239_crc_byte b c = crc_byte 0x8408 b c"
proof -
  have "(\<lambda>crc. if crc AND 1 \<noteq> 0 then shr crc 1 XOR ISO13239_CRC_POLY else shr crc 1) = crc_step 0x8408"
    by (auto simp: crc_step_def ISO13239_CRC_POLY_def and_1_eq_0_iff)
  then show ?thesis by (simp add: iso13239_crc_byte_def crc_byte_def for_loop_funpow)
qed

lemma reverse_polys: "word_reverse (0x1021 :: u16) = 0x8408" "word_reverse (0x31 :: u8) = 0x8C"
  by (rule word_eqI_upto, simp add: bit_word_reverse_iff all_less_16 all_less_8)+

lemma maxim_byte_eq: "fst (for_loop 0 8 (\<lambda>_. maxim_crc8_bit) (c, b)) = crc_byte 0x8C b c"
proof -
  have step: "maxim_crc8_bit (c, b) = (crc_step 0x8C (c XOR b) XOR shr b 1, shr b 1)" for c b
    by (cases "bit (c XOR b) 0")
      (simp_all add: maxim_crc8_bit_def crc_step_def Let_def and_1_eq_0_iff drop_bit_xor xor_shuffle)
  have "(maxim_crc8_bit ^^ n) (c, b) = ((crc_step 0x8C ^^ n) (c XOR b) XOR shr b n, shr b n)" for n
    by (induction n) (simp_all add: step xor.assoc drop_bit_drop_bit)
  from this [of 8] show ?thesis
    by (simp add: for_loop_funpow crc_byte_def)
qed

lemma crc8_byte_eq: "bit_lib_crc8_byte P c = (msb_step P ^^ 8) c"
proof -
  have "(\<lambda>crc :: u8. if crc AND TOPBIT_8 \<noteq> 0 then shl crc 1 XOR P else shl crc 1) = msb_step P"
    using and_exp_eq_0_iff_not_bit [where ?'a = "8 word" and n = 7]
    by (auto simp: msb_step_def TOPBIT_8_def push_bit_of_1)
  then show ?thesis by (simp add: bit_lib_crc8_byte_def for_loop_funpow)
qed

lemma felica_byte_eq: "felica_crc_byte b c = (msb_step 0x1021 ^^ 8) (c XOR shl (ucast b) 8)"
proof -
  have "(\<lambda>crc :: u16. if crc AND 0x8000 \<noteq> 0 then shl crc 1 XOR FELICA_CRC_POLY else shl crc 1) = msb_step 0x1021"
    using and_exp_eq_0_iff_not_bit [where ?'a = "16 word" and n = 15]
    by (auto simp: msb_step_def FELICA_CRC_POLY_def)
  then show ?thesis by (simp add: felica_crc_byte_def for_loop_funpow)
qed

lemma crc16_byte_eq: "bit_lib_crc16_byte P b c = (msb_step P ^^ 8) (c XOR shl (ucast b) 8)"
proof -
  let ?body = "\<lambda>j crc :: u16. shl crc 1 XOR (if bit crc 15 \<noteq> bit b (7 - j) then P else 0)"
  let ?b = "ucast b :: u16"
  have step: "?body n (y XOR shl ?b (8 + n)) = msb_step P y XOR shl ?b (8 + Suc n)" if "n \<le> 7" for n y
  proof -
    have "bit (y XOR shl ?b (8 + n)) 15 \<noteq> bit b (7 - n) \<longleftrightarrow> bit y 15"
      using that by (auto simp: bit_simps)
    moreover have "shl (y XOR shl ?b (8 + n)) 1 = shl y 1 XOR shl ?b (8 + Suc n)"
      by (simp add: push_bit_xor push_bit_push_bit)
    moreover have "msb_step P y = shl y 1 XOR (if bit y 15 then P else 0)"
    proof -
      have "LENGTH(16) - 1 = (15 :: nat)" by simp
      then show ?thesis unfolding msb_step_def by (simp only:)
    qed
    ultimately show ?thesis by (simp only: xor.assoc xor.commute [of "shl ?b (8 + Suc n)"])
  qed
  have "n \<le> 8 \<Longrightarrow> for_loop 0 n ?body c = (msb_step P ^^ n) (c XOR shl ?b 8) XOR shl ?b (8 + n)" for n
  proof (induction n)
    case 0
    then show ?case by (simp add: xor.assoc)
  next
    case (Suc n)
    then show ?case using step [of n "(msb_step P ^^ n) (c XOR shl ?b 8)"] by (simp only: for_loop_Suc) simp
  qed
  from this [of 8] have "for_loop 0 8 ?body c = (msb_step P ^^ 8) (c XOR shl ?b 8) XOR shl ?b 16" by simp
  moreover have "shl ?b 16 = 0" by (rule bit_word_eqI) (simp add: bit_simps)
  moreover have "bit_lib_crc16_byte P b c = for_loop 0 8 ?body c"
    unfolding bit_lib_crc16_byte_def by (rule for_loop_cong) (auto simp: Let_def)
  ultimately show ?thesis by simp
qed

text \<open>Whole buffers.\<close>

lemma crc32_eq:
  "n \<le> length bytes \<Longrightarrow> crc32_calc_buffer crc bytes n = NOT (crc_refl 0xedb88320 (NOT crc) (take n bytes))"
  by (simp only: crc32_calc_buffer_def crc32_byte_eq crc_refl_def for_loop_bytes)

lemma maxim_eq: "n \<le> length bytes \<Longrightarrow> maxim_crc8 bytes n init = crc_refl 0x8C init (take n bytes)"
  by (simp only: maxim_crc8_def maxim_byte_eq crc_refl_def for_loop_bytes)

lemma iso14443_eq:
  "n \<le> length bytes \<Longrightarrow> iso14443_crc_calculate type bytes n =
     (if type = Iso14443CrcTypeA then crc_refl 0x8408 0x6363 (take n bytes)
      else NOT (crc_refl 0x8408 0xFFFF (take n bytes)))"
  by (simp only: iso14443_crc_calculate_def Let_def iso14443_byte_eq crc_refl_def for_loop_bytes
      ISO14443_3A_CRC_INIT_def ISO14443_3B_CRC_INIT_def if_True if_False split: if_splits) simp

lemma iso13239_eq:
  "n \<le> length bytes \<Longrightarrow> iso13239_crc_calculate type bytes n =
     (if type = Iso13239CrcTypePicopass then crc_refl 0x8408 0xE012 (take n bytes)
      else NOT (crc_refl 0x8408 0xFFFF (take n bytes)))"
  by (cases type) (simp_all only: iso13239_crc_calculate_def Let_def iso13239_byte_eq crc_refl_def for_loop_bytes
      ISO13239_CRC_INIT_DEFAULT_def ISO13239_CRC_INIT_PICOPASS_def if_True if_False Iso13239CrcType.distinct refl simp_thms)

text \<open>Most significant bit first is the mirror image.\<close>

lemma reverse_high_byte: "word_reverse (shl (ucast b :: u16) 8) = ucast (word_reverse (b :: u8))"
  by (rule word_eqI_upto) (simp add: bit_word_reverse_iff bit_simps all_less_16 all_less_8)

lemma reverse_msb_bytes:
  "word_reverse (fold (\<lambda>b c. (msb_step 0x1021 ^^ 8) (c XOR shl (ucast b) 8)) bytes c) =
     crc_refl 0x8408 (word_reverse (c :: u16)) (map word_reverse bytes)"
  by (induction bytes arbitrary: c)
    (simp_all add: crc_byte_def reverse_msb_steps reverse_xor reverse_high_byte reverse_polys)

lemma reflect_byte16: "ucast (shr (bit_lib_reverse_16_fast (ucast b)) 8) = word_reverse (b :: u8)"
  by (rule word_eqI_upto) (simp add: reverse_16_fast_eq bit_word_reverse_iff bit_simps all_less_8)

lemma crc16_eq:
  "n \<le> length bytes \<Longrightarrow> bit_lib_crc16 bytes n 0x1021 init ref_in ref_out xor_out =
     (let crc = word_reverse (crc_refl 0x8408 (word_reverse init)
                  (map (\<lambda>b. if ref_in then b else word_reverse b) (take n bytes)))
      in (if ref_out then word_reverse crc else crc) XOR xor_out)"
proof -
  assume n: "n \<le> length bytes"
  let ?F = "\<lambda>b (c :: u16). (msb_step 0x1021 ^^ 8) (c XOR shl (ucast (b :: u8)) 8)"
  let ?g = "\<lambda>b :: u8. if ref_in then word_reverse b else b"
  have "for_loop 0 n (\<lambda>i crc. let byte = (if ref_in then ucast (shr (bit_lib_reverse_16_fast (ucast (bytes ! i))) 8)
          else bytes ! i) in bit_lib_crc16_byte 0x1021 byte crc) init
      = fold (\<lambda>b. ?F (?g b)) (take n bytes) init"
    unfolding Let_def reflect_byte16 crc16_byte_eq by (rule for_loop_bytes [OF n])
  also have "\<dots> = fold ?F (map ?g (take n bytes)) init" by (simp add: fold_map o_def)
  also have "\<dots> = word_reverse (crc_refl 0x8408 (word_reverse init) (map word_reverse (map ?g (take n bytes))))"
    by (simp only: reverse_msb_bytes [symmetric] word_rev_rev)
  also have "map word_reverse (map ?g (take n bytes)) = map (\<lambda>b. if ref_in then b else word_reverse b) (take n bytes)"
    by simp
  finally show ?thesis unfolding bit_lib_crc16_def reverse_16_fast_eq [symmetric] Let_def by (simp only:)
qed

lemma crc8_eq:
  "n \<le> length bytes \<Longrightarrow> bit_lib_crc8 bytes n 0x31 init True True 0 = ucast (crc_refl 0x8C (word_reverse init) (take n bytes))"
proof -
  assume n: "n \<le> length bytes"
  have "word_reverse (fold (\<lambda>b c. (msb_step 0x31 ^^ 8) (c XOR word_reverse b)) bs c)
      = crc_refl 0x8C (word_reverse c) bs" for bs and c :: u8
    by (induction bs arbitrary: c) (simp_all add: crc_byte_def reverse_msb_steps reverse_xor reverse_polys)
  then show ?thesis
    unfolding bit_lib_crc8_def Let_def if_True reflect8_eq crc8_byte_eq
    using for_loop_bytes [OF n, of "\<lambda>b c. (msb_step 0x31 ^^ 8) (c XOR word_reverse b)"] by simp
qed

lemma felica_eq:
  assumes n: "n \<le> length bytes"
  shows "felica_crc_calculate bytes n =
    (let crc = word_reverse (crc_refl 0x8408 0 (map word_reverse (take n bytes))) in shl crc 8 OR shr crc 8)"
proof -
  have "for_loop 0 n (\<lambda>i. felica_crc_byte (bytes ! i)) FELICA_CRC_INIT =
      word_reverse (crc_refl 0x8408 (word_reverse FELICA_CRC_INIT) (map word_reverse (take n bytes)))"
    unfolding felica_byte_eq for_loop_bytes [OF n] by (simp only: reverse_msb_bytes [symmetric] word_rev_rev)
  moreover have "word_reverse (0 :: u16) = 0" by (rule bit_word_eqI) (simp add: bit_word_reverse_iff)
  ultimately show ?thesis by (simp add: felica_crc_calculate_def FELICA_CRC_INIT_def)
qed

section \<open>The frame contract\<close>

lemma u16_of_bytes_u16_bytes: "u16_of_bytes (u16_bytes w) = w"
  by (rule word_eqI_upto) (simp add: u16_of_bytes_def u16_bytes_def bit_simps all_less_16 all_less_8)

lemma u16_of_bytes_inject:
  "u16_of_bytes [a, b] = u16_of_bytes [a', b'] \<longleftrightarrow> a = a' \<and> b = b'"
proof
  assume eq: "u16_of_bytes [a, b] = u16_of_bytes [a', b']"
  have *: "ucast (u16_of_bytes [x, y]) = x" "ucast (shr (u16_of_bytes [x, y]) 8) = y" for x y :: u8
    by (rule word_eqI_upto, auto simp: u16_of_bytes_def bit_simps all_less_8 dest: bit_imp_le_length)+
  show "a = a' \<and> b = b'" using * [of a b] * [of a' b'] eq by metis
qed simp

text \<open>
  What the readers and cards rely on: the checksum goes behind the contents, low byte first, and
  is compared with the last two bytes; a change of one byte changes it.
\<close>

locale frame_crc =
  fixes calc :: "u8 list \<Rightarrow> u16"
    and append_crc :: "BitBuffer \<Rightarrow> BitBuffer option"
    and check_crc :: "BitBuffer \<Rightarrow> bool option"
    and trim_crc :: "BitBuffer \<Rightarrow> BitBuffer option"
  assumes append_eq: "bit_buffer_ok buf \<Longrightarrow>
      append_crc buf = bit_buffer_append_bytes buf (u16_bytes (calc (contents buf))) 2"
    and check_eq: "bit_buffer_ok buf \<Longrightarrow> 2 < bit_buffer_get_size_bytes buf \<Longrightarrow>
      check_crc buf = Some (calc (take (bit_buffer_get_size_bytes buf - 2) (contents buf)) =
        u16_of_bytes (drop (bit_buffer_get_size_bytes buf - 2) (contents buf)))"
    and trim_eq: "bit_buffer_ok buf \<Longrightarrow> 2 < bit_buffer_get_size_bytes buf \<Longrightarrow>
      trim_crc buf = bit_buffer_set_size_bytes buf (bit_buffer_get_size_bytes buf - 2)"
    and calc_detects: "i < length bs \<Longrightarrow> b \<noteq> bs ! i \<Longrightarrow> calc (bs[i := b]) \<noteq> calc bs"
begin

lemma append_contents:
  assumes "bit_buffer_ok buf" and "aligned buf" and "0 < bit_buffer_get_size_bytes buf"
    and "bit_buffer_get_size_bytes buf + 2 \<le> capacity_bytes buf"
  shows "\<exists>buf'. append_crc buf = Some buf' \<and> bit_buffer_ok buf' \<and> aligned buf'
    \<and> contents buf' = contents buf @ u16_bytes (calc (contents buf))
    \<and> bit_buffer_get_size_bytes buf' = bit_buffer_get_size_bytes buf + 2"
proof -
  have "2 \<le> length (u16_bytes (calc (contents buf)))" by (simp add: u16_bytes_def)
  from append_bytes_contents [OF assms(1,2,4) this] obtain buf' where
    "bit_buffer_append_bytes buf (u16_bytes (calc (contents buf))) 2 = Some buf'" "bit_buffer_ok buf'" "aligned buf'"
    "contents buf' = contents buf @ u16_bytes (calc (contents buf))"
    by (auto simp: u16_bytes_def)
  moreover from this have "bit_buffer_get_size_bytes buf' = bit_buffer_get_size_bytes buf + 2"
    using length_contents [OF assms(1)] length_contents [of buf'] by (simp add: u16_bytes_def)
  ultimately show ?thesis using append_eq [OF assms(1)] by auto
qed

text \<open>A sent frame is accepted, and trimming it gives back the contents.\<close>

lemma accept_and_trim:
  assumes "bit_buffer_ok buf" and "aligned buf" and "0 < bit_buffer_get_size_bytes buf"
    and "bit_buffer_get_size_bytes buf + 2 \<le> capacity_bytes buf"
  shows "\<exists>buf' buf''. append_crc buf = Some buf' \<and> check_crc buf' = Some True
    \<and> trim_crc buf' = Some buf'' \<and> contents buf'' = contents buf \<and> bit_buffer_ok buf''"
proof -
  let ?n = "bit_buffer_get_size_bytes buf"
  obtain buf' where b: "append_crc buf = Some buf'" "bit_buffer_ok buf'"
    "contents buf' = contents buf @ u16_bytes (calc (contents buf))" "bit_buffer_get_size_bytes buf' = ?n + 2"
    using append_contents [OF assms] by blast
  have len: "length (contents buf) = ?n" using length_contents [OF assms(1)] .
  have "check_crc buf' = Some True"
    using check_eq [OF b(2)] b assms(3) len by (simp add: u16_of_bytes_u16_bytes)
  moreover have cap: "?n + 2 \<le> capacity_bytes buf'" using size_bytes_capacity [OF b(2)] b(4) by simp
  let ?b = "buf'\<lparr>size_bits := ?n * 8\<rparr>"
  have "trim_crc buf' = Some ?b"
    using trim_eq [OF b(2)] b(4) assms(3) cap by (simp add: bit_buffer_set_size_bytes_def BITS_IN_BYTE_def)
  moreover have "bit_buffer_get_size_bytes ?b = ?n" by (rule size_bytes_aligned) simp
  then have "contents ?b = take ?n (contents buf')" using b(4) by (simp add: contents_def)
  then have "contents ?b = contents buf" using b(3) len by simp
  moreover have "bit_buffer_ok ?b" using b(2) cap by (simp add: bit_buffer_ok_def)
  ultimately show ?thesis using b(1) by blast
qed

text \<open>A frame with one damaged byte, in the contents or in the checksum, is rejected.\<close>

lemma reject_damaged_byte:
  assumes "bit_buffer_ok buf" and "aligned buf" and "0 < bit_buffer_get_size_bytes buf"
    and "bit_buffer_get_size_bytes buf + 2 \<le> capacity_bytes buf"
    and sent: "append_crc buf = Some sent" and damaged: "bit_buffer_set_byte sent i b = Some received"
    and b: "b \<noteq> contents sent ! i"
  shows "check_crc received = Some False"
proof -
  let ?n = "bit_buffer_get_size_bytes buf" and ?w = "calc (contents buf)"
  have s: "bit_buffer_ok sent" "contents sent = contents buf @ u16_bytes ?w" "bit_buffer_get_size_bytes sent = ?n + 2"
    using append_contents [OF assms(1-4)] sent by auto
  have len: "length (contents buf) = ?n" using length_contents [OF assms(1)] .
  have i: "i < ?n + 2" and r: "received = sent\<lparr>data := (data sent)[i := b]\<rparr>"
    using damaged s(3) by (auto simp: bit_buffer_set_byte_def wr_def split: if_splits Option.bind_splits)
  have rs: "bit_buffer_get_size_bytes received = ?n + 2" using s(3) by (simp add: r bit_buffer_get_size_bytes_def)
  have rc: "contents received = (contents sent)[i := b]"
    using rs s(3) by (simp add: contents_def r take_update_swap)
  have ok: "bit_buffer_ok received" using s(1) by (simp add: r bit_buffer_ok_def)
  have "calc (take ?n (contents received)) \<noteq> u16_of_bytes (drop ?n (contents received))"
  proof (cases "i < ?n")
    case True
    then have "contents received = (contents buf)[i := b] @ u16_bytes ?w"
      using rc s(2) len by (simp add: list_update_append)
    moreover have "calc ((contents buf)[i := b]) \<noteq> ?w"
      using True b s(2) len by (intro calc_detects) (simp_all add: nth_append)
    ultimately show ?thesis using len by (simp add: u16_of_bytes_u16_bytes)
  next
    case False
    then have "contents received = contents buf @ (u16_bytes ?w)[i - ?n := b]"
      using rc s(2) len by (simp add: list_update_append)
    moreover have "u16_of_bytes ((u16_bytes ?w)[i - ?n := b]) \<noteq> u16_of_bytes (u16_bytes ?w)"
    proof -
      have "i = ?n \<or> i = ?n + 1" using False i by linarith
      then show ?thesis using b s(2) len by (auto simp: u16_bytes_def u16_of_bytes_inject nth_append)
    qed
    ultimately show ?thesis using len by (simp add: u16_of_bytes_u16_bytes)
  qed
  then show ?thesis using check_eq [OF ok] rs assms(3) by simp
qed

end

lemma contents_prefix: "bit_buffer_ok buf \<Longrightarrow> n \<le> bit_buffer_get_size_bytes buf \<Longrightarrow>
    n \<le> length (data buf) \<and> take n (data buf) = take n (contents buf)"
  using size_bytes_capacity [of buf] by (simp add: contents_def bit_buffer_ok_def min_def)

lemma write_last_two:
  assumes "bit_buffer_ok buf" and "2 < bit_buffer_get_size_bytes buf"
  shows "bit_buffer_write_bytes_mid buf [0, 0] (bit_buffer_get_size_bytes buf - 2) 2 =
    Some (drop (bit_buffer_get_size_bytes buf - 2) (contents buf))"
proof -
  obtain k where "bit_buffer_get_size_bytes buf = k + 2" using assms(2) by (metis add.commute less_imp_add_positive)
  then show ?thesis
    using assms(1) size_bytes_capacity [OF assms(1)]
    by (simp add: bit_buffer_write_bytes_mid_def memcpy_def bit_buffer_ok_def contents_def drop_take)
qed

lemma trim_no_wrap:
  assumes "bit_buffer_ok buf" and "2 < bit_buffer_get_size_bytes buf"
  shows "nat ((int (bit_buffer_get_size_bytes buf) - int 2) mod 2 ^ 32) = bit_buffer_get_size_bytes buf - 2"
proof -
  have "int (bit_buffer_get_size_bytes buf) - int 2 = int (bit_buffer_get_size_bytes buf - 2)" using assms(2) by simp
  moreover have "bit_buffer_get_size_bytes buf - 2 < 2 ^ 32"
  proof -
    have "capacity_bytes buf * 8 < 2 ^ 32" using assms(1) by (simp add: bit_buffer_ok_def)
    then show ?thesis using size_bytes_capacity [OF assms(1)] by linarith
  qed
  ultimately show ?thesis by (simp only: nat_int_mod_pow2 mod_less)
qed

lemma poly_top: "bit (0x8408 :: u16) (LENGTH(16) - 1)"
  by simp

lemma NOT_inject: "NOT x = NOT y \<longleftrightarrow> x = (y :: 'a::len word)"
  by (metis bit.double_compl)

definition swap16 :: "u16 \<Rightarrow> u16" where
  "swap16 w = shl w 8 OR shr w 8"

lemma swap16_inject: "swap16 x = swap16 y \<longleftrightarrow> x = y"
proof -
  have "swap16 (swap16 w) = w" for w
    by (rule word_eqI_upto)
      (auto simp: swap16_def bit_simps all_less_16 all_less_8 dest: bit_imp_le_length)
  then show ?thesis by metis
qed

lemma word_reverse_inject: "word_reverse x = word_reverse y \<longleftrightarrow> x = (y :: 'a::len word)"
  by (metis word_rev_rev)

interpretation iso14443: frame_crc "\<lambda>bs. iso14443_crc_calculate type bs (length bs)"
  "iso14443_crc_append type" "iso14443_crc_check type" iso14443_crc_trim
  for type
proof
  fix buf
  assume ok: "bit_buffer_ok buf"
  have len: "length (contents buf) = bit_buffer_get_size_bytes buf" using ok by (rule length_contents)
  show "iso14443_crc_append type buf =
      bit_buffer_append_bytes buf (u16_bytes (iso14443_crc_calculate type (contents buf) (length (contents buf)))) 2"
    using contents_prefix [OF ok order_refl] len
    by (simp add: iso14443_crc_append_def iso14443_eq bit_buffer_get_data_def ISO14443_CRC_SIZE_def Let_def)
  assume n: "2 < bit_buffer_get_size_bytes buf"
  show "iso14443_crc_check type buf = Some
      (iso14443_crc_calculate type (take (bit_buffer_get_size_bytes buf - 2) (contents buf))
         (length (take (bit_buffer_get_size_bytes buf - 2) (contents buf)))
       = u16_of_bytes (drop (bit_buffer_get_size_bytes buf - 2) (contents buf)))"
    using contents_prefix [OF ok, of "bit_buffer_get_size_bytes buf - 2"] len n write_last_two [OF ok n]
    by (simp add: iso14443_crc_check_def iso14443_eq bit_buffer_get_data_def ISO14443_CRC_SIZE_def Let_def)
  show "iso14443_crc_trim buf = bit_buffer_set_size_bytes buf (bit_buffer_get_size_bytes buf - 2)"
    using n by (simp add: iso14443_crc_trim_def ISO14443_CRC_SIZE_def Let_def)
next
  fix i and bs :: "u8 list" and b
  assume "i < length bs" "b \<noteq> bs ! i"
  then show "iso14443_crc_calculate type (bs[i := b]) (length (bs[i := b])) \<noteq> iso14443_crc_calculate type bs (length bs)"
    using crc_refl_detects [OF poly_top, of i bs b] by (simp add: iso14443_eq NOT_inject)
qed

interpretation iso13239: frame_crc "\<lambda>bs. iso13239_crc_calculate type bs (length bs)"
  "iso13239_crc_append type" "iso13239_crc_check type" iso13239_crc_trim
  for type
proof
  fix buf
  assume ok: "bit_buffer_ok buf"
  have len: "length (contents buf) = bit_buffer_get_size_bytes buf" using ok by (rule length_contents)
  show "iso13239_crc_append type buf =
      bit_buffer_append_bytes buf (u16_bytes (iso13239_crc_calculate type (contents buf) (length (contents buf)))) 2"
    using contents_prefix [OF ok order_refl] len
    by (simp add: iso13239_crc_append_def iso13239_eq bit_buffer_get_data_def ISO13239_CRC_SIZE_def Let_def)
  assume n: "2 < bit_buffer_get_size_bytes buf"
  show "iso13239_crc_check type buf = Some
      (iso13239_crc_calculate type (take (bit_buffer_get_size_bytes buf - 2) (contents buf))
         (length (take (bit_buffer_get_size_bytes buf - 2) (contents buf)))
       = u16_of_bytes (drop (bit_buffer_get_size_bytes buf - 2) (contents buf)))"
    using contents_prefix [OF ok, of "bit_buffer_get_size_bytes buf - 2"] len n write_last_two [OF ok n]
    by (simp add: iso13239_crc_check_def iso13239_eq bit_buffer_get_data_def ISO13239_CRC_SIZE_def Let_def)
  show "iso13239_crc_trim buf = bit_buffer_set_size_bytes buf (bit_buffer_get_size_bytes buf - 2)"
    unfolding iso13239_crc_trim_def ISO13239_CRC_SIZE_def Let_def trim_no_wrap [OF ok n] ..
next
  fix i and bs :: "u8 list" and b
  assume "i < length bs" "b \<noteq> bs ! i"
  then show "iso13239_crc_calculate type (bs[i := b]) (length (bs[i := b])) \<noteq> iso13239_crc_calculate type bs (length bs)"
    using crc_refl_detects [OF poly_top, of i bs b] by (simp add: iso13239_eq NOT_inject)
qed

interpretation felica: frame_crc "\<lambda>bs. felica_crc_calculate bs (length bs)"
  felica_crc_append felica_crc_check felica_crc_trim
proof
  fix buf
  assume ok: "bit_buffer_ok buf"
  have len: "length (contents buf) = bit_buffer_get_size_bytes buf" using ok by (rule length_contents)
  show "felica_crc_append buf =
      bit_buffer_append_bytes buf (u16_bytes (felica_crc_calculate (contents buf) (length (contents buf)))) 2"
    using contents_prefix [OF ok order_refl] len
    by (simp add: felica_crc_append_def felica_eq bit_buffer_get_data_def FELICA_CRC_SIZE_def Let_def)
  assume n: "2 < bit_buffer_get_size_bytes buf"
  show "felica_crc_check buf = Some
      (felica_crc_calculate (take (bit_buffer_get_size_bytes buf - 2) (contents buf))
         (length (take (bit_buffer_get_size_bytes buf - 2) (contents buf)))
       = u16_of_bytes (drop (bit_buffer_get_size_bytes buf - 2) (contents buf)))"
    using contents_prefix [OF ok, of "bit_buffer_get_size_bytes buf - 2"] len n write_last_two [OF ok n]
    by (simp add: felica_crc_check_def felica_eq bit_buffer_get_data_def FELICA_CRC_SIZE_def Let_def)
  show "felica_crc_trim buf = bit_buffer_set_size_bytes buf (bit_buffer_get_size_bytes buf - 2)"
    unfolding felica_crc_trim_def FELICA_CRC_SIZE_def Let_def trim_no_wrap [OF ok n] ..
next
  fix i and bs :: "u8 list" and b
  assume "i < length bs" "b \<noteq> bs ! i"
  then show "felica_crc_calculate (bs[i := b]) (length (bs[i := b])) \<noteq> felica_crc_calculate bs (length bs)"
    using crc_refl_detects [OF poly_top, of i "map word_reverse bs" "word_reverse b"]
    by (simp add: felica_eq Let_def map_update word_reverse_inject swap16_inject flip: swap16_def)
qed

section \<open>Properties\<close>

text \<open>
  C26. The nibble-table routine is CRC-32 (reflected polynomial \<open>0xedb88320\<close>, complemented at both
  ends), and it may be fed in pieces: continuing with the checksum of a first buffer gives the
  checksum of the concatenation.
\<close>

theorem crc32_calc_buffer_correct:
  "crc32_calc_buffer 0 (xs @ ys) (length xs + length ys) = NOT (crc_refl 0xedb88320 (NOT 0) (xs @ ys)) \<and>
   crc32_calc_buffer (crc32_calc_buffer 0 xs (length xs)) ys (length ys) =
     crc32_calc_buffer 0 (xs @ ys) (length xs + length ys)"
  by (simp add: crc32_eq crc_refl_append)

lemma crc32_file_loop_eq:
  assumes "\<forall>block \<in> set reads. block \<noteq> []" and "fptr + length (concat reads) = file_size" and "file_size < 2 ^ 32"
  shows "fst (crc32_file_loop file_size fptr reads crc progress) =
    NOT (crc_refl 0xedb88320 (NOT crc) (concat reads))"
  using assms
proof (induction reads arbitrary: fptr crc progress)
  case Nil
  then show ?case by simp
next
  case (Cons block reads)
  then have b: "block \<noteq> []" "fptr < file_size" by (auto simp: neq_Nil_conv)
  have m: "(fptr + length block) mod 2 ^ 32 = fptr + length block" using Cons.prems(2,3) by simp
  show ?case
    using Cons.IH [of "fptr + length block"] Cons.prems b
    unfolding crc32_file_loop.simps Let_def m by (simp add: crc32_eq crc_refl_append add.assoc)
qed

text \<open>
  C27. The checksum of a file does not depend on how the storage splits it into blocks: it is the
  CRC-32 of the whole contents.
\<close>

theorem crc32_calc_file_correct:
  assumes "concat reads = file" and "\<forall>block \<in> set reads. block \<noteq> []" and "length file < 2 ^ 32"
  shows "fst (crc32_calc_file (length file) reads) = crc32_calc_buffer 0 file (length file)"
  using crc32_file_loop_eq [OF assms(2), of 0 "length file" 0 "[]"] assms(1,3)
  by (simp add: crc32_calc_file_def crc32_eq)

theorem crc32_calc_file_correct_witness:
  "fst (crc32_calc_file 3 [[1, 2], [3]]) = crc32_calc_buffer 0 [1, 2, 3] 3"
  using crc32_calc_file_correct [of "[[1, 2], [3]]" "[1, 2, 3]"] by (simp add: numeral_3_eq_3)

text \<open>
  C28. The five hand-written checksum loops compute what the generic routines of \<^verbatim>\<open>bit_lib\<close> compute:
  ISO 14443 type A is CRC-16 with polynomial \<open>0x1021\<close>, initial value \<open>0xC6C6\<close> and both reflections;
  type B and ISO 13239 are the same check with initial value and final complement \<open>0xFFFF\<close>;
  Picopass differs in the initial value; FeliCa is the unreflected form with its bytes swapped;
  and the Maxim checksum is CRC-8 with polynomial \<open>0x31\<close>, reflected.
\<close>

theorem checksum_routines_agree:
  assumes "n \<le> length bytes"
  shows "iso14443_crc_calculate Iso14443CrcTypeA bytes n = bit_lib_crc16 bytes n 0x1021 0xC6C6 True True 0 \<and>
    iso14443_crc_calculate Iso14443CrcTypeB bytes n = bit_lib_crc16 bytes n 0x1021 0xFFFF True True 0xFFFF \<and>
    iso13239_crc_calculate Iso13239CrcTypeDefault bytes n = bit_lib_crc16 bytes n 0x1021 0xFFFF True True 0xFFFF \<and>
    iso13239_crc_calculate Iso13239CrcTypePicopass bytes n = bit_lib_crc16 bytes n 0x1021 0x4807 True True 0 \<and>
    felica_crc_calculate bytes n = swap16 (bit_lib_crc16 bytes n 0x1021 0 False False 0) \<and>
    ucast (maxim_crc8 bytes n init) = bit_lib_crc8 bytes n 0x31 (bit_lib_reverse_8_fast init) True True 0"
proof -
  have r: "word_reverse (0xC6C6 :: u16) = 0x6363" "word_reverse (0xFFFF :: u16) = 0xFFFF"
    "word_reverse (0x4807 :: u16) = 0xE012" "word_reverse (0 :: u16) = 0"
    by (rule word_eqI_upto, simp add: bit_word_reverse_iff all_less_16 all_less_8)+
  have x: "x XOR 0xFFFF = NOT x" for x :: u16
    by (rule word_eqI_upto) (simp add: bit_simps all_less_16 all_less_8)
  show ?thesis
    using assms
    by (simp add: iso14443_eq iso13239_eq felica_eq maxim_eq crc16_eq crc8_eq reverse_8_fast_eq r x swap16_def Let_def)
qed

theorem checksum_routines_agree_witness:
  "iso14443_crc_calculate Iso14443CrcTypeB [0x05, 0x00, 0x08] 3 =
     iso13239_crc_calculate Iso13239CrcTypeDefault [0x05, 0x00, 0x08] 3 \<and>
   iso14443_crc_calculate Iso14443CrcTypeA [0x26, 0x01] 2 = bit_lib_crc16 [0x26, 0x01] 2 0x1021 0xC6C6 True True 0"
  using checksum_routines_agree [of 3 "[0x05, 0x00, 0x08]"] checksum_routines_agree [of 2 "[0x26, 0x01]"] by simp

text \<open>
  C29. Frames of all three formats: a byte-aligned, non-empty buffer with room for the checksum is
  accepted after appending it, trimming restores the contents, and a frame in which any single
  byte was replaced, of the contents or of the checksum, is rejected.
\<close>

theorem nfc_frame_crc_contract:
  assumes "bit_buffer_ok buf" and "aligned buf" and "0 < bit_buffer_get_size_bytes buf"
    and "bit_buffer_get_size_bytes buf + 2 \<le> capacity_bytes buf"
    and "(append_crc, check_crc, trim_crc) \<in>
      {(iso14443_crc_append ta, iso14443_crc_check ta, iso14443_crc_trim),
       (iso13239_crc_append tb, iso13239_crc_check tb, iso13239_crc_trim),
       (felica_crc_append, felica_crc_check, felica_crc_trim)}"
  shows "\<exists>sent trimmed. append_crc buf = Some sent \<and> check_crc sent = Some True
    \<and> trim_crc sent = Some trimmed \<and> contents trimmed = contents buf
    \<and> (\<forall>i b received. bit_buffer_set_byte sent i b = Some received \<and> b \<noteq> contents sent ! i
         \<longrightarrow> check_crc received = Some False)"
proof -
  note pre = assms(1-4)
  from assms(5) consider
      "append_crc = iso14443_crc_append ta" "check_crc = iso14443_crc_check ta" "trim_crc = iso14443_crc_trim"
    | "append_crc = iso13239_crc_append tb" "check_crc = iso13239_crc_check tb" "trim_crc = iso13239_crc_trim"
    | "append_crc = felica_crc_append" "check_crc = felica_crc_check" "trim_crc = felica_crc_trim" by auto
  then show ?thesis
  proof cases
    case 1
    then show ?thesis
      using iso14443.accept_and_trim [OF pre, of ta] iso14443.reject_damaged_byte [OF pre, of ta] by metis
  next
    case 2
    then show ?thesis
      using iso13239.accept_and_trim [OF pre, of tb] iso13239.reject_damaged_byte [OF pre, of tb] by metis
  next
    case 3
    then show ?thesis
      using felica.accept_and_trim [OF pre] felica.reject_damaged_byte [OF pre] by metis
  qed
qed

theorem nfc_frame_crc_contract_witness:
  "\<exists>sent. iso14443_crc_append Iso14443CrcTypeA
       \<lparr>data = [0x30, 0x04, 0, 0], parity = [0], capacity_bytes = 4, size_bits = 16\<rparr> = Some sent
    \<and> iso14443_crc_check Iso14443CrcTypeA sent = Some True"
proof -
  let ?buf = "\<lparr>data = [0x30, 0x04, 0, 0], parity = [0], capacity_bytes = 4, size_bits = 16\<rparr>"
  have "bit_buffer_ok ?buf" "aligned ?buf" "bit_buffer_get_size_bytes ?buf = 2"
    by (simp_all add: bit_buffer_ok_def aligned_def bit_buffer_get_size_bytes_def BITS_IN_BYTE_def)
  then show ?thesis
    using nfc_frame_crc_contract [of ?buf "iso14443_crc_append Iso14443CrcTypeA" "iso14443_crc_check Iso14443CrcTypeA"
        iso14443_crc_trim Iso14443CrcTypeA Iso13239CrcTypeDefault] by auto
qed

end
