(* ===== verification/Crypto1.thy ===== *)
theory Crypto1
  imports Checksums
begin

text \<open>
  \<^verbatim>\<open>lib/nfc/helpers/crypto1.c\<close> and \<^verbatim>\<open>lib/nfc/helpers/nfc_util.c\<close>: the stream cipher of MIFARE Classic.
  The register is split into two words, \<open>odd\<close> and \<open>even\<close>, of which the low 24 bits matter;
  the code shifts without masking, so the upper bits collect the past. Arguments that the code
  reads with \<^verbatim>\<open>!!\<close> and results that are a single bit are booleans.
\<close>

section \<open>Parity helpers\<close>

definition nfc_util_odd_byte_parity :: "u8 list" where
  "nfc_util_odd_byte_parity =
     [1, 0, 0, 1, 0, 1, 1, 0, 0, 1, 1, 0, 1, 0, 0, 1, 0, 1, 1, 0, 1, 0, 0, 1, 1, 0, 0, 1, 0, 1, 1, 0,
      0, 1, 1, 0, 1, 0, 0, 1, 1, 0, 0, 1, 0, 1, 1, 0, 1, 0, 0, 1, 0, 1, 1, 0, 0, 1, 1, 0, 1, 0, 0, 1,
      0, 1, 1, 0, 1, 0, 0, 1, 1, 0, 0, 1, 0, 1, 1, 0, 1, 0, 0, 1, 0, 1, 1, 0, 0, 1, 1, 0, 1, 0, 0, 1,
      1, 0, 0, 1, 0, 1, 1, 0, 0, 1, 1, 0, 1, 0, 0, 1, 0, 1, 1, 0, 1, 0, 0, 1, 1, 0, 0, 1, 0, 1, 1, 0,
      0, 1, 1, 0, 1, 0, 0, 1, 1, 0, 0, 1, 0, 1, 1, 0, 1, 0, 0, 1, 0, 1, 1, 0, 0, 1, 1, 0, 1, 0, 0, 1,
      1, 0, 0, 1, 0, 1, 1, 0, 0, 1, 1, 0, 1, 0, 0, 1, 0, 1, 1, 0, 1, 0, 0, 1, 1, 0, 0, 1, 0, 1, 1, 0,
      1, 0, 0, 1, 0, 1, 1, 0, 0, 1, 1, 0, 1, 0, 0, 1, 0, 1, 1, 0, 1, 0, 0, 1, 1, 0, 0, 1, 0, 1, 1, 0,
      0, 1, 1, 0, 1, 0, 0, 1, 1, 0, 0, 1, 0, 1, 1, 0, 1, 0, 0, 1, 0, 1, 1, 0, 0, 1, 1, 0, 1, 0, 0, 1]"

definition nfc_util_even_parity8 :: "u8 \<Rightarrow> u8" where
  "nfc_util_even_parity8 b = of_bool (nfc_util_odd_byte_parity ! unat b = 0)"

definition nfc_util_even_parity32 :: "u32 \<Rightarrow> bool" where
  "nfc_util_even_parity32 w = builtin_parity w"

definition nfc_util_odd_parity8 :: "u8 \<Rightarrow> u8" where
  "nfc_util_odd_parity8 b = nfc_util_odd_byte_parity ! unat b"

text \<open>The loop of \<^verbatim>\<open>nfc_util_odd_parity\<close>: parity bits of a byte string, most significant bit first.\<close>

fun nfc_util_odd_parity_loop :: "u8 list \<Rightarrow> u8 list \<Rightarrow> nat \<Rightarrow> u8 \<Rightarrow> nat \<Rightarrow> u8 list option" where
  "nfc_util_odd_parity_loop [] dst pos par b = (if b \<noteq> 0 then wr dst pos par else Some dst)"
| "nfc_util_odd_parity_loop (x # src) dst pos par b =
     (let par = par OR shl (nfc_util_odd_parity8 x) (7 - b); b = b + 1
      in if b = 8 then do {
           dst \<leftarrow> wr dst pos par;
           nfc_util_odd_parity_loop src dst (pos + 1) 0 0
         } else nfc_util_odd_parity_loop src dst pos par b)"

definition nfc_util_odd_parity :: "u8 list \<Rightarrow> u8 list \<Rightarrow> nat \<Rightarrow> u8 list option" where
  "nfc_util_odd_parity src dst len = do {
     furi_check (len \<le> length src);
     nfc_util_odd_parity_loop (take len src) dst 0 0 0
   }"

section \<open>The cipher\<close>

record Crypto1 =
  odd_reg :: u32
  even_reg :: u32

definition SWAPENDIAN :: "u32 \<Rightarrow> u32" where
  "SWAPENDIAN x =
     (let x = (shr x 8 AND 0xff00ff) OR shl (x AND 0xff00ff) 8
      in shr x 16 OR shl x 16)"

definition LF_POLY_ODD :: u32 where "LF_POLY_ODD = 0x29CE5C"
definition LF_POLY_EVEN :: u32 where "LF_POLY_EVEN = 0x870804"

text \<open>\<open>n ^ 24\<close> for an index below 32 exchanges the bytes of a word and keeps the bit within its byte.\<close>

definition be_index :: "nat \<Rightarrow> nat" where
  "be_index n = n XOR 24"

definition BEBIT :: "u32 \<Rightarrow> nat \<Rightarrow> bool" where
  "BEBIT x n = bit x (be_index n)"

definition crypto1_alloc :: Crypto1 where
  "crypto1_alloc = \<lparr>odd_reg = 0, even_reg = 0\<rparr>"

definition crypto1_reset :: "Crypto1 \<Rightarrow> Crypto1" where
  "crypto1_reset crypto1 = crypto1\<lparr>even_reg := 0, odd_reg := 0\<rparr>"

text \<open>The loop index runs through \<open>47, 45, \<dots>, 1\<close>.\<close>

definition crypto1_init :: "u64 \<Rightarrow> Crypto1" where
  "crypto1_init key =
     for_loop 0 24
       (\<lambda>k crypto1. let i = 47 - 2 * k
          in \<lparr>odd_reg = shl (odd_reg crypto1) 1 OR of_bool (bit key ((i - 1) XOR 7)),
              even_reg = shl (even_reg crypto1) 1 OR of_bool (bit key (i XOR 7))\<rparr>)
       \<lparr>odd_reg = 0, even_reg = 0\<rparr>"

definition crypto1_filter :: "u32 \<Rightarrow> bool" where
  "crypto1_filter x =
     (let out = shr 0xf22c0 (unat (x AND 0xf)) AND 16;
          out = out OR (shr 0x6c9c0 (unat (shr x 4 AND 0xf)) AND 8);
          out = out OR (shr 0x3c8b0 (unat (shr x 8 AND 0xf)) AND 4);
          out = out OR (shr 0x1e458 (unat (shr x 12 AND 0xf)) AND 2);
          out = out OR (shr 0x0d938 (unat (shr x 16 AND 0xf)) AND (1 :: u32))
      in bit (0xEC57E80A :: u32) (unat out))"

definition crypto1_bit :: "Crypto1 \<Rightarrow> bool \<Rightarrow> bool \<Rightarrow> bool \<times> Crypto1" where
  "crypto1_bit crypto1 inb is_encrypted =
     (let out = crypto1_filter (odd_reg crypto1);
          feed = of_bool (out \<and> is_encrypted);
          feed = feed XOR of_bool inb;
          feed = feed XOR (LF_POLY_ODD AND odd_reg crypto1);
          feed = feed XOR (LF_POLY_EVEN AND even_reg crypto1);
          even' = shl (even_reg crypto1) 1 OR of_bool (nfc_util_even_parity32 feed)
      in (out, \<lparr>odd_reg = even', even_reg = odd_reg crypto1\<rparr>))"

text \<open>Feeding a sequence of bits; byte and word are the instances of the two loops.\<close>

fun crypto1_bits :: "Crypto1 \<Rightarrow> bool list \<Rightarrow> bool \<Rightarrow> bool list \<times> Crypto1" where
  "crypto1_bits s [] enc = ([], s)"
| "crypto1_bits s (b # bs) enc =
     (let (out, s') = crypto1_bit s b enc; (outs, s'') = crypto1_bits s' bs enc in (out # outs, s''))"

definition crypto1_byte :: "Crypto1 \<Rightarrow> u8 \<Rightarrow> bool \<Rightarrow> u8 \<times> Crypto1" where
  "crypto1_byte crypto1 inb is_encrypted =
     for_loop 0 8
       (\<lambda>i (out, crypto1). let (b, crypto1) = crypto1_bit crypto1 (bit inb i) is_encrypted
                           in (out OR shl (of_bool b) i, crypto1)) (0, crypto1)"

definition crypto1_word :: "Crypto1 \<Rightarrow> u32 \<Rightarrow> bool \<Rightarrow> u32 \<times> Crypto1" where
  "crypto1_word crypto1 inw is_encrypted =
     for_loop 0 32
       (\<lambda>i (out, crypto1). let (b, crypto1) = crypto1_bit crypto1 (BEBIT inw i) is_encrypted
                           in (out OR shl (of_bool b) (be_index i), crypto1)) (0, crypto1)"

definition prng_step :: "u32 \<Rightarrow> u32" where
  "prng_step x = shr x 1 OR shl (shr x 16 XOR shr x 18 XOR shr x 19 XOR shr x 21) 31"

definition crypto1_prng_successor :: "u32 \<Rightarrow> nat \<Rightarrow> u32" where
  "crypto1_prng_successor x n = SWAPENDIAN ((prng_step ^^ n) (SWAPENDIAN x))"

text \<open>Decryption into \<open>out\<close>: fewer than eight bits are taken to be the four of an acknowledgement.\<close>

fun crypto1_decrypt_loop :: "u8 list \<Rightarrow> nat list \<Rightarrow> Crypto1 \<times> BitBuffer \<Rightarrow> (Crypto1 \<times> BitBuffer) option" where
  "crypto1_decrypt_loop enc [] st = Some st"
| "crypto1_decrypt_loop enc (i # is) (crypto, out) = do {
     let (ks, crypto) = crypto1_byte crypto 0 False;
     e \<leftarrow> rd enc i;
     out \<leftarrow> bit_buffer_set_byte out i (ks XOR e);
     crypto1_decrypt_loop enc is (crypto, out)
   }"

definition crypto1_decrypt :: "Crypto1 \<Rightarrow> BitBuffer \<Rightarrow> BitBuffer \<Rightarrow> (Crypto1 \<times> BitBuffer) option" where
  "crypto1_decrypt crypto buff out = do {
     let bits = bit_buffer_get_size buff;
     out \<leftarrow> bit_buffer_set_size out bits;
     let encrypted_data = bit_buffer_get_data buff;
     if bits < 8 then do {
       encrypted_byte \<leftarrow> rd encrypted_data 0;
       let (decrypted_byte, crypto) = for_loop 0 4
         (\<lambda>i (d, crypto). let (b, crypto) = crypto1_bit crypto False False
                          in (d OR shl (of_bool (b \<noteq> bit encrypted_byte i)) i, crypto)) (0, crypto);
       out \<leftarrow> bit_buffer_set_byte out 0 decrypted_byte;
       Some (crypto, out)
     } else crypto1_decrypt_loop encrypted_data [0..<bits div 8] (crypto, out)
   }"

text \<open>\<open>keystream\<close> is the optional array the plaintext is mixed into the register with.\<close>

fun crypto1_encrypt_loop ::
  "u8 list option \<Rightarrow> u8 list \<Rightarrow> nat list \<Rightarrow> Crypto1 \<times> BitBuffer \<Rightarrow> (Crypto1 \<times> BitBuffer) option" where
  "crypto1_encrypt_loop keystream plain [] st = Some st"
| "crypto1_encrypt_loop keystream plain (i # is) (crypto, out) = do {
     k \<leftarrow> (case keystream of Some ks \<Rightarrow> rd ks i | None \<Rightarrow> Some 0);
     let (ks, crypto) = crypto1_byte crypto k False;
     p \<leftarrow> rd plain i;
     let parity_bit = (crypto1_filter (odd_reg crypto) \<noteq> (nfc_util_odd_parity8 p \<noteq> 0));
     out \<leftarrow> bit_buffer_set_byte_with_parity out i (ks XOR p) parity_bit;
     crypto1_encrypt_loop keystream plain is (crypto, out)
   }"

definition crypto1_encrypt ::
  "Crypto1 \<Rightarrow> u8 list option \<Rightarrow> BitBuffer \<Rightarrow> BitBuffer \<Rightarrow> (Crypto1 \<times> BitBuffer) option" where
  "crypto1_encrypt crypto keystream buff out = do {
     let bits = bit_buffer_get_size buff;
     out \<leftarrow> bit_buffer_set_size out bits;
     let plain_data = bit_buffer_get_data buff;
     if bits < 8 then do {
       p \<leftarrow> rd plain_data 0;
       let (encrypted_byte, crypto) = for_loop 0 bits
         (\<lambda>i (e, crypto). let (b, crypto) = crypto1_bit crypto False False
                          in (e OR shl (of_bool (b \<noteq> bit p i)) i, crypto)) (0, crypto);
       out \<leftarrow> bit_buffer_set_byte out 0 encrypted_byte;
       Some (crypto, out)
     } else crypto1_encrypt_loop keystream plain_data [0..<bits div 8] (crypto, out)
   }"

text \<open>The reader's answer to a nonce: encrypted reader nonce, then the encrypted response.\<close>

fun crypto1_nr_loop :: "nat list \<Rightarrow> Crypto1 \<times> u8 list \<times> BitBuffer \<Rightarrow> (Crypto1 \<times> u8 list \<times> BitBuffer) option" where
  "crypto1_nr_loop [] st = Some st"
| "crypto1_nr_loop (i # is) (crypto, nr, out) = do {
     n \<leftarrow> rd nr i;
     let (ks, crypto) = crypto1_byte crypto n False;
     let byte = ks XOR n;
     let parity_bit = (crypto1_filter (odd_reg crypto) \<noteq> (nfc_util_odd_parity8 n \<noteq> 0));
     out \<leftarrow> bit_buffer_set_byte_with_parity out i byte parity_bit;
     nr \<leftarrow> wr nr i byte;
     crypto1_nr_loop is (crypto, nr, out)
   }"

fun crypto1_ar_loop :: "nat list \<Rightarrow> Crypto1 \<times> u32 \<times> BitBuffer \<Rightarrow> (Crypto1 \<times> u32 \<times> BitBuffer) option" where
  "crypto1_ar_loop [] st = Some st"
| "crypto1_ar_loop (i # is) (crypto, nt_num, out) = do {
     let nt_num = crypto1_prng_successor nt_num 8;
     let (ks, crypto) = crypto1_byte crypto 0 False;
     let byte = ks XOR ucast nt_num;
     let parity_bit = (crypto1_filter (odd_reg crypto) \<noteq> (nfc_util_odd_parity8 (ucast nt_num) \<noteq> 0));
     out \<leftarrow> bit_buffer_set_byte_with_parity out i byte parity_bit;
     crypto1_ar_loop is (crypto, nt_num, out)
   }"

definition crypto1_encrypt_reader_nonce ::
  "u64 \<Rightarrow> u32 \<Rightarrow> u8 list \<Rightarrow> u8 list \<Rightarrow> BitBuffer \<Rightarrow> bool \<Rightarrow> (Crypto1 \<times> u8 list \<times> BitBuffer) option" where
  "crypto1_encrypt_reader_nonce key cuid nt nr out is_nested = do {
     out \<leftarrow> bit_buffer_set_size_bytes out 8;
     nt64 \<leftarrow> bit_lib_bytes_to_num_be nt 4;
     let nt_num = (ucast nt64 :: u32);
     let crypto = crypto1_init key;
     let (nt_num, crypto) =
       (if is_nested then let (ks, crypto) = crypto1_word crypto (nt_num XOR cuid) True in (ks XOR nt_num, crypto)
        else (nt_num, snd (crypto1_word crypto (nt_num XOR cuid) False)));
     (crypto, nr, out) \<leftarrow> crypto1_nr_loop [0..<4] (crypto, nr, out);
     let nt_num = crypto1_prng_successor nt_num 32;
     (crypto, nt_num, out) \<leftarrow> crypto1_ar_loop [4..<8] (crypto, nt_num, out);
     Some (crypto, nr, out)
   }"

definition lfsr_rollback_bit :: "Crypto1 \<Rightarrow> bool \<Rightarrow> bool \<Rightarrow> bool \<times> Crypto1" where
  "lfsr_rollback_bit crypto1 inb fb =
     (let t = odd_reg crypto1 AND 0xffffff;
          odd' = even_reg crypto1;
          out = t AND 1;
          even' = shr t 1;
          out = out XOR (LF_POLY_EVEN AND even');
          out = out XOR (LF_POLY_ODD AND odd');
          out = out XOR of_bool inb;
          ret = crypto1_filter odd';
          out = out XOR of_bool (ret \<and> fb);
          even' = even' OR shl (of_bool (nfc_util_even_parity32 out)) 23
      in (ret, \<lparr>odd_reg = odd', even_reg = even'\<rparr>))"

text \<open>The loop index runs down from 31 to 0.\<close>

definition crypto1_lfsr_rollback_word :: "Crypto1 \<Rightarrow> u32 \<Rightarrow> bool \<Rightarrow> u32 \<times> Crypto1" where
  "crypto1_lfsr_rollback_word crypto1 inw fb =
     fold (\<lambda>i (ret, crypto1). let (b, crypto1) = lfsr_rollback_bit crypto1 (BEBIT inw i) fb
                              in (ret OR shl (of_bool b) (be_index i), crypto1)) (rev [0..<32]) (0, crypto1)"

definition crypto1_nonce_matches_encrypted_parity_bits :: "u32 \<Rightarrow> u32 \<Rightarrow> u8 \<Rightarrow> bool" where
  "crypto1_nonce_matches_encrypted_parity_bits nt ks nt_par_enc \<longleftrightarrow>
     nfc_util_even_parity8 (ucast (shr nt 24 AND 0xFF)) = (shr nt_par_enc 3 AND 1) XOR of_bool (bit ks 16) \<and>
     nfc_util_even_parity8 (ucast (shr nt 16 AND 0xFF)) = (shr nt_par_enc 2 AND 1) XOR of_bool (bit ks 8) \<and>
     nfc_util_even_parity8 (ucast (shr nt 8 AND 0xFF)) = (shr nt_par_enc 1 AND 1) XOR of_bool (bit ks 0)"

definition swap_halves :: "u16 \<Rightarrow> u16" where
  "swap_halves x = shl (x AND 0xff) 8 OR shr x 8"

definition weak_prng_step :: "u16 \<Rightarrow> u16" where
  "weak_prng_step x = shr x 1 OR shl (x XOR shr x 2 XOR shr x 3 XOR shr x 5) 15"

definition crypto1_is_weak_prng_nonce :: "u32 \<Rightarrow> bool" where
  "crypto1_is_weak_prng_nonce nonce =
     (if nonce = 0 then False
      else let x = ucast (shr nonce 16) :: u16;
               x = swap_halves x;
               x = (weak_prng_step ^^ 16) x;
               x = swap_halves x
           in (ucast x :: u32) = nonce AND 0xFFFF)"

definition crypto1_decrypt_nt_enc :: "u32 \<Rightarrow> u32 \<Rightarrow> u8 list \<Rightarrow> u32 option" where
  "crypto1_decrypt_nt_enc cuid nt_enc known_key = do {
     known_key_int \<leftarrow> bit_lib_bytes_to_num_be known_key 6;
     let crypto_temp = snd (crypto1_word (crypto1_init known_key_int) (nt_enc XOR cuid) True);
     Some (nt_enc XOR fst (crypto1_lfsr_rollback_word crypto_temp (nt_enc XOR cuid) True))
   }"

section \<open>Parity\<close>

lemma odd_byte_parity_table: "n < 256 \<Longrightarrow> nfc_util_odd_byte_parity ! n = of_bool (\<not> builtin_parity (of_nat n :: u8))"
proof -
  have "list_all (\<lambda>n. nfc_util_odd_byte_parity ! n = of_bool (\<not> builtin_parity (of_nat n :: u8))) [0..<256]"
    by code_simp
  then show "n < 256 \<Longrightarrow> ?thesis" by (simp add: list_all_iff)
qed

section \<open>The register\<close>

text \<open>Only the low 24 bits of the two words influence anything.\<close>

definition norm :: "Crypto1 \<Rightarrow> Crypto1" where
  "norm s = \<lparr>odd_reg = take_bit 24 (odd_reg s), even_reg = take_bit 24 (even_reg s)\<rparr>"

lemma and_take_bit:
  assumes "\<And>n. bit m n \<Longrightarrow> n < k"
  shows "m AND take_bit k x = m AND (x :: 'a::len word)"
  by (rule bit_word_eqI) (use assms in \<open>auto simp: bit_simps\<close>)

lemma poly_bits: "bit LF_POLY_ODD n \<Longrightarrow> n < 24" "bit LF_POLY_EVEN n \<Longrightarrow> n < 24"
proof -
  have "unat LF_POLY_ODD < 2 ^ 24" "unat LF_POLY_EVEN < 2 ^ 24" by (simp_all add: LF_POLY_ODD_def LF_POLY_EVEN_def)
  then show "bit LF_POLY_ODD n \<Longrightarrow> n < 24" "bit LF_POLY_EVEN n \<Longrightarrow> n < 24"
    using unat_less_bitD not_less by blast+
qed

lemma poly_take_bit [simp]:
  "LF_POLY_ODD AND take_bit 24 x = LF_POLY_ODD AND x" "LF_POLY_EVEN AND take_bit 24 x = LF_POLY_EVEN AND x"
  by (rule and_take_bit, erule poly_bits)+

lemma nibble_take_bit: "n + 4 \<le> k \<Longrightarrow> shr (take_bit k x) n AND 0xf = shr (x :: u32) n AND 0xf"
  by (rule bit_word_eqI) (auto simp: bit_simps bit_0xF)

lemma filter_take_bit [simp]: "crypto1_filter (take_bit 24 x) = crypto1_filter x"
  using nibble_take_bit [of 0 24 x] nibble_take_bit [of 4 24 x] nibble_take_bit [of 8 24 x]
    nibble_take_bit [of 12 24 x] nibble_take_bit [of 16 24 x]
  by (simp add: crypto1_filter_def Let_def)

lemma crypto1_bit_norm:
  "fst (crypto1_bit (norm s) b e) = fst (crypto1_bit s b e)"
  "norm (snd (crypto1_bit (norm s) b e)) = norm (snd (crypto1_bit s b e))"
proof -
  have "take_bit 24 (shl (take_bit 24 x) 1 OR of_bool p) = take_bit 24 (shl x 1 OR of_bool p)" for x :: u32 and p
    by (rule bit_word_eqI) (auto simp: bit_simps)
  then show "fst (crypto1_bit (norm s) b e) = fst (crypto1_bit s b e)"
    "norm (snd (crypto1_bit (norm s) b e)) = norm (snd (crypto1_bit s b e))"
    by (simp_all add: crypto1_bit_def norm_def Let_def)
qed

lemma rollback_bit_norm:
  "fst (lfsr_rollback_bit (norm s) b e) = fst (lfsr_rollback_bit s b e)"
  "norm (snd (lfsr_rollback_bit (norm s) b e)) = norm (snd (lfsr_rollback_bit s b e))"
proof -
  have "take_bit 24 x AND 0xffffff = x AND (0xffffff :: u32)" for x
  proof -
    have "(0xffffff :: u32) = mask 24" by (simp add: mask_eq_exp_minus_1)
    then show ?thesis by (simp add: take_bit_eq_mask and.assoc)
  qed
  then show "fst (lfsr_rollback_bit (norm s) b e) = fst (lfsr_rollback_bit s b e)"
    "norm (snd (lfsr_rollback_bit (norm s) b e)) = norm (snd (lfsr_rollback_bit s b e))"
    by (simp_all add: lfsr_rollback_bit_def norm_def Let_def)
qed

text \<open>One step back undoes one step forward.\<close>

lemma rollback_bit:
  "lfsr_rollback_bit (snd (crypto1_bit s b e)) b e =
     (fst (crypto1_bit s b e), s\<lparr>even_reg := take_bit 24 (even_reg s)\<rparr>)"
proof -
  let ?o = "odd_reg s" and ?v = "even_reg s" and ?f = "crypto1_filter (odd_reg s)"
  define p where "p = nfc_util_even_parity32 (of_bool (?f \<and> e) XOR of_bool b XOR (LF_POLY_ODD AND ?o) XOR (LF_POLY_EVEN AND ?v))"
  have p: "p \<longleftrightarrow> ((((?f \<and> e) \<noteq> b) \<noteq> builtin_parity (LF_POLY_ODD AND ?o)) \<noteq> builtin_parity (LF_POLY_EVEN AND ?v))"
    by (auto simp: p_def nfc_util_even_parity32_def parity_xor)
  let ?t = "(shl ?v 1 OR of_bool p) AND 0xffffff"
  have m24: "(0xffffff :: u32) = mask 24" by (simp add: mask_eq_exp_minus_1)
  have t1: "?t AND 1 = of_bool p" by (rule bit_word_eqI) (auto simp: bit_simps m24)
  have t2: "shr ?t 1 = take_bit 23 ?v" by (rule bit_word_eqI) (auto simp: bit_simps m24)
  have pe: "bit LF_POLY_EVEN 23" by (simp add: LF_POLY_EVEN_def)
  have "LF_POLY_EVEN AND ?v = (LF_POLY_EVEN AND take_bit 23 ?v) XOR shl (of_bool (bit ?v 23)) 23"
  proof (rule bit_word_eqI)
    fix n
    show "bit (LF_POLY_EVEN AND ?v) n = bit ((LF_POLY_EVEN AND take_bit 23 ?v) XOR shl (of_bool (bit ?v 23)) 23) n"
      using poly_bits(2) [of n] pe by (cases "n < 23"; cases "n = 23") (auto simp: bit_simps)
  qed
  then have even_split: "builtin_parity (LF_POLY_EVEN AND ?v) \<longleftrightarrow>
      (builtin_parity (LF_POLY_EVEN AND take_bit 23 ?v) \<noteq> bit ?v 23)"
    by (simp only: parity_xor) (simp add: parity_single)
  have restored: "nfc_util_even_parity32 (of_bool p XOR (LF_POLY_EVEN AND take_bit 23 ?v) XOR (LF_POLY_ODD AND ?o)
      XOR of_bool b XOR of_bool (?f \<and> e)) \<longleftrightarrow> bit ?v 23"
    unfolding nfc_util_even_parity32_def parity_xor parity_of_bool p even_split by auto
  have join: "take_bit 23 ?v OR shl (of_bool (bit ?v 23)) 23 = take_bit 24 ?v"
  proof (rule bit_word_eqI)
    fix n
    show "bit (take_bit 23 ?v OR shl (of_bool (bit ?v 23)) 23) n = bit (take_bit 24 ?v) n"
      by (cases "n < 23"; cases "n = 23") (auto simp: bit_simps)
  qed
  have s': "crypto1_bit s b e = (?f, \<lparr>odd_reg = shl ?v 1 OR of_bool p, even_reg = ?o\<rparr>)"
    by (simp add: crypto1_bit_def Let_def p_def xor.assoc)
  show ?thesis
    unfolding s' lfsr_rollback_bit_def Let_def using t1 t2 restored join by (cases s) (simp add: xor.assoc)
qed

section \<open>Sequences of bits\<close>

text \<open>The word with output bit \<open>i\<close> at position \<open>ix i\<close>.\<close>

definition gather :: "(nat \<Rightarrow> nat) \<Rightarrow> bool list \<Rightarrow> 'a::len word" where
  "gather ix bs = fold (\<lambda>i w. w OR shl (of_bool (bs ! i)) (ix i)) [0..<length bs] 0"

lemma bit_gather_fold:
  "bit (fold (\<lambda>i w. w OR shl (of_bool (f i)) (ix i)) is (w :: 'a::len word)) j \<longleftrightarrow>
     bit w j \<or> (j < LENGTH('a) \<and> (\<exists>i \<in> set is. ix i = j \<and> f i))"
  by (induction "is" arbitrary: w) (auto simp: bit_simps)

lemma bit_gather:
  "bit (gather ix bs :: 'a::len word) j \<longleftrightarrow> j < LENGTH('a) \<and> (\<exists>i<length bs. ix i = j \<and> bs ! i)"
  by (auto simp: gather_def bit_gather_fold)

lemma gather_snoc:
  "gather ix (bs @ [b]) = (gather ix bs OR shl (of_bool b) (ix (length bs)) :: 'a::len word)"
proof -
  have "fold (\<lambda>i w. w OR shl (of_bool ((bs @ [b]) ! i)) (ix i)) [0..<length bs] (0 :: 'a word) =
      fold (\<lambda>i w. w OR shl (of_bool (bs ! i)) (ix i)) [0..<length bs] 0"
    by (rule fold_cong) (auto simp: nth_append)
  then show ?thesis by (simp add: gather_def)
qed

lemma bits_append:
  "crypto1_bits s (xs @ ys) e =
     (let (o1, s1) = crypto1_bits s xs e; (o2, s2) = crypto1_bits s1 ys e in (o1 @ o2, s2))"
  by (induction xs arbitrary: s) (auto simp: Let_def split_beta)

lemma length_bits [simp]: "length (fst (crypto1_bits s bs e)) = length bs"
  by (induction bs arbitrary: s) (auto simp: Let_def split_beta)

lemma bits_loop:
  "for_loop 0 n (\<lambda>i (out, s). let (b, s) = crypto1_bit s (f i) e in (out OR shl (of_bool b) (ix i), s)) (0, s) =
     (gather ix (fst (crypto1_bits s (map f [0..<n]) e)), snd (crypto1_bits s (map f [0..<n]) e))"
proof (induction n)
  case 0
  then show ?case by (simp add: gather_def)
next
  case (Suc n)
  then show ?case
    by (simp add: for_loop_Suc bits_append Let_def split_beta gather_snoc)
qed

lemma crypto1_word_eq:
  "crypto1_word s w e = (gather be_index (fst (crypto1_bits s (map (BEBIT w) [0..<32]) e)),
     snd (crypto1_bits s (map (BEBIT w) [0..<32]) e))"
  unfolding crypto1_word_def by (rule bits_loop)

lemma crypto1_byte_eq:
  "crypto1_byte s w e = (gather id (fst (crypto1_bits s (map (bit w) [0..<8]) e)),
     snd (crypto1_bits s (map (bit w) [0..<8]) e))"
  unfolding crypto1_byte_def using bits_loop [where ix = id and f = "bit w"] by simp

lemma bits_norm:
  "fst (crypto1_bits (norm s) bs e) = fst (crypto1_bits s bs e) \<and>
   norm (snd (crypto1_bits (norm s) bs e)) = norm (snd (crypto1_bits s bs e))"
proof (induction bs arbitrary: s)
  case Nil
  then show ?case by (simp add: norm_def)
next
  case (Cons b bs)
  have "fst (crypto1_bits (snd (crypto1_bit (norm s) b e)) bs e) = fst (crypto1_bits (snd (crypto1_bit s b e)) bs e)"
    "norm (snd (crypto1_bits (snd (crypto1_bit (norm s) b e)) bs e)) = norm (snd (crypto1_bits (snd (crypto1_bit s b e)) bs e))"
    using Cons.IH [of "snd (crypto1_bit (norm s) b e)"] Cons.IH [of "snd (crypto1_bit s b e)"]
    by (simp_all add: crypto1_bit_norm)
  then show ?case by (simp add: crypto1_bit_norm Let_def split_beta)
qed

text \<open>Rolling back a sequence, last bit first.\<close>

fun rollback_bits :: "Crypto1 \<Rightarrow> bool list \<Rightarrow> bool \<Rightarrow> bool list \<times> Crypto1" where
  "rollback_bits s [] e = ([], s)"
| "rollback_bits s (b # bs) e =
     (let (out, s') = lfsr_rollback_bit s b e; (outs, s'') = rollback_bits s' bs e in (out # outs, s''))"

lemma rollback_bits_norm:
  "norm s = norm t \<Longrightarrow> fst (rollback_bits s bs e) = fst (rollback_bits t bs e) \<and>
     norm (snd (rollback_bits s bs e)) = norm (snd (rollback_bits t bs e))"
proof (induction bs arbitrary: s t)
  case Nil
  then show ?case by simp
next
  case (Cons b bs)
  have eq: "fst (lfsr_rollback_bit s b e) = fst (lfsr_rollback_bit t b e)"
    "norm (snd (lfsr_rollback_bit s b e)) = norm (snd (lfsr_rollback_bit t b e))"
    using rollback_bit_norm Cons.prems by metis+
  from Cons.IH [OF eq(2)] eq(1) show ?case by (simp add: Let_def split_beta)
qed

lemma rollback_bits_append:
  "rollback_bits s (xs @ ys) e =
     (let (o1, s1) = rollback_bits s xs e; (o2, s2) = rollback_bits s1 ys e in (o1 @ o2, s2))"
  by (induction xs arbitrary: s) (auto simp: Let_def split_beta)

lemma rollback_bits_undo:
  "fst (rollback_bits (snd (crypto1_bits s bs e)) (rev bs) e) = rev (fst (crypto1_bits s bs e)) \<and>
   norm (snd (rollback_bits (snd (crypto1_bits s bs e)) (rev bs) e)) = norm s"
proof (induction bs arbitrary: s)
  case Nil
  then show ?case by simp
next
  case (Cons b bs)
  let ?s1 = "snd (crypto1_bit s b e)"
  have IH: "fst (rollback_bits (snd (crypto1_bits ?s1 bs e)) (rev bs) e) = rev (fst (crypto1_bits ?s1 bs e))"
    "norm (snd (rollback_bits (snd (crypto1_bits ?s1 bs e)) (rev bs) e)) = norm ?s1"
    using Cons.IH [of ?s1] by blast+
  have one: "fst (rollback_bits ?s1 [b] e) = [fst (crypto1_bit s b e)]" "norm (snd (rollback_bits ?s1 [b] e)) = norm s"
    by (simp_all add: rollback_bit norm_def split_beta)
  from rollback_bits_norm [OF IH(2), of "[b]" e] one IH show ?case
    by (simp add: rollback_bits_append Let_def split_beta)
qed

lemma rollback_fold:
  fixes w :: "'a::len word"
  defines "step \<equiv> \<lambda>f e ix i (ret, s). let (b, s) = lfsr_rollback_bit s (f i) e in (ret OR shl (of_bool b) (ix i) :: 'a word, s)"
  shows "snd (fold (step f e ix) is (w, s)) = snd (rollback_bits s (map f is) e) \<and>
    (bit (fst (fold (step f e ix) is (w, s))) j \<longleftrightarrow> bit w j \<or> (j < LENGTH('a) \<and>
      (\<exists>k<length is. ix (is ! k) = j \<and> fst (rollback_bits s (map f is) e) ! k)))"
proof (induction "is" arbitrary: w s)
  case Nil
  then show ?case by simp
next
  case (Cons i "is")
  obtain b s' where b: "lfsr_rollback_bit s (f i) e = (b, s')" by fastforce
  have st: "step f e ix i (w, s) = (w OR shl (of_bool b) (ix i), s')" by (simp add: step_def b)
  have ex: "(\<exists>k<Suc n. P k) \<longleftrightarrow> P 0 \<or> (\<exists>k<n. P (Suc k))" for n and P :: "nat \<Rightarrow> bool"
    by (metis Suc_less_eq gr0_conv_Suc less_Suc_eq_0_disj zero_less_Suc)
  show ?case
    using Cons.IH [of "w OR shl (of_bool b) (ix i)" s']
    by (auto simp: st b split_beta ex bit_or_iff bit_push_bit_iff bit_of_bool_iff)
qed

lemma ex_less_rev: "(\<exists>k<n. P (n - Suc k)) \<longleftrightarrow> (\<exists>i<n. P i)" for n :: nat
proof
  assume "\<exists>i<n. P i"
  then obtain i where "i < n" "P i" by blast
  then have "n - Suc i < n \<and> P (n - Suc (n - Suc i))" by (simp add: Suc_diff_Suc)
  then show "\<exists>k<n. P (n - Suc k)" by blast
qed (metis diff_Suc_less gr_implies_not_zero gr_zeroI)

lemma rollback_word:
  assumes "crypto1_word s w e = (ks, s')"
  shows "fst (crypto1_lfsr_rollback_word s' w e) = ks \<and> norm (snd (crypto1_lfsr_rollback_word s' w e)) = norm s"
proof -
  let ?bs = "map (BEBIT w) [0..<32]"
  let ?outs = "fst (crypto1_bits s ?bs e)"
  have ks: "ks = gather be_index ?outs" and s': "s' = snd (crypto1_bits s ?bs e)"
    using assms by (simp_all add: crypto1_word_eq)
  have rb: "fst (rollback_bits s' (map (BEBIT w) (rev [0..<32])) e) = rev ?outs"
    "norm (snd (rollback_bits s' (map (BEBIT w) (rev [0..<32])) e)) = norm s"
    using rollback_bits_undo [of s ?bs e] by (simp_all only: s' rev_map)
  have "bit (fst (crypto1_lfsr_rollback_word s' w e)) j = bit ks j" for j
  proof -
    have "bit (fst (crypto1_lfsr_rollback_word s' w e)) j \<longleftrightarrow>
        j < 32 \<and> (\<exists>k<32. be_index (rev [0..<32] ! k) = j \<and> rev ?outs ! k)"
      unfolding crypto1_lfsr_rollback_word_def rollback_fold [THEN conjunct2] rb by simp
    also have "(\<exists>k<32. be_index (rev [0..<32] ! k) = j \<and> rev ?outs ! k) \<longleftrightarrow>
        (\<exists>i<32. be_index i = j \<and> ?outs ! i)"
    proof -
      have nth: "rev [0..<32] ! k = 32 - Suc k" "rev ?outs ! k = ?outs ! (32 - Suc k)" if "k < 32" for k
        using that by (simp_all add: rev_nth)
      have "(\<exists>k<32. be_index (rev [0..<32] ! k) = j \<and> rev ?outs ! k) \<longleftrightarrow>
          (\<exists>k<32. be_index (32 - Suc k) = j \<and> ?outs ! (32 - Suc k))"
        using nth by (intro ex_cong1) (auto simp only:)
      also have "\<dots> \<longleftrightarrow> (\<exists>i<32. be_index i = j \<and> ?outs ! i)"
        by (rule ex_less_rev [where P = "\<lambda>i. be_index i = j \<and> ?outs ! i"])
      finally show ?thesis .
    qed
    finally show ?thesis by (simp add: ks bit_gather)
  qed
  then have "fst (crypto1_lfsr_rollback_word s' w e) = ks" by (intro bit_word_eqI) simp
  moreover have "snd (crypto1_lfsr_rollback_word s' w e) = snd (rollback_bits s' (map (BEBIT w) (rev [0..<32])) e)"
    unfolding crypto1_lfsr_rollback_word_def by (rule rollback_fold [THEN conjunct1])
  ultimately show ?thesis using rb(2) by simp
qed

section \<open>Two registers in step\<close>

text \<open>
  The side that knows the plaintext feeds it; the side that sees the ciphertext feeds that and
  lets the register take off the keystream. Both registers go through the same states.
\<close>

lemma bit_sync:
  "crypto1_bit s (b \<noteq> fst (crypto1_bit s b False)) True = crypto1_bit s b False"
  by (cases b) (simp_all add: crypto1_bit_def Let_def)

lemma bits_sync:
  "length ks = length bs \<Longrightarrow> ks = fst (crypto1_bits s bs False) \<Longrightarrow>
   crypto1_bits s (map2 (\<noteq>) bs ks) True = crypto1_bits s bs False"
proof (induction bs arbitrary: s ks)
  case Nil
  then show ?case by simp
next
  case (Cons b bs)
  obtain ob s1 where b: "crypto1_bit s b False = (ob, s1)" by fastforce
  obtain outs s2 where bs: "crypto1_bits s1 bs False = (outs, s2)" by fastforce
  have "length outs = length bs" using length_bits [of s1 bs False] bs by simp
  then have "crypto1_bits s1 (map2 (\<noteq>) bs outs) True = crypto1_bits s1 bs False"
    by (rule Cons.IH) (simp add: bs)
  moreover have "ks = ob # outs" using Cons.prems(2) b bs by simp
  ultimately show ?case using bit_sync [of s b] b bs by simp
qed

lemma be_index_props: "i < 32 \<Longrightarrow> be_index i < 32 \<and> be_index (be_index i) = i"
proof -
  have "list_all (\<lambda>i. be_index i < 32 \<and> be_index (be_index i) = i) [0..<32]" by code_simp
  then show "i < 32 \<Longrightarrow> be_index i < 32 \<and> be_index (be_index i) = i" by (simp add: list_all_iff)
qed

lemma bit_gather_be:
  assumes "length bs = 32" and "i < 32"
  shows "bit (gather be_index bs :: u32) (be_index i) = bs ! i"
proof -
  have "j = i" if "be_index j = be_index i" "j < 32" for j
    using that assms(2) be_index_props by metis
  then show ?thesis using assms be_index_props [of i] by (auto simp: bit_gather)
qed

lemma word_sync:
  assumes "crypto1_word s w False = (ks, s')"
  shows "crypto1_word s (w XOR ks) True = (ks, s')"
proof -
  let ?bs = "map (BEBIT w) [0..<32]"
  let ?outs = "fst (crypto1_bits s ?bs False)"
  have ks: "ks = gather be_index ?outs" using assms by (simp add: crypto1_word_eq)
  have "map (BEBIT (w XOR ks)) [0..<32] = map2 (\<noteq>) ?bs ?outs"
  proof (rule nth_equalityI)
    fix i assume "i < length (map (BEBIT (w XOR ks)) [0..<32])"
    then have i: "i < 32" by simp
    have "bit ks (be_index i) = ?outs ! i" unfolding ks using i by (intro bit_gather_be) simp_all
    then show "map (BEBIT (w XOR ks)) [0..<32] ! i = map2 (\<noteq>) ?bs ?outs ! i"
      using i by (simp add: BEBIT_def bit_xor_iff)
  qed simp
  then have "crypto1_bits s (map (BEBIT (w XOR ks)) [0..<32]) True = crypto1_bits s ?bs False"
    using bits_sync [of ?outs ?bs s] by simp
  then show ?thesis using assms by (simp add: crypto1_word_eq)
qed

section \<open>The generator of nonces\<close>

lemma weak_step_bits: "i + k < 16 \<Longrightarrow> bit ((weak_prng_step ^^ k) x) i = bit x (i + k)"
proof (induction k arbitrary: i)
  case 0
  then show ?case by simp
next
  case (Suc k)
  have "bit (weak_prng_step y) i = bit y (Suc i)" if "i < 15" for y
    using that by (simp add: weak_prng_step_def bit_simps)
  then show ?case using Suc by simp
qed

lemma weak_step_feedback:
  "bit (weak_prng_step x) 15 = (((bit x 0 \<noteq> bit x 2) \<noteq> bit x 3) \<noteq> bit x 5)"
  by (auto simp: weak_prng_step_def bit_simps dest: bit_imp_le_length)

lemma weak_16_low: "bit ((weak_prng_step ^^ 16) x) 0 = bit (weak_prng_step x) 15"
proof -
  have "16 = Suc 15" by simp
  then have "(weak_prng_step ^^ 16) x = (weak_prng_step ^^ 15) (weak_prng_step x)"
    by (simp only: funpow_Suc_right comp_apply)
  then show ?thesis using weak_step_bits [of 0 15 "weak_prng_step x"] by simp
qed

text \<open>The two halves of the byte-swapped nonce.\<close>

definition lo16 :: "u32 \<Rightarrow> u16" where "lo16 x = ucast x"
definition hi16 :: "u32 \<Rightarrow> u16" where "hi16 x = ucast (shr x 16)"

lemma halves_eq: "x = y \<longleftrightarrow> lo16 x = lo16 y \<and> hi16 x = hi16 (y :: u32)"
proof
  assume h: "lo16 x = lo16 y \<and> hi16 x = hi16 y"
  show "x = y"
  proof (rule bit_word_eqI)
    fix n assume n: "n < LENGTH(32)"
    show "bit x n = bit y n"
    proof (cases "n < 16")
      case True
      have "bit (lo16 x) n = bit (lo16 y) n" using h by simp
      then show ?thesis using True by (simp add: lo16_def bit_simps)
    next
      case False
      have "bit (hi16 x) (n - 16) = bit (hi16 y) (n - 16)" using h by simp
      moreover have "n - 16 < 16" using n by simp
      ultimately show ?thesis using False n by (simp add: hi16_def bit_simps)
    qed
  qed
qed simp

lemma prng_step_hi: "hi16 (prng_step x) = weak_prng_step (hi16 x)"
  by (rule word_eqI_upto)
    (auto simp: hi16_def prng_step_def weak_prng_step_def bit_simps all_less_16 all_less_8 dest: bit_imp_le_length)

lemma prng_step_lo:
  "bit (hi16 x) 0 = bit (weak_prng_step (lo16 x)) 15 \<Longrightarrow> lo16 (prng_step x) = weak_prng_step (lo16 x)"
  by (rule word_eqI_upto)
    (auto simp: hi16_def lo16_def prng_step_def weak_prng_step_def bit_simps all_less_16 all_less_8 dest: bit_imp_le_length)

lemma swap_endian_halves: "lo16 (SWAPENDIAN x) = swap_halves (hi16 x)" "hi16 (SWAPENDIAN x) = swap_halves (lo16 x)"
  by (rule word_eqI_upto,
      auto simp: hi16_def lo16_def SWAPENDIAN_def swap_halves_def Let_def bit_simps all_less_16 all_less_8 dest: bit_imp_le_length)+

lemma swap_halves_twice [simp]: "swap_halves (swap_halves x) = x"
  by (rule word_eqI_upto) (auto simp: swap_halves_def bit_simps all_less_16 all_less_8 dest: bit_imp_le_length)

lemma swapendian_twice [simp]: "SWAPENDIAN (SWAPENDIAN x) = x"
  by (simp add: halves_eq swap_endian_halves)

text \<open>A nonce passes the test when the halves are sixteen steps of the small generator apart.\<close>

lemma weak_nonce_iff:
  "crypto1_is_weak_prng_nonce n \<longleftrightarrow>
     n \<noteq> 0 \<and> hi16 (SWAPENDIAN n) = (weak_prng_step ^^ 16) (lo16 (SWAPENDIAN n))"
proof -
  have low: "n AND 0xFFFF = ucast (lo16 n)"
    by (rule halves_eq [THEN iffD2], rule conjI; rule word_eqI_upto)
      (auto simp: lo16_def hi16_def bit_simps all_less_16 all_less_8 dest: bit_imp_le_length)
  have inj: "lo16 (ucast y) = y" for y :: u16
    by (rule bit_word_eqI) (auto simp: lo16_def bit_simps)
  have "(ucast y :: u32) = n AND 0xFFFF \<longleftrightarrow> y = lo16 n" for y :: u16
    unfolding low using inj by metis
  moreover have "swap_halves x = y \<longleftrightarrow> y' = x" if "y' = swap_halves y" for x y y'
    using that swap_halves_twice by metis
  ultimately show ?thesis
    unfolding crypto1_is_weak_prng_nonce_def Let_def swap_endian_halves hi16_def [symmetric] by simp
qed

lemma prng_successor_Suc:
  "SWAPENDIAN (crypto1_prng_successor x (Suc n)) = prng_step (SWAPENDIAN (crypto1_prng_successor x n))"
  by (simp add: crypto1_prng_successor_def)

lemma weak_step_0: "weak_prng_step x = 0 \<Longrightarrow> x = 0"
proof (rule word_eqI_upto)
  assume "weak_prng_step x = 0"
  then have z: "\<not> bit (weak_prng_step x) i" for i by simp
  have "\<not> bit x (Suc i)" if "i < 15" for i using z [of i] that by (simp add: weak_prng_step_def bit_simps)
  then have high: "\<not> bit x i" if "0 < i" "i < 16" for i using that by (cases i) auto
  have low: "\<not> bit x 0" using z [of 15] high [of 2] high [of 3] high [of 5] by (simp add: weak_step_feedback)
  show "\<forall>n<LENGTH(16). bit x n = bit 0 n"
  proof (intro allI impI)
    fix n assume "n < LENGTH(16)"
    then show "bit x n = bit 0 n" using low high [of n] by (cases "n = 0") simp_all
  qed
qed

lemma prng_step_nonzero:
  assumes "prng_step x = 0" and "hi16 x = (weak_prng_step ^^ 16) (lo16 x)"
  shows "x = 0"
proof -
  have "weak_prng_step (hi16 x) = 0" "lo16 (prng_step x) = 0"
    using assms(1) prng_step_hi [of x] by (simp_all add: hi16_def lo16_def)
  moreover have "lo16 (prng_step x) = weak_prng_step (lo16 x)"
    by (rule prng_step_lo) (simp add: assms(2) weak_16_low)
  ultimately have "hi16 x = 0" "lo16 x = 0" using weak_step_0 by metis+
  then show ?thesis using halves_eq [of x 0] by (simp add: hi16_def lo16_def)
qed

lemma weak_invariant:
  assumes "hi16 x = (weak_prng_step ^^ 16) (lo16 x)"
  shows "hi16 (prng_step x) = (weak_prng_step ^^ 16) (lo16 (prng_step x))"
proof -
  have "lo16 (prng_step x) = weak_prng_step (lo16 x)"
    by (rule prng_step_lo) (simp add: assms weak_16_low)
  then show ?thesis by (simp only: prng_step_hi assms funpow_swap1)
qed

lemma weak_nonce_closed:
  assumes "crypto1_is_weak_prng_nonce n"
  shows "crypto1_is_weak_prng_nonce (crypto1_prng_successor n k)"
proof (induction k)
  case 0
  then show ?case using assms by (simp add: crypto1_prng_successor_def)
next
  case (Suc k)
  let ?x = "SWAPENDIAN (crypto1_prng_successor n k)" and ?y = "SWAPENDIAN (crypto1_prng_successor n (Suc k))"
  have x: "crypto1_prng_successor n k \<noteq> 0" "hi16 ?x = (weak_prng_step ^^ 16) (lo16 ?x)"
    using Suc by (simp_all add: weak_nonce_iff)
  have y: "?y = prng_step ?x" by (rule prng_successor_Suc)
  have zero: "SWAPENDIAN 0 = 0" by (simp add: SWAPENDIAN_def)
  have "?x \<noteq> 0" using x(1) swapendian_twice zero by metis
  then have "?y \<noteq> 0" using prng_step_nonzero [OF _ x(2)] y by metis
  then have "crypto1_prng_successor n (Suc k) \<noteq> 0" using zero by metis
  with weak_invariant [OF x(2)] y show ?case by (simp add: weak_nonce_iff)
qed

section \<open>Encrypted frames\<close>

definition ks_state :: "Crypto1 \<Rightarrow> nat \<Rightarrow> Crypto1" where
  "ks_state s n = ((\<lambda>s. snd (crypto1_byte s 0 False)) ^^ n) s"

definition ks_byte :: "Crypto1 \<Rightarrow> nat \<Rightarrow> u8" where
  "ks_byte s i = fst (crypto1_byte (ks_state s i) 0 False)"

lemma ks_step: "crypto1_byte (ks_state s i) 0 False = (ks_byte s i, ks_state s (Suc i))"
  by (simp add: ks_byte_def ks_state_def)

text \<open>\<open>xor_from s x d i\<close> is \<open>d\<close> with the bytes from \<open>i\<close> to \<open>n\<close> replaced by those of \<open>x\<close>, encrypted.\<close>

definition xor_from :: "Crypto1 \<Rightarrow> u8 list \<Rightarrow> u8 list \<Rightarrow> nat \<Rightarrow> nat \<Rightarrow> u8 list" where
  "xor_from s x d i n = take i d @ map (\<lambda>j. ks_byte s j XOR x ! j) [i..<n] @ drop n d"

lemma xor_from_step:
  assumes "i < n" and "n \<le> length d"
  shows "xor_from s x (d[i := ks_byte s i XOR x ! i]) (Suc i) n = xor_from s x d i n"
  using assms by (simp add: xor_from_def upt_conv_Cons take_Suc_conv_app_nth)

lemma decrypt_loop_eq:
  assumes "bit_buffer_ok out" and "bit_buffer_get_size_bytes out = n" and "n \<le> length x" and "i \<le> n"
  shows "crypto1_decrypt_loop x [i..<n] (ks_state s i, out) =
    Some (ks_state s n, out\<lparr>data := xor_from s x (data out) i n\<rparr>)"
  using assms
proof (induction "n - i" arbitrary: i out)
  case 0
  then show ?case by (simp add: xor_from_def)
next
  case (Suc m)
  then have i: "i < n" by simp
  have len: "n \<le> length (data out)"
    using size_bytes_capacity [OF Suc.prems(1)] Suc.prems(1,2) by (simp add: bit_buffer_ok_def)
  let ?d = "(data out)[i := ks_byte s i XOR x ! i]"
  have set: "bit_buffer_set_byte out i (ks_byte s i XOR x ! i) = Some (out\<lparr>data := ?d\<rparr>)"
    using i len Suc.prems(2) by (simp add: bit_buffer_set_byte_def wr_def)
  have "crypto1_decrypt_loop x [Suc i..<n] (ks_state s (Suc i), out\<lparr>data := ?d\<rparr>) =
      Some (ks_state s n, (out\<lparr>data := ?d\<rparr>)\<lparr>data := xor_from s x (data (out\<lparr>data := ?d\<rparr>)) (Suc i) n\<rparr>)"
    using Suc i by (intro Suc.hyps(1)) (auto simp: bit_buffer_ok_def bit_buffer_get_size_bytes_def)
  then show ?case
    using i Suc.prems(3) set len xor_from_step [OF i len, of s x]
    by (simp add: upt_conv_Cons ks_step rd_def)
qed

text \<open>The parity bit sent with a plaintext byte, encrypted with the next bit of the keystream.\<close>

definition enc_parity :: "Crypto1 \<Rightarrow> u8 list \<Rightarrow> nat \<Rightarrow> bool" where
  "enc_parity s x j = (crypto1_filter (odd_reg (ks_state s (Suc j))) \<noteq> (\<not> builtin_parity (x ! j)))"

lemma odd_parity8_eq: "nfc_util_odd_parity8 b \<noteq> 0 \<longleftrightarrow> \<not> builtin_parity b"
  using odd_byte_parity_table [of "unat b"] unsigned_less [of b, where ?'a = nat]
  by (simp add: nfc_util_odd_parity8_def)

lemma encrypt_loop_eq:
  assumes "bit_buffer_ok out" and "size_bits out = n * 8" and "n \<le> length x" and "i \<le> n"
    and "\<forall>j<i. sbit (parity out) j = enc_parity s x j" and "clear_above (parity out) i"
  shows "\<exists>p. crypto1_encrypt_loop None x [i..<n] (ks_state s i, out) =
      Some (ks_state s n, out\<lparr>data := xor_from s x (data out) i n, parity := p\<rparr>)
    \<and> length p = length (parity out) \<and> (\<forall>j<n. sbit p j = enc_parity s x j)"
  using assms
proof (induction "n - i" arbitrary: i out)
  case 0
  then show ?case by (intro exI [of _ "parity out"]) (simp add: xor_from_def)
next
  case (Suc m)
  then have i: "i < n" by simp
  have cap: "n \<le> capacity_bytes out" using Suc.prems(1,2) by (simp add: bit_buffer_ok_def)
  then have len: "n \<le> length (data out)" using Suc.prems(1) by (simp add: bit_buffer_ok_def)
  have plen: "i div 8 < length (parity out)"
    using Suc.prems(1) size_bytes_le [of "capacity_bytes out" "i div 8"] cap i by (simp add: bit_buffer_ok_def)
  let ?d = "(data out)[i := ks_byte s i XOR x ! i]" and ?p = "add_parity_bit (parity out) i (enc_parity s x i)"
  let ?out = "out\<lparr>data := ?d, parity := ?p\<rparr>"
  have set: "bit_buffer_set_byte_with_parity out i (ks_byte s i XOR x ! i) (enc_parity s x i) = Some ?out"
    using i len plen Suc.prems(2)
    by (simp add: bit_buffer_set_byte_with_parity_def wr_def rd_def BITS_IN_BYTE_def add_parity_bit_def)
  note bits = add_parity_bit_bits [OF plen Suc.prems(6), where v = "enc_parity s x i"]
  have "\<exists>p. crypto1_encrypt_loop None x [Suc i..<n] (ks_state s (Suc i), ?out) =
      Some (ks_state s n, ?out\<lparr>data := xor_from s x (data ?out) (Suc i) n, parity := p\<rparr>)
    \<and> length p = length (parity ?out) \<and> (\<forall>j<n. sbit p j = enc_parity s x j)"
  proof (rule Suc.hyps(1))
    show "bit_buffer_ok ?out" using Suc.prems(1) by (simp add: bit_buffer_ok_def add_parity_bit_def)
    show "\<forall>j<Suc i. sbit (parity ?out) j = enc_parity s x j"
      using bits(1) Suc.prems(5) by (auto simp: less_Suc_eq_le le_less)
    show "clear_above (parity ?out) (Suc i)" using bits(2) by simp
  qed (use Suc i in auto)
  then obtain p where "crypto1_encrypt_loop None x [Suc i..<n] (ks_state s (Suc i), ?out) =
      Some (ks_state s n, ?out\<lparr>data := xor_from s x (data ?out) (Suc i) n, parity := p\<rparr>)"
    "length p = length (parity out)" "\<forall>j<n. sbit p j = enc_parity s x j" by (auto simp: add_parity_bit_def)
  moreover have "(crypto1_filter (odd_reg (ks_state s (Suc i))) \<noteq> (nfc_util_odd_parity8 (x ! i) \<noteq> 0)) = enc_parity s x i"
    by (simp add: odd_parity8_eq enc_parity_def)
  ultimately show ?case
    using i Suc.prems(3) set xor_from_step [OF i len, of s x]
    by (intro exI [of _ p]) (simp add: upt_conv_Cons ks_step rd_def Let_def)
qed

lemma xor_from_0:
  "n \<le> length d \<Longrightarrow> take n (xor_from s x d 0 n) = map (\<lambda>j. ks_byte s j XOR x ! j) [0..<n]"
  by (simp add: xor_from_def)

lemma frame_roundtrip:
  assumes ok: "bit_buffer_ok buf" "bit_buffer_ok out1" "bit_buffer_ok out2"
    and n: "size_bits buf = n * 8" "0 < n" and cap: "n \<le> capacity_bytes out1" "n \<le> capacity_bytes out2"
  shows "\<exists>s' enc dec. crypto1_encrypt s None buf out1 = Some (s', enc) \<and> crypto1_decrypt s enc out2 = Some (s', dec)
    \<and> contents dec = contents buf \<and> (\<forall>j<n. sbit (parity enc) j = enc_parity s (contents buf) j)"
proof -
  have nb: "n \<le> length (data buf)" "n \<le> length (data out1)" "n \<le> length (data out2)"
    using ok n cap by (simp_all add: bit_buffer_ok_def)
  let ?o1 = "out1\<lparr>size_bits := n * 8\<rparr>" and ?o2 = "out2\<lparr>size_bits := n * 8\<rparr>"
  have set: "bit_buffer_set_size out1 (n * 8) = Some ?o1" "bit_buffer_set_size out2 (n * 8) = Some ?o2"
    using cap by (simp_all add: bit_buffer_set_size_def BITS_IN_BYTE_def)
  have okn: "bit_buffer_ok ?o1" "bit_buffer_ok ?o2" using ok(2,3) cap by (simp_all add: bit_buffer_ok_def)
  have "ks_state s 0 = s" by (simp add: ks_state_def)
  then obtain p where enc: "crypto1_encrypt_loop None (data buf) [0..<n] (s, ?o1) =
      Some (ks_state s n, ?o1\<lparr>data := xor_from s (data buf) (data out1) 0 n, parity := p\<rparr>)"
    "\<forall>j<n. sbit p j = enc_parity s (data buf) j"
    using encrypt_loop_eq [OF okn(1), of n "data buf" 0 s] nb(1) by (auto simp: clear_above_def)
  let ?e = "?o1\<lparr>data := xor_from s (data buf) (data out1) 0 n, parity := p\<rparr>"
  have "bit_buffer_get_size_bytes ?o2 = n" by (rule size_bytes_aligned) simp
  moreover have "n \<le> length (data ?e)" using nb(2) by (simp add: xor_from_def)
  ultimately have dec: "crypto1_decrypt_loop (data ?e) [0..<n] (s, ?o2) =
      Some (ks_state s n, ?o2\<lparr>data := xor_from s (data ?e) (data out2) 0 n\<rparr>)"
    using decrypt_loop_eq [OF okn(2), of n "data ?e" 0 s] \<open>ks_state s 0 = s\<close> by simp
  let ?d = "?o2\<lparr>data := xor_from s (data ?e) (data out2) 0 n\<rparr>"
  have sizes: "bit_buffer_get_size_bytes ?d = n" "bit_buffer_get_size_bytes buf = n"
    using n(1) by (intro size_bytes_aligned; simp)+
  have "contents ?d = map (\<lambda>j. ks_byte s j XOR data ?e ! j) [0..<n]"
    unfolding contents_def sizes using nb(3) by (simp add: xor_from_0)
  also have "\<dots> = map (\<lambda>j. data buf ! j) [0..<n]"
    using nb(2) by (auto simp: xor_from_def nth_append xor.assoc [symmetric])
  also have "\<dots> = contents buf" unfolding contents_def sizes using nb(1) by (intro nth_equalityI) simp_all
  finally have c: "contents ?d = contents buf" .
  have x: "crypto1_encrypt s None buf out1 = Some (ks_state s n, ?e)" "crypto1_decrypt s ?e out2 = Some (ks_state s n, ?d)"
    using n set enc(1) dec
    by (simp_all add: crypto1_encrypt_def crypto1_decrypt_def bit_buffer_get_size_def bit_buffer_get_data_def Let_def)
  have "enc_parity s (contents buf) j = enc_parity s (data buf) j" if "j < n" for j
    unfolding contents_def sizes using that by (simp add: enc_parity_def)
  then show ?thesis using x c enc(2) by auto
qed

section \<open>Properties\<close>

text \<open>
  C30. Rolling the register back over a word undoes \<^verbatim>\<open>crypto1_word\<close>: it returns the same keystream
  word and the register it started from, in the 24 bits of each half that matter.
\<close>

theorem crypto1_rollback_undoes_word:
  "fst (crypto1_lfsr_rollback_word (snd (crypto1_word s w enc)) w enc) = fst (crypto1_word s w enc) \<and>
   norm (snd (crypto1_lfsr_rollback_word (snd (crypto1_word s w enc)) w enc)) = norm s"
  using rollback_word [of s w enc "fst (crypto1_word s w enc)" "snd (crypto1_word s w enc)"] by simp

text \<open>
  C31. Nested authentication: when the card sends its nonce encrypted with the keystream of
  \<open>nt XOR cuid\<close>, a reader that feeds the received word in encrypted mode ends in the card's register
  state, and \<^verbatim>\<open>crypto1_decrypt_nt_enc\<close> recovers the nonce from the ciphertext and the key.
\<close>

theorem crypto1_nested_nonce_recovered:
  assumes "bit_lib_bytes_to_num_be key 6 = Some k"
    and "crypto1_word (crypto1_init k) (nt XOR cuid) False = (ks, s')"
  shows "crypto1_word (crypto1_init k) ((nt XOR ks) XOR cuid) True = (ks, s') \<and>
    crypto1_decrypt_nt_enc cuid (nt XOR ks) key = Some nt"
proof -
  have swap: "(nt XOR ks) XOR cuid = (nt XOR cuid) XOR ks" by (simp add: ac_simps)
  have w: "crypto1_word (crypto1_init k) ((nt XOR ks) XOR cuid) True = (ks, s')"
    unfolding swap using assms(2) by (rule word_sync)
  have "(nt XOR ks) XOR ks = nt" by (simp add: xor.assoc)
  then show ?thesis
    using assms(1) w rollback_word [OF w] by (simp add: crypto1_decrypt_nt_enc_def)
qed

theorem crypto1_nested_nonce_recovered_witness:
  "\<exists>ks. crypto1_decrypt_nt_enc 0x9C599B32 (0x82A4166C XOR ks) [0xFF, 0xFF, 0xFF, 0xFF, 0xFF, 0xFF] = Some 0x82A4166C"
proof -
  have k: "bit_lib_bytes_to_num_be [0xFF, 0xFF, 0xFF, 0xFF, 0xFF, 0xFF] 6 = Some 0xFFFFFFFFFFFF" by code_simp
  obtain ks s' where "crypto1_word (crypto1_init 0xFFFFFFFFFFFF) (0x82A4166C XOR 0x9C599B32) False = (ks, s')"
    by fastforce
  from crypto1_nested_nonce_recovered [OF k this] show ?thesis by blast
qed

text \<open>
  C32. Frames: encrypting a buffer of whole bytes and decrypting the result from the same register
  gives back the bytes and leaves both registers equal; the parity bit sent with each byte is its
  odd parity, encrypted with the next bit of the keystream.
\<close>

theorem crypto1_frame_roundtrip:
  assumes "bit_buffer_ok buf" and "bit_buffer_ok out1" and "bit_buffer_ok out2"
    and "size_bits buf = n * 8" and "0 < n" and "n \<le> capacity_bytes out1" and "n \<le> capacity_bytes out2"
  shows "\<exists>s' enc dec. crypto1_encrypt s None buf out1 = Some (s', enc) \<and> crypto1_decrypt s enc out2 = Some (s', dec)
    \<and> contents dec = contents buf \<and> (\<forall>j<n. sbit (parity enc) j = enc_parity s (contents buf) j)"
  using assms by (rule frame_roundtrip)

theorem crypto1_frame_roundtrip_witness:
  "\<exists>s' enc dec. crypto1_encrypt (crypto1_init 0xA0A1A2A3A4A5) None
       \<lparr>data = [0x30, 0x04], parity = [0], capacity_bytes = 2, size_bits = 16\<rparr>
       \<lparr>data = [0, 0], parity = [0], capacity_bytes = 2, size_bits = 0\<rparr> = Some (s', enc)
    \<and> crypto1_decrypt (crypto1_init 0xA0A1A2A3A4A5) enc
       \<lparr>data = [0, 0], parity = [0], capacity_bytes = 2, size_bits = 0\<rparr> = Some (s', dec)
    \<and> contents dec = [0x30, 0x04]"
proof -
  let ?buf = "\<lparr>data = [0x30, 0x04], parity = [0], capacity_bytes = 2, size_bits = 16\<rparr>"
  let ?out = "\<lparr>data = [0, 0], parity = [0], capacity_bytes = 2, size_bits = 0\<rparr>"
  have "bit_buffer_ok ?buf" "bit_buffer_ok ?out" "contents ?buf = [0x30, 0x04]"
    by (simp_all add: bit_buffer_ok_def contents_def bit_buffer_get_size_bytes_def BITS_IN_BYTE_def)
  then show ?thesis
    using crypto1_frame_roundtrip [of ?buf ?out ?out 2 "crypto1_init 0xA0A1A2A3A4A5"] by auto
qed

text \<open>The sixteen steps of the test on the nonce 0x01200145.\<close>

lemma weak_steps_example:
  "weak_prng_step 0x2001 = 0x9000" "weak_prng_step 0x9000 = 0x4800" "weak_prng_step 0x4800 = 0x2400" "weak_prng_step 0x2400 = 0x1200"
  "weak_prng_step 0x1200 = 0x0900" "weak_prng_step 0x0900 = 0x0480" "weak_prng_step 0x0480 = 0x0240" "weak_prng_step 0x0240 = 0x0120"
  "weak_prng_step 0x0120 = 0x8090" "weak_prng_step 0x8090 = 0x4048" "weak_prng_step 0x4048 = 0xA024" "weak_prng_step 0xA024 = 0x5012"
  "weak_prng_step 0x5012 = 0x2809" "weak_prng_step 0x2809 = 0x1404" "weak_prng_step 0x1404 = 0x8A02" "weak_prng_step 0x8A02 = 0x4501"
  by (simp_all add: weak_prng_step_def)

lemma weak_nonce_example: "crypto1_is_weak_prng_nonce 0x01200145"
proof -
  have "(weak_prng_step ^^ 16) 0x2001 = 0x4501"
    by (simp add: eval_nat_numeral weak_steps_example)
  moreover have "swap_halves 0x0120 = 0x2001" "swap_halves 0x4501 = 0x0145"
    by (simp_all add: swap_halves_def)
  ultimately show ?thesis by (simp add: crypto1_is_weak_prng_nonce_def Let_def)
qed

end
