(* ===== verification/SubGhzMath.thy ===== *)
theory SubGhzMath
  imports Checksums Hex
begin

text \<open>
  The arithmetic of the sub-GHz protocols: \<^verbatim>\<open>lib/subghz/blocks/math.c\<close> (key reversal, parities,
  cyclic redundancy checks, shift-register digests) and the KeeLoq block cipher with its key
  derivations, \<^verbatim>\<open>lib/subghz/protocols/keeloq_common.c\<close>. A message is the list of its bytes and
  \<open>data_size\<close> the number of bytes the caller passes, which never exceeds the list in the lemmas.
\<close>

section \<open>Keys and parities\<close>

definition bit_read :: "'a::len word \<Rightarrow> nat \<Rightarrow> 'a word" where
  "bit_read value n = shr value n AND 0x01"

definition subghz_protocol_blocks_reverse_key :: "u64 \<Rightarrow> nat \<Rightarrow> u64" where
  "subghz_protocol_blocks_reverse_key key bit_count =
     for_loop 0 bit_count (\<lambda>i reverse_key. shl reverse_key 1 OR bit_read key i) 0"

definition subghz_protocol_blocks_get_parity :: "u64 \<Rightarrow> nat \<Rightarrow> u8" where
  "subghz_protocol_blocks_get_parity key bit_count =
     for_loop 0 bit_count (\<lambda>i parity. parity + ucast (bit_read key i)) 0 AND 0x01"

section \<open>Cyclic redundancy checks\<close>

text \<open>
  The inner loops are written once per shift direction and width. On \<^verbatim>\<open>uint8_t\<close> the register is
  promoted to \<^verbatim>\<open>int\<close>, shifted and truncated again, which is the shift of the word.
\<close>

definition crc_shift_left8 :: "u8 \<Rightarrow> u8 \<Rightarrow> u8" where
  "crc_shift_left8 poly remainder =
     for_loop 0 8 (\<lambda>_ remainder. if remainder AND 0x80 \<noteq> 0 then shl remainder 1 XOR poly else shl remainder 1) remainder"

definition crc_shift_right8 :: "u8 \<Rightarrow> u8 \<Rightarrow> u8" where
  "crc_shift_right8 poly remainder =
     for_loop 0 8 (\<lambda>_ remainder. if remainder AND 1 \<noteq> 0 then shr remainder 1 XOR poly else shr remainder 1) remainder"

definition crc_shift_right16 :: "u16 \<Rightarrow> u16 \<Rightarrow> u16" where
  "crc_shift_right16 poly remainder =
     for_loop 0 8 (\<lambda>_ remainder. if remainder AND 1 \<noteq> 0 then shr remainder 1 XOR poly else shr remainder 1) remainder"

definition crc_shift_left16 :: "u16 \<Rightarrow> u16 \<Rightarrow> u16" where
  "crc_shift_left16 poly remainder =
     for_loop 0 8 (\<lambda>_ remainder. if remainder AND 0x8000 \<noteq> 0 then shl remainder 1 XOR poly else shl remainder 1) remainder"

definition subghz_protocol_blocks_crc4 :: "u8 list \<Rightarrow> nat \<Rightarrow> u8 \<Rightarrow> u8 \<Rightarrow> u8" where
  "subghz_protocol_blocks_crc4 message data_size polynomial init =
     (let remainder = shl init 4;
          poly = shl polynomial 4;
          remainder = for_loop 0 data_size (\<lambda>i remainder. crc_shift_left8 poly (remainder XOR message ! i)) remainder
      in shr remainder 4 AND 0x0f)"

definition subghz_protocol_blocks_crc7 :: "u8 list \<Rightarrow> nat \<Rightarrow> u8 \<Rightarrow> u8 \<Rightarrow> u8" where
  "subghz_protocol_blocks_crc7 message data_size polynomial init =
     (let remainder = shl init 1;
          poly = shl polynomial 1;
          remainder = for_loop 0 data_size (\<lambda>byte remainder. crc_shift_left8 poly (remainder XOR message ! byte)) remainder
      in shr remainder 1 AND 0x7f)"

definition subghz_protocol_blocks_crc8 :: "u8 list \<Rightarrow> nat \<Rightarrow> u8 \<Rightarrow> u8 \<Rightarrow> u8" where
  "subghz_protocol_blocks_crc8 message data_size polynomial init =
     for_loop 0 data_size (\<lambda>byte remainder. crc_shift_left8 polynomial (remainder XOR message ! byte)) init"

definition subghz_protocol_blocks_crc8le :: "u8 list \<Rightarrow> nat \<Rightarrow> u8 \<Rightarrow> u8 \<Rightarrow> u8" where
  "subghz_protocol_blocks_crc8le message data_size polynomial init =
     (let remainder = ucast (subghz_protocol_blocks_reverse_key (ucast init) 8);
          polynomial = ucast (subghz_protocol_blocks_reverse_key (ucast polynomial) 8)
      in for_loop 0 data_size (\<lambda>byte remainder. crc_shift_right8 polynomial (remainder XOR message ! byte)) remainder)"

definition subghz_protocol_blocks_crc16lsb :: "u8 list \<Rightarrow> nat \<Rightarrow> u16 \<Rightarrow> u16 \<Rightarrow> u16" where
  "subghz_protocol_blocks_crc16lsb message data_size polynomial init =
     for_loop 0 data_size (\<lambda>byte remainder. crc_shift_right16 polynomial (remainder XOR ucast (message ! byte))) init"

definition subghz_protocol_blocks_crc16 :: "u8 list \<Rightarrow> nat \<Rightarrow> u16 \<Rightarrow> u16 \<Rightarrow> u16" where
  "subghz_protocol_blocks_crc16 message data_size polynomial init =
     for_loop 0 data_size (\<lambda>byte remainder. crc_shift_left16 polynomial (remainder XOR shl (ucast (message ! byte)) 8)) init"

section \<open>Shift-register digests\<close>

text \<open>One bit of a digest: the sum takes the key when the bit is set, then the key rolls.\<close>

definition roll_right :: "'a::len word \<Rightarrow> 'a word \<Rightarrow> 'a word" where
  "roll_right gen key = (if key AND 1 \<noteq> 0 then shr key 1 XOR gen else shr key 1)"

definition roll_left8 :: "u8 \<Rightarrow> u8 \<Rightarrow> u8" where
  "roll_left8 gen key = (if key AND 0x80 \<noteq> 0 then shl key 1 XOR gen else shl key 1)"

definition digest_bit :: "('a::len word \<Rightarrow> 'a word) \<Rightarrow> bool \<Rightarrow> 'a word \<times> 'a word \<Rightarrow> 'a word \<times> 'a word" where
  "digest_bit roll b = (\<lambda>(acc, key). (if b then acc XOR key else acc, roll key))"

text \<open>The bits of a byte from the highest to the lowest, and back.\<close>

definition subghz_protocol_blocks_lfsr_digest8 :: "u8 list \<Rightarrow> nat \<Rightarrow> u8 \<Rightarrow> u8 \<Rightarrow> u8" where
  "subghz_protocol_blocks_lfsr_digest8 message data_size gen key =
     fst (for_loop 0 data_size (\<lambda>byte s.
       let b = message ! byte
       in fold (\<lambda>i. digest_bit (roll_right gen) (shr b i AND 1 \<noteq> 0)) [7, 6, 5, 4, 3, 2, 1, 0] s) (0, key))"

definition subghz_protocol_blocks_lfsr_digest8_reflect :: "u8 list \<Rightarrow> nat \<Rightarrow> u8 \<Rightarrow> u8 \<Rightarrow> u8" where
  "subghz_protocol_blocks_lfsr_digest8_reflect message data_size gen key =
     fst (fold (\<lambda>byte s.
       let b = message ! byte
       in for_loop 0 8 (\<lambda>i. digest_bit (roll_left8 gen) (shr b i AND 1 \<noteq> 0)) s) (rev [0..<data_size]) (0, key))"

definition subghz_protocol_blocks_lfsr_digest16 :: "u8 list \<Rightarrow> nat \<Rightarrow> u16 \<Rightarrow> u16 \<Rightarrow> u16" where
  "subghz_protocol_blocks_lfsr_digest16 message data_size gen key =
     fst (for_loop 0 data_size (\<lambda>byte s.
       let b = message ! byte
       in fold (\<lambda>i. digest_bit (roll_right gen) (shr b i AND 1 \<noteq> 0)) [7, 6, 5, 4, 3, 2, 1, 0] s) (0, key))"

section \<open>Sums\<close>

definition subghz_protocol_blocks_add_bytes :: "u8 list \<Rightarrow> nat \<Rightarrow> u8" where
  "subghz_protocol_blocks_add_bytes message data_size =
     ucast (for_loop 0 data_size (\<lambda>i result. result + ucast (message ! i)) (0 :: u32))"

definition subghz_protocol_blocks_parity8 :: "u8 \<Rightarrow> u8" where
  "subghz_protocol_blocks_parity8 byte =
     (let byte = byte XOR shr byte 4;
          byte = byte AND 0xf
      in ucast (shr (0x6996 :: u32) (unat byte) AND 1))"

definition subghz_protocol_blocks_parity_bytes :: "u8 list \<Rightarrow> nat \<Rightarrow> u8" where
  "subghz_protocol_blocks_parity_bytes message data_size =
     for_loop 0 data_size (\<lambda>i result. result XOR subghz_protocol_blocks_parity8 (message ! i)) 0"

definition subghz_protocol_blocks_xor_bytes :: "u8 list \<Rightarrow> nat \<Rightarrow> u8" where
  "subghz_protocol_blocks_xor_bytes message data_size =
     for_loop 0 data_size (\<lambda>i result. result XOR message ! i) 0"

section \<open>KeeLoq\<close>

definition KEELOQ_NLF :: u32 where "KEELOQ_NLF = 0x3A5C742E"

text \<open>The macros \<^verbatim>\<open>bit\<close> and \<^verbatim>\<open>g5\<close>: five bits of the register read as an index into the table.\<close>

definition keeloq_bit :: "'a::len word \<Rightarrow> nat \<Rightarrow> 'a word" where
  "keeloq_bit x n = shr x n AND 1"

definition g5 :: "u32 \<Rightarrow> nat \<Rightarrow> nat \<Rightarrow> nat \<Rightarrow> nat \<Rightarrow> nat \<Rightarrow> u32" where
  "g5 x a b c d e = keeloq_bit x a + keeloq_bit x b * 2 + keeloq_bit x c * 4 + keeloq_bit x d * 8 + keeloq_bit x e * 16"

definition keeloq_encrypt_round :: "u64 \<Rightarrow> nat \<Rightarrow> u32 \<Rightarrow> u32" where
  "keeloq_encrypt_round key r x =
     shr x 1 XOR
     shl (keeloq_bit x 0 XOR keeloq_bit x 16 XOR ucast (keeloq_bit key (unat ((of_nat r :: u32) AND 63))) XOR
          keeloq_bit KEELOQ_NLF (unat (g5 x 1 9 20 26 31))) 31"

definition subghz_protocol_keeloq_common_encrypt :: "u32 \<Rightarrow> u64 \<Rightarrow> u32" where
  "subghz_protocol_keeloq_common_encrypt block key = for_loop 0 528 (keeloq_encrypt_round key) block"

definition keeloq_decrypt_round :: "u64 \<Rightarrow> nat \<Rightarrow> u32 \<Rightarrow> u32" where
  "keeloq_decrypt_round key r x =
     shl x 1 XOR keeloq_bit x 31 XOR keeloq_bit x 15 XOR ucast (keeloq_bit key (unat ((15 - of_nat r :: u32) AND 63))) XOR
     keeloq_bit KEELOQ_NLF (unat (g5 x 0 8 19 25 30))"

definition subghz_protocol_keeloq_common_decrypt :: "u32 \<Rightarrow> u64 \<Rightarrow> u32" where
  "subghz_protocol_keeloq_common_decrypt block key = for_loop 0 528 (keeloq_decrypt_round key) block"

definition subghz_protocol_keeloq_common_normal_learning :: "u32 \<Rightarrow> u64 \<Rightarrow> u64" where
  "subghz_protocol_keeloq_common_normal_learning block key =
     (let block = block AND 0x0FFFFFFF;
          block = block OR 0x20000000;
          k1 = subghz_protocol_keeloq_common_decrypt block key;
          block = block AND 0x0FFFFFFF;
          block = block OR 0x60000000;
          k2 = subghz_protocol_keeloq_common_decrypt block key
      in shl (ucast k2) 32 OR ucast k1)"

definition subghz_protocol_keeloq_common_secure_learning :: "u32 \<Rightarrow> u32 \<Rightarrow> u64 \<Rightarrow> u64" where
  "subghz_protocol_keeloq_common_secure_learning block seed key =
     (let block = block AND 0x0FFFFFFF;
          k1 = subghz_protocol_keeloq_common_decrypt block key;
          k2 = subghz_protocol_keeloq_common_decrypt seed key
      in shl (ucast k1) 32 OR ucast k2)"

definition subghz_protocol_keeloq_common_magic_xor_type1_learning :: "u32 \<Rightarrow> u64 \<Rightarrow> u64" where
  "subghz_protocol_keeloq_common_magic_xor_type1_learning block xor_key =
     (let block = block AND 0x0FFFFFFF
      in (shl (ucast block) 32 OR ucast block) XOR xor_key)"

definition subghz_protocol_keeloq_common_magic_serial_type1_learning :: "u32 \<Rightarrow> u64 \<Rightarrow> u64" where
  "subghz_protocol_keeloq_common_magic_serial_type1_learning block man =
     (man AND 0xFFFFFFFF) OR shl (ucast block) 40 OR
     shl (ucast (((block AND 0xff) + (shr block 8 AND 0xFF)) AND 0xFF)) 32"

text \<open>The key is written through byte pointers; \<open>set_byte64\<close> of the hexadecimal component is that write.\<close>

definition subghz_protocol_keeloq_common_magic_serial_type2_learning :: "u32 \<Rightarrow> u64 \<Rightarrow> u64" where
  "subghz_protocol_keeloq_common_magic_serial_type2_learning block man =
     (let man = set_byte64 man 7 (ucast (shr block 0));
          man = set_byte64 man 6 (ucast (shr block 8));
          man = set_byte64 man 5 (ucast (shr block 16));
          man = set_byte64 man 4 (ucast (shr block 24))
      in man)"

definition subghz_protocol_keeloq_common_magic_serial_type3_learning :: "u32 \<Rightarrow> u64 \<Rightarrow> u64" where
  "subghz_protocol_keeloq_common_magic_serial_type3_learning block man =
     (man AND 0xFFFFFFFFFF000000) OR ucast (block AND 0xFFFFFF)"

section \<open>KeeLoq: decryption undoes encryption\<close>

lemma of_bool_parity_bits:
  "(of_bool a XOR of_bool b :: 'a::len word) = of_bool (a \<noteq> b)"
  by (auto intro: bit_word_eqI simp: bit_simps)

definition nlf :: "u32 \<Rightarrow> bool" where
  "nlf i = bit KEELOQ_NLF (unat i)"

lemma keeloq_bit_eq: "keeloq_bit x n = of_bool (bit x n)"
  by (simp add: keeloq_bit_def)

lemma and_63_eq: "x AND 63 = take_bit 6 (x :: 'a::len word)"
  by (simp add: take_bit_eq_mask mask_eq_exp_minus_1)

lemma unat_and_63_int: "unat ((word_of_int z :: u32) AND 63) = nat (z mod 64)"
proof -
  have "uint ((word_of_int z :: u32) AND 63) = take_bit 6 (take_bit 32 z)"
    by (simp only: and_63_eq unsigned_take_bit_eq uint_word_of_int_eq) simp
  also have "\<dots> = z mod 64" unfolding take_bit_take_bit by (simp add: take_bit_eq_mod)
  finally show ?thesis by (simp add: unat_eq_nat_uint)
qed

lemma unat_and_63: "unat ((of_nat r :: u32) AND 63) = r mod 64"
  using unat_and_63_int [of "int r"] by (simp add: nat_mod_distrib)

lemma decrypt_key_index:
  assumes "r < 528"
  shows "unat ((15 - of_nat r :: u32) AND 63) = (527 - r) mod 64"
proof -
  have "(15 - of_nat r :: u32) = word_of_int (15 - int r)" by simp
  then have "unat ((15 - of_nat r :: u32) AND 63) = nat ((15 - int r) mod 64)" by (simp only: unat_and_63_int)
  also have "15 - int r = int (527 - r) + (- 8) * 64" using assms by (simp add: of_nat_diff)
  also have "nat ((int (527 - r) + (- 8) * 64) mod 64) = nat (int (527 - r) mod 64)" by (simp only: mod_mult_self1)
  finally show ?thesis by (simp only: nat_mod_distrib nat_int of_nat_numeral nat_numeral)
qed

lemma encrypt_round_eq:
  "keeloq_encrypt_round key r x =
     shr x 1 XOR shl (of_bool (bit x 0 \<noteq> (bit x 16 \<noteq> (bit key (r mod 64) \<noteq> nlf (g5 x 1 9 20 26 31))))) 31"
  unfolding keeloq_encrypt_round_def unat_and_63 keeloq_bit_eq nlf_def
  by (simp only: ucast_of_bool of_bool_parity_bits)

lemma decrypt_round_eq:
  "r < 528 \<Longrightarrow> keeloq_decrypt_round key r x =
     shl x 1 XOR of_bool (bit x 31 \<noteq> (bit x 15 \<noteq> (bit key ((527 - r) mod 64) \<noteq> nlf (g5 x 0 8 19 25 30))))"
  unfolding keeloq_decrypt_round_def keeloq_bit_eq nlf_def xor.assoc
  by (simp only: decrypt_key_index ucast_of_bool of_bool_parity_bits)

lemma g5_cong:
  "bit x a = bit y a' \<Longrightarrow> bit x b = bit y b' \<Longrightarrow> bit x c = bit y c' \<Longrightarrow> bit x d = bit y d' \<Longrightarrow> bit x e = bit y e' \<Longrightarrow>
   g5 x a b c d e = g5 y a' b' c' d' e'"
  by (simp only: g5_def keeloq_bit_eq)

lemma bit_encrypt_round:
  "bit (keeloq_encrypt_round key r x) n \<longleftrightarrow>
     (if n = 31 then bit x 0 \<noteq> (bit x 16 \<noteq> (bit key (r mod 64) \<noteq> nlf (g5 x 1 9 20 26 31))) else bit x (Suc n))"
  unfolding encrypt_round_eq by (auto simp: bit_simps dest: bit_imp_le_length)

lemma bit_decrypt_round:
  "r < 528 \<Longrightarrow> n < 32 \<Longrightarrow> bit (keeloq_decrypt_round key r x) n \<longleftrightarrow>
     (if n = 0 then bit x 31 \<noteq> (bit x 15 \<noteq> (bit key ((527 - r) mod 64) \<noteq> nlf (g5 x 0 8 19 25 30))) else bit x (n - 1))"
  by (auto simp: decrypt_round_eq bit_simps)

lemma decrypt_encrypt_round:
  assumes r: "r < 528"
  shows "keeloq_decrypt_round key r (keeloq_encrypt_round key (527 - r) x) = x"
proof (rule bit_word_eqI)
  fix n assume "n < LENGTH(32)"
  then have n: "n < 32" by simp
  have "g5 (keeloq_encrypt_round key (527 - r) x) 0 8 19 25 30 = g5 x 1 9 20 26 31"
    by (rule g5_cong) (simp_all add: bit_encrypt_round)
  then show "bit (keeloq_decrypt_round key r (keeloq_encrypt_round key (527 - r) x)) n = bit x n"
    using n r by (cases "n = 0") (auto simp: bit_decrypt_round bit_encrypt_round)
qed

lemma encrypt_decrypt_round:
  assumes r: "r < 528"
  shows "keeloq_encrypt_round key (527 - r) (keeloq_decrypt_round key r x) = x"
proof (rule bit_word_eqI)
  fix n assume "n < LENGTH(32)"
  then have n: "n < 32" by simp
  have "g5 (keeloq_decrypt_round key r x) 1 9 20 26 31 = g5 x 0 8 19 25 30"
    using r by (intro g5_cong) (simp_all add: bit_decrypt_round)
  then show "bit (keeloq_encrypt_round key (527 - r) (keeloq_decrypt_round key r x)) n = bit x n"
    using n r by (cases "n = 31") (auto simp: bit_decrypt_round bit_encrypt_round)
qed

text \<open>A loop that undoes another, round by round in the opposite order.\<close>

lemma for_loop_inverse:
  assumes "\<And>r x. r < n \<Longrightarrow> g r (f (n - 1 - r) x) = x"
  shows "for_loop 0 n g (for_loop 0 n f x) = x"
proof -
  have "k \<le> n \<Longrightarrow> for_loop (n - k) n g (for_loop 0 k f x) = x" for k
  proof (induction k)
    case (Suc k)
    then have eq: "Suc (n - Suc k) = n - k" "n - 1 - (n - Suc k) = k" by auto
    have "for_loop (n - Suc k) n g (for_loop 0 (Suc k) f x)
        = for_loop (n - k) n g (g (n - Suc k) (f k (for_loop 0 k f x)))"
      using Suc.prems eq by (subst for_loop_unfold) (simp add: for_loop_Suc)
    also have "g (n - Suc k) (f k (for_loop 0 k f x)) = for_loop 0 k f x"
      using assms [of "n - Suc k"] Suc.prems eq by simp
    finally show ?case using Suc by simp
  qed simp
  from this [of n] show ?thesis by simp
qed

lemma keeloq_inverse:
  "subghz_protocol_keeloq_common_decrypt (subghz_protocol_keeloq_common_encrypt x key) key = x"
  "subghz_protocol_keeloq_common_encrypt (subghz_protocol_keeloq_common_decrypt x key) key = x"
proof -
  show "subghz_protocol_keeloq_common_decrypt (subghz_protocol_keeloq_common_encrypt x key) key = x"
    unfolding subghz_protocol_keeloq_common_decrypt_def subghz_protocol_keeloq_common_encrypt_def
    by (rule for_loop_inverse) (simp add: decrypt_encrypt_round)
  show "subghz_protocol_keeloq_common_encrypt (subghz_protocol_keeloq_common_decrypt x key) key = x"
    unfolding subghz_protocol_keeloq_common_decrypt_def subghz_protocol_keeloq_common_encrypt_def
  proof (rule for_loop_inverse)
    fix r x assume "r < (528 :: nat)"
    then show "keeloq_encrypt_round key r (keeloq_decrypt_round key (528 - 1 - r) x) = x"
      using encrypt_decrypt_round [of "528 - 1 - r" key x] by simp
  qed
qed

section \<open>The checks agree with the generic routines\<close>

lemma shift_right_steps:
  "crc_shift_right8 P c = (crc_step P ^^ 8) c" "crc_shift_right16 P' c' = (crc_step P' ^^ 8) c'"
proof -
  have "(\<lambda>crc. if crc AND 1 \<noteq> 0 then shr crc 1 XOR P else shr crc 1) = crc_step P"
    "(\<lambda>crc. if crc AND 1 \<noteq> 0 then shr crc 1 XOR P' else shr crc 1) = crc_step P'"
    by (auto simp: crc_step_def and_1_eq_0_iff)
  then show "crc_shift_right8 P c = (crc_step P ^^ 8) c" "crc_shift_right16 P' c' = (crc_step P' ^^ 8) c'"
    by (simp_all add: crc_shift_right8_def crc_shift_right16_def for_loop_funpow)
qed

lemma shift_left_steps:
  "crc_shift_left8 P c = (msb_step P ^^ 8) c" "crc_shift_left16 P' c' = (msb_step P' ^^ 8) c'"
proof -
  have "(\<lambda>crc. if crc AND 0x80 \<noteq> 0 then shl crc 1 XOR P else shl crc 1) = msb_step P"
    using and_exp_eq_0_iff_not_bit [where ?'a = "8 word" and n = 7] by (auto simp: msb_step_def)
  then show "crc_shift_left8 P c = (msb_step P ^^ 8) c" by (simp add: crc_shift_left8_def for_loop_funpow)
  have "(\<lambda>crc. if crc AND 0x8000 \<noteq> 0 then shl crc 1 XOR P' else shl crc 1) = msb_step P'"
    using and_exp_eq_0_iff_not_bit [where ?'a = "16 word" and n = 15] by (auto simp: msb_step_def)
  then show "crc_shift_left16 P' c' = (msb_step P' ^^ 8) c'" by (simp add: crc_shift_left16_def for_loop_funpow)
qed

lemma reverse_key_bits: "subghz_protocol_blocks_reverse_key key n = bits_val (map (bit key) [0..<n])"
  unfolding subghz_protocol_blocks_reverse_key_def
  by (induction n) (simp_all add: for_loop_Suc bits_val_snoc bit_read_def)

lemma bit_reverse_key:
  "bit (subghz_protocol_blocks_reverse_key key n) i \<longleftrightarrow> i < 64 \<and> i < n \<and> bit key (n - 1 - i)"
  by (auto simp: reverse_key_bits bit_bits_val)

lemma reverse_key_twice:
  assumes "n \<le> 64"
  shows "subghz_protocol_blocks_reverse_key (subghz_protocol_blocks_reverse_key key n) n = take_bit n key"
proof (rule bit_word_eqI)
  fix i assume "i < LENGTH(64)"
  then show "bit (subghz_protocol_blocks_reverse_key (subghz_protocol_blocks_reverse_key key n) n) i = bit (take_bit n key) i"
    using assms by (cases "i < n") (auto simp: bit_reverse_key bit_take_bit_iff)
qed

lemma reverse_key_8: "ucast (subghz_protocol_blocks_reverse_key (ucast b) 8) = word_reverse (b :: u8)"
  by (rule bit_word_eqI) (auto simp: bit_reverse_key bit_simps bit_word_reverse_iff)

text \<open>A reflected register is the mirror image of one that shifts left.\<close>

lemma mirror_bytes8:
  "word_reverse (fold (\<lambda>b c. (msb_step P ^^ 8) (c XOR word_reverse b)) bs c) =
   fold (\<lambda>b c. (crc_step (word_reverse P) ^^ 8) (c XOR b)) bs (word_reverse (c :: u8))"
  by (induction bs arbitrary: c) (simp_all add: reverse_msb_steps reverse_xor)

lemma mirror_bytes16:
  "word_reverse (fold (\<lambda>b c. (msb_step P ^^ 8) (c XOR shl (ucast (word_reverse b)) 8)) bs c) =
   fold (\<lambda>b c. (crc_step (word_reverse P) ^^ 8) (c XOR ucast (b :: u8))) bs (word_reverse (c :: u16))"
proof -
  have "word_reverse (shl (ucast (word_reverse b)) 8 :: u16) = ucast b" for b :: u8
    using reverse_high_byte [of "word_reverse b"] by simp
  then show ?thesis by (induction bs arbitrary: c) (simp_all add: reverse_msb_steps reverse_xor)
qed

lemma subghz_crc8_eq:
  assumes n: "n \<le> length bytes"
  shows "ucast (subghz_protocol_blocks_crc8 bytes n P init) = bit_lib_crc8 bytes n P init False False 0"
  unfolding subghz_protocol_blocks_crc8_def bit_lib_crc8_def Let_def if_False shift_left_steps crc8_byte_eq by simp

lemma subghz_crc16_eq:
  assumes n: "n \<le> length bytes"
  shows "subghz_protocol_blocks_crc16 bytes n P init = bit_lib_crc16 bytes n P init False False 0"
  unfolding subghz_protocol_blocks_crc16_def bit_lib_crc16_def Let_def if_False shift_left_steps crc16_byte_eq by simp

lemma subghz_crc8le_eq:
  assumes n: "n \<le> length bytes"
  shows "ucast (subghz_protocol_blocks_crc8le bytes n P init) = bit_lib_crc8 bytes n P init True True 0"
  unfolding subghz_protocol_blocks_crc8le_def bit_lib_crc8_def Let_def if_True shift_right_steps crc8_byte_eq reflect8_eq
    reverse_key_8 for_loop_bytes [OF n, where f = "\<lambda>b c. (crc_step (word_reverse P) ^^ 8) (c XOR b)"]
    for_loop_bytes [OF n, where f = "\<lambda>b c. (msb_step P ^^ 8) (c XOR word_reverse b)"]
  by (simp add: mirror_bytes8)

lemma subghz_crc16lsb_eq:
  assumes n: "n \<le> length bytes"
  shows "subghz_protocol_blocks_crc16lsb bytes n P init =
    bit_lib_crc16 bytes n (bit_lib_reverse_16_fast P) (bit_lib_reverse_16_fast init) True True 0"
  unfolding subghz_protocol_blocks_crc16lsb_def bit_lib_crc16_def Let_def if_True shift_right_steps crc16_byte_eq reflect_byte16
    for_loop_bytes [OF n, where f = "\<lambda>b c. (crc_step P ^^ 8) (c XOR ucast b)"]
    for_loop_bytes [OF n, where f = "\<lambda>b c. (msb_step (bit_lib_reverse_16_fast P) ^^ 8) (c XOR shl (ucast (word_reverse b)) 8)"]
  by (simp add: mirror_bytes16 reverse_16_fast_eq)

section \<open>Digests and parities\<close>

lemma roll_right_eq: "roll_right gen key = crc_step gen key"
  by (auto simp: roll_right_def crc_step_def and_1_eq_0_iff)

lemma roll_left8_eq: "roll_left8 gen key = msb_step gen key"
  using and_exp_eq_0_iff_not_bit [where ?'a = "8 word" and n = 7] by (auto simp: roll_left8_def msb_step_def)

text \<open>
  A digest over a stream of bits: the keys that meet a set bit are summed, so the digest of the
  sum of two messages is the sum of the digests.
\<close>

lemma digest_fold:
  "fold (digest_bit roll) bs (acc, key) =
   (acc XOR fst (fold (digest_bit roll) bs (0, key)), (roll ^^ length bs) key)"
proof (induction bs arbitrary: acc key)
  case (Cons b bs)
  have step: "digest_bit roll b (s, key) = (s XOR (if b then key else 0), roll key)" for s
    by (simp add: digest_bit_def)
  show ?case
    using Cons [of "acc XOR (if b then key else 0)" "roll key"] Cons [of "if b then key else 0" "roll key"]
    by (simp add: step xor.assoc funpow_Suc_right del: funpow.simps)
qed simp

lemma digest_linear:
  "length as = length bs \<Longrightarrow>
   fst (fold (digest_bit roll) (map2 (\<noteq>) as bs) (0, key)) =
   fst (fold (digest_bit roll) as (0, key)) XOR fst (fold (digest_bit roll) bs (0, key))"
proof (induction as bs arbitrary: key rule: list_induct2)
  case (Cons a as b bs)
  have step: "fst (fold (digest_bit roll) (c # cs) (0, key))
      = (if c then key else 0) XOR fst (fold (digest_bit roll) cs (0, roll key))" for c cs
    using digest_fold [of roll cs "if c then key else 0" "roll key"] by (cases c) (simp_all add: digest_bit_def)
  show ?case
    unfolding list.map zip_Cons_Cons prod.case step Cons.IH by (cases a; cases b) (simp_all add: ac_simps)
qed simp

lemma mirror_digest:
  "map_prod word_reverse word_reverse (fold (digest_bit (msb_step gen)) bs (s, key)) =
   fold (digest_bit (crc_step (word_reverse gen))) bs (word_reverse s, word_reverse (key :: 'a::len word))"
  by (induction bs arbitrary: s key) (simp_all add: digest_bit_def reverse_msb_step reverse_xor)

definition msb_bits :: "u8 \<Rightarrow> bool list" where
  "msb_bits b = map (bit b) [7, 6, 5, 4, 3, 2, 1, 0]"

lemma fold_concat: "fold f (concat (map g xs)) s = fold (\<lambda>x. fold f (g x)) xs s"
  by (induction xs arbitrary: s) simp_all

lemma digest8_stream:
  assumes n: "n \<le> length bytes"
  shows "subghz_protocol_blocks_lfsr_digest8 bytes n gen key =
    fst (fold (digest_bit (crc_step gen)) (concat (map msb_bits (take n bytes))) (0, key))"
proof -
  have "fold (\<lambda>i. digest_bit (roll_right gen) (shr b i AND 1 \<noteq> 0)) [7, 6, 5, 4, 3, 2, 1, 0] s
      = fold (digest_bit (crc_step gen)) (msb_bits b) s" for b :: u8 and s
    by (simp add: msb_bits_def roll_right_eq [abs_def])
  then show ?thesis
    unfolding subghz_protocol_blocks_lfsr_digest8_def Let_def fold_concat
    by (simp add: for_loop_bytes [OF n, where f = "\<lambda>b. fold (digest_bit (crc_step gen)) (msb_bits b)"])
qed

lemma digest8_reflect_stream:
  assumes n: "n \<le> length bytes"
  shows "subghz_protocol_blocks_lfsr_digest8_reflect bytes n gen key =
    fst (fold (digest_bit (msb_step gen)) (concat (map (rev \<circ> msb_bits) (rev (take n bytes)))) (0, key))"
proof -
  have "for_loop 0 8 (\<lambda>i. digest_bit (roll_left8 gen) (shr b i AND 1 \<noteq> 0)) s
      = fold (digest_bit (msb_step gen)) (rev (msb_bits b)) s" for b :: u8 and s
    by (simp add: msb_bits_def roll_left8_eq [abs_def] for_loop_def upt_rec eval_nat_numeral)
  moreover have "rev (take n bytes) = map ((!) bytes) (rev [0..<n])"
    using n by (intro nth_equalityI) (simp_all add: rev_nth)
  ultimately show ?thesis
    unfolding subghz_protocol_blocks_lfsr_digest8_reflect_def Let_def fold_concat by (simp add: fold_map o_def)
qed

lemma reverse_0: "word_reverse (0 :: 'a::len word) = 0"
  by (rule bit_word_eqI) (simp add: bit_word_reverse_iff)

lemma rev_msb_bits: "rev (msb_bits b) = msb_bits (word_reverse b)"
  by (simp add: msb_bits_def bit_word_reverse_iff)

lemma digest8_mirror:
  assumes n: "n \<le> length bytes"
  shows "subghz_protocol_blocks_lfsr_digest8_reflect bytes n gen key =
    bit_lib_reverse_8_fast (subghz_protocol_blocks_lfsr_digest8 (map bit_lib_reverse_8_fast (rev (take n bytes))) n
      (bit_lib_reverse_8_fast gen) (bit_lib_reverse_8_fast key))"
proof -
  let ?bs = "concat (map msb_bits (map word_reverse (rev (take n bytes))))"
  have "subghz_protocol_blocks_lfsr_digest8_reflect bytes n gen key = fst (fold (digest_bit (msb_step gen)) ?bs (0, key))"
    by (simp add: digest8_reflect_stream [OF n] rev_msb_bits o_def)
  moreover have "word_reverse (fst (fold (digest_bit (msb_step gen)) ?bs (0, key)))
      = fst (fold (digest_bit (crc_step (word_reverse gen))) ?bs (0, word_reverse key))"
    using arg_cong [OF mirror_digest [of gen ?bs 0 key], of fst] by (simp only: fst_map_prod reverse_0)
  ultimately show ?thesis using n
    by (simp add: digest8_stream reverse_8_fast_eq [abs_def]) (metis word_rev_rev)
qed

lemma parity_table:
  "n < 16 \<Longrightarrow> bit (0x6996 :: u32) n \<longleftrightarrow> (bit n 0 \<noteq> (bit n 1 \<noteq> (bit n 2 \<noteq> bit n 3)))"
proof -
  have "\<forall>n<16. bit (0x6996 :: u32) n \<longleftrightarrow> (bit n 0 \<noteq> (bit n 1 \<noteq> (bit n 2 \<noteq> bit n 3)))"
    unfolding all_less_16 all_less_8 by (simp add: bit_Suc_0_iff)
  then show "n < 16 \<Longrightarrow> ?thesis" by simp
qed

lemma odd_length_filter: "odd (length (filter P (x # xs))) \<longleftrightarrow> P x \<noteq> odd (length (filter P xs))"
  by simp

lemma parity8_eq: "subghz_protocol_blocks_parity8 b = of_bool (builtin_parity b)"
proof -
  let ?w = "(b XOR shr b 4) AND 0xf"
  have bits: "bit (unat ?w) i \<longleftrightarrow> i < 4 \<and> (bit b i \<noteq> bit b (i + 4))" for i
    by (auto simp: bit_unsigned_iff bit_simps bit_0xF add.commute)
  have "unat ?w \<le> 0xf" using word_and_le1 [of "b XOR shr b 4" "0xf"] by (simp add: word_le_nat_alt)
  then have "bit (0x6996 :: u32) (unat ?w) \<longleftrightarrow> (bit b 0 \<noteq> bit b 4) \<noteq> ((bit b 1 \<noteq> bit b 5) \<noteq> ((bit b 2 \<noteq> bit b 6) \<noteq> (bit b 3 \<noteq> bit b 7)))"
    using parity_table [of "unat ?w"] bits by simp
  moreover have "builtin_parity b \<longleftrightarrow> (bit b 0 \<noteq> bit b 4) \<noteq> ((bit b 1 \<noteq> bit b 5) \<noteq> ((bit b 2 \<noteq> bit b 6) \<noteq> (bit b 3 \<noteq> bit b 7)))"
  proof -
    have "[0..<LENGTH(8)] = [0, 1, 2, 3, 4, 5, 6, 7]" by (simp add: upt_rec)
    then show ?thesis unfolding builtin_parity_def builtin_popcount_def odd_length_filter by simp
  qed
  ultimately show ?thesis by (simp add: subghz_protocol_blocks_parity8_def ucast_of_bool)
qed

lemma parity_bytes_eq:
  assumes n: "n \<le> length bytes"
  shows "subghz_protocol_blocks_parity_bytes bytes n = of_bool (builtin_parity (subghz_protocol_blocks_xor_bytes bytes n))"
proof -
  have "for_loop 0 n (\<lambda>i result. result XOR subghz_protocol_blocks_parity8 (bytes ! i)) 0
      = of_bool (builtin_parity (for_loop 0 n (\<lambda>i result. result XOR bytes ! i) 0))"
  proof (induction n)
    case 0
    then show ?case by (simp add: builtin_parity_def builtin_popcount_def)
  next
    case (Suc n)
    then show ?case by (simp add: for_loop_Suc parity8_eq parity_xor of_bool_parity_bits)
  qed
  then show ?thesis by (simp add: subghz_protocol_blocks_parity_bytes_def subghz_protocol_blocks_xor_bytes_def)
qed

section \<open>Properties\<close>


text \<open>
  The checks of the sub-GHz protocols are the generic ones of \<^verbatim>\<open>bit_lib\<close>: the register that shifts
  left is the unreflected routine of the same width, the one that shifts right the reflected
  one, for every polynomial, initial value and message.
\<close>

theorem subghz_crcs_agree:
  assumes "n \<le> length bytes"
  shows "ucast (subghz_protocol_blocks_crc8 bytes n P8 init8) = bit_lib_crc8 bytes n P8 init8 False False 0 \<and>
    ucast (subghz_protocol_blocks_crc8le bytes n P8 init8) = bit_lib_crc8 bytes n P8 init8 True True 0 \<and>
    subghz_protocol_blocks_crc16 bytes n P16 init16 = bit_lib_crc16 bytes n P16 init16 False False 0 \<and>
    subghz_protocol_blocks_crc16lsb bytes n P16 init16 =
      bit_lib_crc16 bytes n (bit_lib_reverse_16_fast P16) (bit_lib_reverse_16_fast init16) True True 0"
  by (intro conjI) (rule subghz_crc8_eq [OF assms] subghz_crc8le_eq [OF assms] subghz_crc16_eq [OF assms] subghz_crc16lsb_eq [OF assms])+

theorem subghz_crcs_agree_witness:
  "subghz_protocol_blocks_crc16lsb [0x12, 0x34] 2 0x8408 0xFFFF =
     bit_lib_crc16 [0x12, 0x34] 2 (bit_lib_reverse_16_fast 0x8408) (bit_lib_reverse_16_fast 0xFFFF) True True 0 \<and>
   ucast (subghz_protocol_blocks_crc8le [0x12, 0x34] 2 0x31 0xFF) = bit_lib_crc8 [0x12, 0x34] 2 0x31 0xFF True True 0"
  using subghz_crcs_agree [where n = 2 and bytes = "[0x12, 0x34]"] by simp

end
