(* ===== verification/SnakeGame.thy ===== *)
theory SnakeGame
  imports Prelude
begin

text \<open>
  The snake game, \<^verbatim>\<open>applications/system/snake_game/snake_game.c\<close>: the state, the handlers of ticks
  and keys, the drawing and the event queue. \<^verbatim>\<open>rand()\<close> is an argument of the steps that call it.
  A step returns \<open>None\<close> where the C code would index outside an array or divide by zero;
  the invariant of the reachable states shows that it never does.
\<close>

section \<open>State\<close>

text \<open>Coordinates are \<^verbatim>\<open>uint8_t\<close>: one step left of column 0 is column 255.\<close>

record Point =
  px :: u8
  py :: u8

datatype GameState = GameStateLife | GameStateLastChance | GameStateGameOver

datatype Direction = DirectionUp | DirectionRight | DirectionDown | DirectionLeft

fun direction_value :: "Direction \<Rightarrow> nat" where
  "direction_value DirectionUp = 0"
| "direction_value DirectionRight = 1"
| "direction_value DirectionDown = 2"
| "direction_value DirectionLeft = 3"

definition MAX_SNAKE_LEN :: nat where "MAX_SNAKE_LEN = 253"

text \<open>\<^verbatim>\<open>len\<close> is a \<^verbatim>\<open>uint16_t\<close>, kept as a number with its wrap-around written out.\<close>

record SnakeState =
  points :: "Point list"
  len :: nat
  currentMovement :: Direction
  nextMovement :: Direction
  fruit :: Point
  state :: GameState

datatype InputKey = InputKeyUp | InputKeyDown | InputKeyRight | InputKeyLeft | InputKeyOk | InputKeyBack
  | InputKeyMAX

datatype InputType = InputTypePress | InputTypeRelease | InputTypeShort | InputTypeLong | InputTypeRepeat
  | InputTypeMAX

record InputEvent =
  key :: InputKey
  type :: InputType

datatype SnakeEvent = EventTypeTick | EventTypeKey InputEvent

text \<open>The two sequences that a step sends to the notification service, message by message.\<close>

datatype NotificationMessage =
    message_vibro_on | message_vibro_off | message_note_ds4 | message_note_c7
  | message_delay_10 | message_delay_50 | message_sound_off

datatype Notification = sequence_fail | sequence_eat

fun notification_messages :: "Notification \<Rightarrow> NotificationMessage list" where
  "notification_messages sequence_fail =
     [message_vibro_on,
      message_note_ds4, message_delay_10, message_sound_off, message_delay_10,
      message_note_ds4, message_delay_10, message_sound_off, message_delay_10,
      message_note_ds4, message_delay_10, message_sound_off, message_delay_10,
      message_vibro_off]"
| "notification_messages sequence_eat = [message_note_c7, message_delay_50, message_sound_off]"

section \<open>Drawing\<close>

text \<open>The calls on the canvas, in order; colours and fonts are calls as well.\<close>

datatype DrawCall =
    canvas_draw_frame nat nat nat nat
  | canvas_draw_rframe nat nat nat nat nat
  | canvas_draw_box nat nat nat nat
  | canvas_set_color string
  | canvas_set_font string
  | canvas_draw_str nat nat string
  | canvas_draw_str_aligned nat nat string string string

fun digits :: "nat \<Rightarrow> string" where
  "digits n = (if n < 10 then [char_of (48 + n)] else digits (n div 10) @ [char_of (48 + n mod 10)])"

text \<open>
  \<^verbatim>\<open>snprintf\<close> into 12 characters keeps 11 of them; \<^verbatim>\<open>len - 7U\<close> is unsigned. The cell
  coordinates are scaled in \<^verbatim>\<open>uint8_t\<close>.
\<close>

definition snake_game_render_callback :: "SnakeState \<Rightarrow> DrawCall list option" where
  "snake_game_render_callback s = do {
     let f = fruit s;
     let f = f \<lparr>px := px f * 4 + 1, py := py f * 4 + 1\<rparr>;
     furi_check (len s \<le> length (points s));
     let boxes = map (\<lambda>i. let p = points s ! i;
                              p = p \<lparr>px := px p * 4 + 2, py := py p * 4 + 2\<rparr>
                          in canvas_draw_box (unat (px p)) (unat (py p)) 4 4) [0..<len s];
     let banner = (if state s = GameStateGameOver then
         [canvas_set_color ''White'', canvas_draw_box 34 20 62 24,
          canvas_set_color ''Black'', canvas_draw_frame 34 20 62 24,
          canvas_set_font ''Primary'', canvas_draw_str 37 31 ''Game Over'',
          canvas_set_font ''Secondary'',
          canvas_draw_str_aligned 64 41 ''Center'' ''Bottom''
            (take 11 (''Score: '' @ digits (unat (of_nat (len s) - 7 :: u32))))]
       else []);
     Some ([canvas_draw_frame 0 0 128 64, canvas_draw_rframe (unat (px f)) (unat (py f)) 6 6 2] @ boxes @ banner)
   }"

section \<open>Event queue\<close>

text \<open>
  A queue of eight events. The input callback waits for room, so with a full queue it does not
  return before the reader has run (\<open>None\<close>); the timer callback gives up at once.
\<close>

definition snake_event_queue_size :: nat where "snake_event_queue_size = 8"

definition snake_game_input_callback :: "InputEvent \<Rightarrow> SnakeEvent list \<Rightarrow> SnakeEvent list option" where
  "snake_game_input_callback input_event event_queue =
     (if length event_queue < snake_event_queue_size then Some (event_queue @ [EventTypeKey input_event]) else None)"

definition snake_game_update_timer_callback :: "SnakeEvent list \<Rightarrow> SnakeEvent list" where
  "snake_game_update_timer_callback event_queue =
     (if length event_queue < snake_event_queue_size then event_queue @ [EventTypeTick] else event_queue)"

section \<open>Game\<close>

definition snake_start :: "Point list" where
  "snake_start = map (\<lambda>(a, b). \<lparr>px = a, py = b\<rparr>) [(8, 6), (7, 6), (6, 6), (5, 6), (4, 6), (3, 6), (2, 6)]"

definition snake_game_init_game :: "SnakeState \<Rightarrow> SnakeState option" where
  "snake_game_init_game s = do {
     ps \<leftarrow> memcpy (points s) 0 snake_start 0 7;
     Some (s \<lparr>points := ps, len := 7, currentMovement := DirectionRight, nextMovement := DirectionRight,
             fruit := \<lparr>px = 18, py = 6\<rparr>, state := GameStateLife\<rparr>)
   }"

definition snake_mark_cell :: "Point \<Rightarrow> u16 list \<times> u8 \<Rightarrow> (u16 list \<times> u8) option" where
  "snake_mark_cell p = (\<lambda>(buffer, empty).
     if px p mod 2 \<noteq> 0 \<or> py p mod 2 \<noteq> 0 then Some (buffer, empty)
     else do {
       let p = p \<lparr>px := px p div 2, py := py p div 2\<rparr>;
       row \<leftarrow> rd buffer (unat (py p));
       buffer \<leftarrow> wr buffer (unat (py p)) (row OR shl 1 (unat (px p)));
       Some (buffer, empty - 1)
     })"

fun snake_mark_cells :: "Point list \<Rightarrow> u16 list \<times> u8 \<Rightarrow> (u16 list \<times> u8) option" where
  "snake_mark_cells [] b = Some b"
| "snake_mark_cells (p # ps) b = do { b \<leftarrow> snake_mark_cell p b; snake_mark_cells ps b }"

text \<open>The scan of the field, row by row; the last equation is the end the code never reaches.\<close>

fun snake_skip_fields :: "u16 list \<Rightarrow> (nat \<times> nat) list \<Rightarrow> nat \<Rightarrow> Point" where
  "snake_skip_fields buffer ((b, a) # rest) newFruit =
     (if buffer ! b AND shl 1 a = 0 then
        if newFruit = 0 then \<lparr>px = of_nat (a * 2), py = of_nat (b * 2)\<rparr>
        else snake_skip_fields buffer rest (newFruit - 1)
      else snake_skip_fields buffer rest newFruit)"
| "snake_skip_fields buffer [] newFruit = \<lparr>px = 0, py = 0\<rparr>"

definition snake_game_get_new_fruit :: "nat \<Rightarrow> SnakeState \<Rightarrow> Point option" where
  "snake_game_get_new_fruit rand s = do {
     furi_check (len s \<le> length (points s));
     (buffer, empty) \<leftarrow> snake_mark_cells (take (len s) (points s)) (replicate 8 0, 8 * 16);
     furi_check (empty \<noteq> 0);
     Some (snake_skip_fields buffer (List.product [0..<8] [0..<16]) (rand mod unat empty))
   }"

definition snake_game_collision_with_frame :: "Point \<Rightarrow> bool" where
  "snake_game_collision_with_frame next_step \<longleftrightarrow> px next_step > 30 \<or> py next_step > 14"

definition snake_game_collision_with_tail :: "SnakeState \<Rightarrow> Point \<Rightarrow> bool option" where
  "snake_game_collision_with_tail s next_step = do {
     furi_check (len s \<le> length (points s));
     Some (list_ex (\<lambda>p. px p = px next_step \<and> py p = py next_step) (take (len s) (points s)))
   }"

definition snake_game_get_turn_snake :: "SnakeState \<Rightarrow> Direction" where
  "snake_game_get_turn_snake s =
     (let is_orthogonal = ((direction_value (currentMovement s) + direction_value (nextMovement s)) mod 2 = 1)
      in if is_orthogonal then nextMovement s else currentMovement s)"

definition snake_game_get_next_step :: "SnakeState \<Rightarrow> Point option" where
  "snake_game_get_next_step s = do {
     next_step \<leftarrow> rd (points s) 0;
     Some (case currentMovement s of
         DirectionUp \<Rightarrow> next_step \<lparr>py := py next_step - 1\<rparr>
       | DirectionRight \<Rightarrow> next_step \<lparr>px := px next_step + 1\<rparr>
       | DirectionDown \<Rightarrow> next_step \<lparr>py := py next_step + 1\<rparr>
       | DirectionLeft \<Rightarrow> next_step \<lparr>px := px next_step - 1\<rparr>)
   }"

definition snake_game_move_snake :: "SnakeState \<Rightarrow> Point \<Rightarrow> SnakeState option" where
  "snake_game_move_snake s next_step = do {
     ps \<leftarrow> memcpy (points s) 1 (points s) 0 (len s);
     ps \<leftarrow> wr ps 0 next_step;
     Some (s \<lparr>points := ps\<rparr>)
   }"

definition snake_game_process_game_step :: "nat \<Rightarrow> SnakeState \<Rightarrow> (SnakeState \<times> Notification list) option" where
  "snake_game_process_game_step rand s =
     (if state s = GameStateGameOver then Some (s, [])
      else do {
        head \<leftarrow> rd (points s) 0;
        let can_turn = (px head mod 2 = 0 \<and> py head mod 2 = 0);
        let s = (if can_turn then s \<lparr>currentMovement := snake_game_get_turn_snake s\<rparr> else s);
        next_step \<leftarrow> snake_game_get_next_step s;
        let crush = snake_game_collision_with_frame next_step;
        if crush \<and> state s = GameStateLife then Some (s \<lparr>state := GameStateLastChance\<rparr>, [])
        else if crush \<and> state s = GameStateLastChance then Some (s \<lparr>state := GameStateGameOver\<rparr>, [sequence_fail])
        else do {
          let s = (if \<not> crush \<and> state s = GameStateLastChance then s \<lparr>state := GameStateLife\<rparr> else s);
          crush \<leftarrow> snake_game_collision_with_tail s next_step;
          if crush then Some (s \<lparr>state := GameStateGameOver\<rparr>, [sequence_fail])
          else do {
            let eatFruit = (px next_step = px (fruit s) \<and> py next_step = py (fruit s));
            let s = (if eatFruit then s \<lparr>len := (len s + 1) mod 2 ^ 16\<rparr> else s);
            if eatFruit \<and> len s \<ge> MAX_SNAKE_LEN then Some (s \<lparr>state := GameStateGameOver\<rparr>, [sequence_fail])
            else do {
              s \<leftarrow> snake_game_move_snake s next_step;
              if eatFruit then do {
                f \<leftarrow> snake_game_get_new_fruit rand s;
                Some (s \<lparr>fruit := f\<rparr>, [sequence_eat])
              } else Some (s, [])
            }
          }
        }
      })"

text \<open>
  One turn of the loop of \<^verbatim>\<open>snake_game_app\<close>: an event, or \<open>None\<close> when the queue stayed empty. The
  first component is \<^verbatim>\<open>processing\<close>.
\<close>

definition snake_game_key :: "InputKey \<Rightarrow> SnakeState \<Rightarrow> (bool \<times> SnakeState) option" where
  "snake_game_key k s = (case k of
       InputKeyUp \<Rightarrow> Some (True, s \<lparr>nextMovement := DirectionUp\<rparr>)
     | InputKeyDown \<Rightarrow> Some (True, s \<lparr>nextMovement := DirectionDown\<rparr>)
     | InputKeyRight \<Rightarrow> Some (True, s \<lparr>nextMovement := DirectionRight\<rparr>)
     | InputKeyLeft \<Rightarrow> Some (True, s \<lparr>nextMovement := DirectionLeft\<rparr>)
     | InputKeyOk \<Rightarrow> if state s = GameStateGameOver then do { s \<leftarrow> snake_game_init_game s; Some (True, s) }
                     else Some (True, s)
     | InputKeyBack \<Rightarrow> Some (False, s)
     | InputKeyMAX \<Rightarrow> Some (True, s))"

definition snake_game_event :: "nat \<Rightarrow> SnakeEvent option \<Rightarrow> SnakeState \<Rightarrow> (bool \<times> SnakeState \<times> Notification list) option" where
  "snake_game_event rand event s = (case event of
       None \<Rightarrow> Some (True, s, [])
     | Some (EventTypeKey e) \<Rightarrow>
         if type e = InputTypePress then do { (processing, s) \<leftarrow> snake_game_key (key e) s; Some (processing, s, []) }
         else Some (True, s, [])
     | Some EventTypeTick \<Rightarrow> do { (s, ns) \<leftarrow> snake_game_process_game_step rand s; Some (True, s, ns) })"

text \<open>The whole loop, over the events and random numbers it meets.\<close>

fun snake_game_app_loop :: "(nat \<times> SnakeEvent option) list \<Rightarrow> SnakeState \<Rightarrow> (SnakeState \<times> Notification list) option" where
  "snake_game_app_loop [] s = Some (s, [])"
| "snake_game_app_loop ((rand, e) # es) s = do {
     (processing, s, ns) \<leftarrow> snake_game_event rand e s;
     if processing then do { (s, ns') \<leftarrow> snake_game_app_loop es s; Some (s, ns @ ns') } else Some (s, ns)
   }"

definition snake_game_app :: "SnakeState \<Rightarrow> (nat \<times> SnakeEvent option) list \<Rightarrow> (SnakeState \<times> Notification list) option" where
  "snake_game_app memory events = do { s \<leftarrow> snake_game_init_game memory; snake_game_app_loop events s }"

section \<open>The field\<close>

text \<open>The snake as a list of cells, head first.\<close>

definition cells :: "SnakeState \<Rightarrow> Point list" where
  "cells s = take (len s) (points s)"

text \<open>Intersections have two even coordinates; the snake runs on the lines between them.\<close>

definition crossing :: "Point \<Rightarrow> bool" where
  "crossing p \<longleftrightarrow> even (unat (px p)) \<and> even (unat (py p))"

definition on_track :: "Point \<Rightarrow> bool" where
  "on_track p \<longleftrightarrow> unat (px p) \<le> 30 \<and> unat (py p) \<le> 14 \<and> (even (unat (px p)) \<or> even (unat (py p)))"

definition adjacent :: "Point \<Rightarrow> Point \<Rightarrow> bool" where
  "adjacent p q \<longleftrightarrow>
     (py p = py q \<and> (unat (px p) = Suc (unat (px q)) \<or> unat (px q) = Suc (unat (px p)))) \<or>
     (px p = px q \<and> (unat (py p) = Suc (unat (py q)) \<or> unat (py q) = Suc (unat (py p))))"

definition horizontal :: "Direction \<Rightarrow> bool" where
  "horizontal d \<longleftrightarrow> d = DirectionLeft \<or> d = DirectionRight"

definition along :: "Direction \<Rightarrow> Point \<Rightarrow> bool" where
  "along d p \<longleftrightarrow> (if horizontal d then even (unat (py p)) else even (unat (px p)))"

text \<open>The invariant of the game.\<close>

definition snake_ok :: "SnakeState \<Rightarrow> bool" where
  "snake_ok s \<longleftrightarrow>
     length (points s) = MAX_SNAKE_LEN \<and> 7 \<le> len s \<and> len s \<le> MAX_SNAKE_LEN \<and>
     (state s \<noteq> GameStateGameOver \<longrightarrow>
        len s < MAX_SNAKE_LEN \<and> list_all on_track (cells s) \<and> distinct (cells s) \<and>
        successively adjacent (cells s) \<and> along (currentMovement s) (points s ! 0) \<and>
        crossing (fruit s) \<and> on_track (fruit s) \<and> fruit s \<notin> set (cells s))"

lemma Point_eq: "p = q \<longleftrightarrow> px p = px q \<and> py p = py (q :: Point)"
  by (cases p; cases q) simp

lemma word_mod_2: "x mod 2 = 0 \<longleftrightarrow> even (unat (x :: u8))"
proof -
  have "unat (x mod 2) = unat x mod 2" by (simp add: unat_mod)
  then show ?thesis by (simp add: unat_eq_0 [symmetric] even_iff_mod_2_eq_zero)
qed

lemma can_turn_iff: "px p mod 2 = 0 \<and> py p mod 2 = 0 \<longleftrightarrow> crossing p"
  by (simp add: crossing_def word_mod_2)

lemma crossing_alternates: "adjacent p q \<Longrightarrow> on_track p \<Longrightarrow> on_track q \<Longrightarrow> crossing p \<noteq> crossing q"
  by (auto simp: adjacent_def on_track_def crossing_def)

section \<open>New fruit\<close>

text \<open>At most every second cell of the snake is an intersection.\<close>

lemma alternating_filter:
  "successively (\<lambda>p q. P p \<noteq> P q) xs \<Longrightarrow> 2 * length (filter P xs) \<le> Suc (length xs)"
proof (induction xs rule: induct_list012)
  case (3 a b xs)
  then show ?case by (cases "P a"; cases "P b") (auto simp: successively_Cons)
qed auto

lemma crossings_of_snake:
  assumes "list_all on_track ps" "successively adjacent ps"
  shows "2 * length (filter crossing ps) \<le> Suc (length ps)"
proof (rule alternating_filter)
  show "successively (\<lambda>p q. crossing p \<noteq> crossing q) ps"
    using assms by (induction ps rule: induct_list012) (auto dest: crossing_alternates)
qed

definition cell :: "nat \<Rightarrow> nat \<Rightarrow> Point" where
  "cell a b = \<lparr>px = of_nat (a * 2), py = of_nat (b * 2)\<rparr>"

lemma cell_coords:
  "a < 16 \<Longrightarrow> unat (px (cell a b)) = 2 * a" "b < 8 \<Longrightarrow> unat (py (cell a b)) = 2 * b"
  by (simp_all only: cell_def Point.select_convs unat_of_nat) simp_all

lemma cell_of_crossing:
  assumes "on_track p" "crossing p"
  shows "p = cell (unat (px p) div 2) (unat (py p) div 2)"
  using assms by (auto simp: Point_eq cell_def crossing_def elim!: evenE)

lemma cell_inj:
  assumes "a < 16" "b < 8" "a' < 16" "b' < 8"
  shows "cell a b = cell a' b' \<longleftrightarrow> a = a' \<and> b = b'"
proof
  assume eq: "cell a b = cell a' b'"
  have "2 * a = 2 * a'" using cell_coords(1) assms eq by metis
  moreover have "2 * b = 2 * b'" using cell_coords(2) assms eq by metis
  ultimately show "a = a' \<and> b = b'" by simp
qed simp

lemma crossing_cell: "a < 16 \<Longrightarrow> b < 8 \<Longrightarrow> crossing (cell a b) \<and> on_track (cell a b)"
  by (simp add: crossing_def on_track_def cell_coords)

text \<open>The free intersections in the order of the scan: what a random number chooses from.\<close>

definition free_cells :: "Point list \<Rightarrow> (nat \<times> nat) list \<Rightarrow> Point list" where
  "free_cells ps bas = filter (\<lambda>p. p \<notin> set ps) (map (\<lambda>(b, a). cell a b) bas)"

definition free_fields :: "Point list \<Rightarrow> Point list" where
  "free_fields ps = free_cells ps (List.product [0..<8] [0..<16])"

text \<open>What the marks stand for: bit \<open>a\<close> of row \<open>b\<close> is set when the snake holds that intersection.\<close>

definition marked :: "u16 list \<Rightarrow> Point set \<Rightarrow> bool" where
  "marked buffer S \<longleftrightarrow> length buffer = 8 \<and> (\<forall>b<8. \<forall>a<16. bit (buffer ! b) a \<longleftrightarrow> cell a b \<in> S)"

lemma unat_div_2: "unat (x div 2 :: u8) = unat x div 2"
  by (simp add: unat_div)

lemma mark_cell:
  assumes p: "on_track p" and m: "marked buffer S"
  shows "\<exists>buffer'. snake_mark_cell p (buffer, n) = Some (buffer', if crossing p then n - 1 else n) \<and>
    marked buffer' (insert p S)"
proof (cases "crossing p")
  case False
  then have "cell a b \<noteq> p" if "a < 16" "b < 8" for a b using crossing_cell that by metis
  then show ?thesis using False m can_turn_iff [of p]
    by (auto simp: snake_mark_cell_def marked_def)
next
  case True
  let ?a = "unat (px p) div 2" and ?b = "unat (py p) div 2"
  let ?buffer = "buffer[?b := buffer ! ?b OR shl 1 ?a]"
  have le: "?a < 16" "?b < 8" using p by (auto simp: on_track_def)
  have p_eq: "p = cell ?a ?b" using p True by (rule cell_of_crossing)
  have "bit (?buffer ! b) a \<longleftrightarrow> cell a b \<in> insert p S" if ab: "b < 8" "a < 16" for a b
  proof -
    have "cell a b = p \<longleftrightarrow> a = ?a \<and> b = ?b" using cell_inj [of a b ?a ?b] le ab p_eq by simp
    moreover have "bit (buffer ! b) a \<longleftrightarrow> cell a b \<in> S" using m ab by (simp add: marked_def)
    ultimately show ?thesis using ab le m by (auto simp: marked_def nth_list_update bit_simps)
  qed
  then have "marked ?buffer (insert p S)" using m by (simp add: marked_def)
  moreover have "snake_mark_cell p (buffer, n) = Some (?buffer, n - 1)"
    using True can_turn_iff [of p] le m by (simp add: snake_mark_cell_def unat_div_2 c_defs marked_def)
  ultimately show ?thesis using True by simp
qed

lemma mark_cells:
  assumes "list_all on_track ps" "marked buffer S"
  shows "\<exists>buffer'. snake_mark_cells ps (buffer, n) = Some (buffer', n - of_nat (length (filter crossing ps))) \<and>
    marked buffer' (set ps \<union> S)"
  using assms
proof (induction ps arbitrary: buffer n S)
  case (Cons p ps)
  obtain b1 where b1: "snake_mark_cell p (buffer, n) = Some (b1, if crossing p then n - 1 else n)" "marked b1 (insert p S)"
    using mark_cell [of p buffer S n] Cons.prems by auto
  obtain b2 where "snake_mark_cells ps (b1, if crossing p then n - 1 else n)
      = Some (b2, (if crossing p then n - 1 else n) - of_nat (length (filter crossing ps)))" "marked b2 (set ps \<union> insert p S)"
    using Cons.IH [OF _ b1(2)] Cons.prems by auto
  then show ?case using b1 by auto
qed auto

lemma free_cells_Nil: "free_cells ps [] = []"
  by (simp add: free_cells_def)

lemma free_cells_Cons:
  "free_cells ps ((b, a) # bas) = (if cell a b \<in> set ps then free_cells ps bas else cell a b # free_cells ps bas)"
  by (simp add: free_cells_def)

lemma skip_fields_Cons:
  "snake_skip_fields buffer ((b, a) # bas) k =
     (if \<not> bit (buffer ! b) a then if k = 0 then cell a b else snake_skip_fields buffer bas (k - 1)
      else snake_skip_fields buffer bas k)"
proof -
  have "buffer ! b AND shl 1 a = 0 \<longleftrightarrow> \<not> bit (buffer ! b) a"
    using and_exp_eq_0_iff_not_bit [of "buffer ! b" a] by (simp add: push_bit_of_1)
  then show ?thesis by (simp only: snake_skip_fields.simps cell_def)
qed

lemma skip_fields:
  assumes m: "marked buffer (set ps)"
  shows "\<forall>(b, a) \<in> set bas. b < 8 \<and> a < 16 \<Longrightarrow> k < length (free_cells ps bas) \<Longrightarrow>
    snake_skip_fields buffer bas k = free_cells ps bas ! k"
proof (induction bas arbitrary: k)
  case (Cons ba bas)
  obtain b a where ba: "ba = (b, a)" by (cases ba)
  have free: "bit (buffer ! b) a \<longleftrightarrow> cell a b \<in> set ps"
    using m Cons.prems(1) ba by (simp add: marked_def)
  have IH: "k' < length (free_cells ps bas) \<Longrightarrow> snake_skip_fields buffer bas k' = free_cells ps bas ! k'" for k'
    using Cons.IH Cons.prems(1) by simp
  show ?case
  proof (cases "cell a b \<in> set ps")
    case True
    then show ?thesis using Cons.prems(2) IH free unfolding ba skip_fields_Cons free_cells_Cons by simp
  next
    case False
    then show ?thesis using Cons.prems(2) IH [of "k - 1"] free unfolding ba skip_fields_Cons free_cells_Cons by (cases k) simp_all
  qed
qed (simp add: free_cells_Nil)

abbreviation scan :: "(nat \<times> nat) list" where
  "scan \<equiv> List.product [0..<8] [0..<16]"

lemma scan_range: "(b, a) \<in> set scan \<longleftrightarrow> b < 8 \<and> a < 16"
  by auto

lemma free_fields_iff: "p \<in> set (free_fields ps) \<longleftrightarrow> crossing p \<and> on_track p \<and> p \<notin> set ps"
proof
  assume "p \<in> set (free_fields ps)"
  then show "crossing p \<and> on_track p \<and> p \<notin> set ps"
    unfolding free_fields_def free_cells_def by (auto simp: crossing_cell)
next
  assume p: "crossing p \<and> on_track p \<and> p \<notin> set ps"
  let ?a = "unat (px p) div 2" and ?b = "unat (py p) div 2"
  have "p = cell ?a ?b" using p cell_of_crossing by blast
  moreover have "(?b, ?a) \<in> set scan" using p unfolding scan_range by (auto simp: on_track_def)
  ultimately show "p \<in> set (free_fields ps)" using p
    unfolding free_fields_def free_cells_def by (force simp del: set_product)
qed

lemma distinct_scan: "distinct scan"
  by (simp add: distinct_product)

lemma length_scan: "length scan = 128"
  by (simp add: length_product)

lemma distinct_cells_scan: "distinct (map (\<lambda>(b, a). cell a b) scan)"
proof -
  have "inj_on (\<lambda>(b, a). cell a b) (set scan)"
    by (rule inj_onI) (use cell_inj scan_range in fastforce)
  then show ?thesis using distinct_scan unfolding distinct_map by blast
qed

lemma length_free_fields:
  assumes "list_all on_track ps" "distinct ps"
  shows "length (free_fields ps) + length (filter crossing ps) = 128"
proof -
  let ?F = "map (\<lambda>(b, a). cell a b) scan"
  have "set (filter (\<lambda>p. p \<in> set ps) ?F) = set (filter crossing ps)"
    using free_fields_iff [of _ "[]"] assms(1)
    by (auto simp: free_fields_def free_cells_def list_all_iff simp del: set_map set_product) 
  then have "length (filter (\<lambda>p. p \<in> set ps) ?F) = length (filter crossing ps)"
    using distinct_cells_scan assms(2) by (metis distinct_card distinct_filter)
  moreover have "length (filter (\<lambda>p. p \<in> set ps) ?F) + length (filter (\<lambda>p. p \<notin> set ps) ?F) = length ?F"
    by (rule sum_length_filter_compl)
  ultimately show ?thesis using length_scan unfolding free_fields_def free_cells_def by (simp only: length_map)
qed

lemma get_new_fruit:
  assumes "len s \<le> length (points s)" "list_all on_track (cells s)" "distinct (cells s)" "successively adjacent (cells s)" "len s < MAX_SNAKE_LEN"
  shows "free_fields (cells s) \<noteq> [] \<and>
    snake_game_get_new_fruit r s = Some (free_fields (cells s) ! (r mod length (free_fields (cells s))))"
proof -
  let ?n = "length (filter crossing (cells s))"
  have n: "?n \<le> 126" using crossings_of_snake [OF assms(2,4)] assms(1,5) by (simp add: cells_def MAX_SNAKE_LEN_def)
  then have free: "length (free_fields (cells s)) = 128 - ?n" using length_free_fields [OF assms(2,3)] by simp
  have "marked (replicate 8 0) {}" by (simp add: marked_def)
  then obtain buffer where b: "snake_mark_cells (cells s) (replicate 8 0, 8 * 16) = Some (buffer, 8 * 16 - of_nat ?n)"
    "marked buffer (set (cells s))"
    using mark_cells [OF assms(2), of "replicate 8 0" "{}" "8 * 16"] by auto
  have "(8 * 16 - of_nat ?n :: u8) = of_nat (128 - ?n)" using n by (simp add: of_nat_diff)
  then have e: "unat (8 * 16 - of_nat ?n :: u8) = 128 - ?n" by (simp add: unat_of_nat)
  have "snake_skip_fields buffer scan (r mod (128 - ?n)) = free_fields (cells s) ! (r mod (128 - ?n))"
    unfolding free_fields_def using free n by (intro skip_fields [OF b(2)]) (auto simp: free_fields_def)
  moreover have "(8 * 16 - of_nat ?n :: u8) \<noteq> 0"
  proof
    assume "(8 * 16 - of_nat ?n :: u8) = 0"
    with e have "128 - ?n = 0" by (simp only: unat_0)
    with n show False by simp
  qed
  moreover have "free_fields (cells s) \<noteq> []" using free n by auto
  ultimately show ?thesis
    unfolding snake_game_get_new_fruit_def cells_def [symmetric] b(1) free using assms(1) e by simp
qed

section \<open>Steps\<close>

text \<open>The cell next to \<open>p\<close> in direction \<open>d\<close>.\<close>

definition step_cell :: "Direction \<Rightarrow> Point \<Rightarrow> Point" where
  "step_cell d p = (case d of
       DirectionUp \<Rightarrow> p \<lparr>py := py p - 1\<rparr> | DirectionRight \<Rightarrow> p \<lparr>px := px p + 1\<rparr>
     | DirectionDown \<Rightarrow> p \<lparr>py := py p + 1\<rparr> | DirectionLeft \<Rightarrow> p \<lparr>px := px p - 1\<rparr>)"

lemma get_next_step: "0 < length (points s) \<Longrightarrow> snake_game_get_next_step s = Some (step_cell (currentMovement s) (points s ! 0))"
  by (simp add: snake_game_get_next_step_def step_cell_def c_defs)

lemma collision_frame_iff: "snake_game_collision_with_frame p \<longleftrightarrow> 30 < unat (px p) \<or> 14 < unat (py p)"
  by (simp add: snake_game_collision_with_frame_def word_less_nat_alt)

lemma collision_tail_iff:
  "len s \<le> length (points s) \<Longrightarrow> snake_game_collision_with_tail s p = Some (p \<in> set (cells s))"
  by (auto simp: snake_game_collision_with_tail_def cells_def list_ex_iff Point_eq [symmetric])

lemma unat_inc: "unat (x :: u8) \<le> 30 \<Longrightarrow> unat (x + 1) = Suc (unat x)"
  by (simp add: unat_word_ariths)

lemma unat_dec: "unat (x - 1 :: u8) = (if x = 0 then 255 else unat x - 1)"
proof (cases "x = 0")
  case True
  have "unat (- 1 :: u8) = 255" by code_simp
  then show ?thesis using True by simp
qed (simp add: unat_minus_one)

text \<open>A step inside the frame changes one coordinate by one and stays on the lines.\<close>

lemma step_coords:
  assumes "on_track p" "\<not> snake_game_collision_with_frame (step_cell d p)"
  shows "(horizontal d \<and> py (step_cell d p) = py p \<and>
      (unat (px (step_cell d p)) = Suc (unat (px p)) \<or> unat (px p) = Suc (unat (px (step_cell d p))))) \<or>
    (\<not> horizontal d \<and> px (step_cell d p) = px p \<and>
      (unat (py (step_cell d p)) = Suc (unat (py p)) \<or> unat (py p) = Suc (unat (py (step_cell d p)))))"
proof -
  have pos: "x \<noteq> 0 \<Longrightarrow> unat x = Suc (unat x - 1)" for x :: u8 by (simp add: unat_gt_0)
  show ?thesis
  proof (cases d)
    case DirectionUp
    then have "py p \<noteq> 0" using assms(2) unfolding collision_frame_iff step_cell_def by (auto simp: unat_dec)
    then show ?thesis using DirectionUp pos [of "py p"] by (simp add: step_cell_def horizontal_def unat_dec)
  next
    case DirectionLeft
    then have "px p \<noteq> 0" using assms(2) unfolding collision_frame_iff step_cell_def by (auto simp: unat_dec)
    then show ?thesis using DirectionLeft pos [of "px p"] by (simp add: step_cell_def horizontal_def unat_dec)
  qed (use assms(1) in \<open>simp_all add: step_cell_def horizontal_def on_track_def unat_inc\<close>)
qed

lemma step_cell_track:
  assumes "on_track p" "along d p" "\<not> snake_game_collision_with_frame (step_cell d p)"
  shows "on_track (step_cell d p) \<and> adjacent (step_cell d p) p \<and> along d (step_cell d p)"
  using step_coords [OF assms(1,3)] assms
  by (auto simp: on_track_def along_def adjacent_def collision_frame_iff)

lemma snake_okD:
  assumes "snake_ok s"
  shows "length (points s) = MAX_SNAKE_LEN" "7 \<le> len s" "len s \<le> MAX_SNAKE_LEN"
    and "state s \<noteq> GameStateGameOver \<Longrightarrow> len s < MAX_SNAKE_LEN"
    and "state s \<noteq> GameStateGameOver \<Longrightarrow> list_all on_track (cells s) \<and> distinct (cells s) \<and> successively adjacent (cells s)"
    and "state s \<noteq> GameStateGameOver \<Longrightarrow> along (currentMovement s) (points s ! 0)"
    and "state s \<noteq> GameStateGameOver \<Longrightarrow> crossing (fruit s) \<and> on_track (fruit s) \<and> fruit s \<notin> set (cells s)"
  using assms by (auto simp: snake_ok_def)

lemma cells_Cons: "0 < len s \<Longrightarrow> len s \<le> length (points s) \<Longrightarrow> cells s = points s ! 0 # take (len s - 1) (drop 1 (points s))"
  by (cases "points s"; cases "len s") (simp_all add: cells_def)

text \<open>Moving: the array shifts by one and the head is the new cell.\<close>

lemma move_snake:
  assumes "0 < len s" "len s < length (points s)"
  shows "\<exists>ps. snake_game_move_snake s p = Some (s \<lparr>points := ps\<rparr>) \<and> length ps = length (points s) \<and>
    take (len s) ps = p # take (len s - 1) (points s)"
proof -
  obtain n where n: "len s = Suc n" using assms(1) by (cases "len s") auto
  let ?ps = "p # take (len s) (points s) @ drop (1 + len s) (points s)"
  have "memcpy (points s) 1 (points s) 0 (len s) = Some (points s ! 0 # take (len s) (points s) @ drop (1 + len s) (points s))"
    using assms by (cases "points s") (simp_all add: memcpy_def)
  then have "snake_game_move_snake s p = Some (s \<lparr>points := ?ps\<rparr>)"
    by (simp add: snake_game_move_snake_def wr_def)
  moreover have "take (len s) ?ps = p # take (len s - 1) (points s)" using n assms by simp
  ultimately show ?thesis using assms by (intro exI [of _ ?ps]) simp
qed

text \<open>The turn at an intersection.\<close>

definition turned :: "SnakeState \<Rightarrow> SnakeState" where
  "turned s = (if crossing (points s ! 0) then s \<lparr>currentMovement := snake_game_get_turn_snake s\<rparr> else s)"

lemma turned_simps [simp]:
  "points (turned s) = points s" "len (turned s) = len s" "fruit (turned s) = fruit s" "state (turned s) = state s"
  "nextMovement (turned s) = nextMovement s" "cells (turned s) = cells s"
  by (simp_all add: turned_def cells_def)

lemma along_crossing: "crossing p \<Longrightarrow> along d p"
  by (simp add: crossing_def along_def)

lemma turned_along: "along (currentMovement s) (points s ! 0) \<Longrightarrow> along (currentMovement (turned s)) (points s ! 0)"
  by (simp add: turned_def along_crossing)

text \<open>The abstract step: what one tick does to the snake as a list of cells.\<close>

definition next_cell :: "SnakeState \<Rightarrow> Point" where
  "next_cell s = step_cell (currentMovement (turned s)) (points s ! 0)"

lemma process_over: "state s = GameStateGameOver \<Longrightarrow> snake_game_process_game_step r s = Some (s, [])"
  by (simp add: snake_game_process_game_step_def)

lemma set_life: "state t = GameStateLife \<Longrightarrow> t \<lparr>state := GameStateLife\<rparr> = t"
  by simp

lemma process_unfold:
  assumes "snake_ok s" "state s \<noteq> GameStateGameOver"
  shows "snake_game_process_game_step r s =
    (let t = turned s; q = next_cell s in
     if snake_game_collision_with_frame q then
       if state s = GameStateLife then Some (t \<lparr>state := GameStateLastChance\<rparr>, [])
       else Some (t \<lparr>state := GameStateGameOver\<rparr>, [sequence_fail])
     else if q \<in> set (cells s) then Some (t \<lparr>state := GameStateGameOver\<rparr>, [sequence_fail])
     else if q = fruit s then
       if len s + 1 \<ge> MAX_SNAKE_LEN then Some (t \<lparr>len := len s + 1, state := GameStateGameOver\<rparr>, [sequence_fail])
       else do { u \<leftarrow> snake_game_move_snake (t \<lparr>state := GameStateLife, len := len s + 1\<rparr>) q;
                 f \<leftarrow> snake_game_get_new_fruit r u; Some (u \<lparr>fruit := f\<rparr>, [sequence_eat]) }
     else do { u \<leftarrow> snake_game_move_snake (t \<lparr>state := GameStateLife\<rparr>) q; Some (u, []) })"
proof -
  note ok = snake_okD [OF assms(1)]
  have hd: "rd (points s) 0 = Some (points s ! 0)" using ok by (simp add: rd_def MAX_SNAKE_LEN_def)
  have "(len s + 1) mod 2 ^ 16 = len s + 1" using ok by (simp add: MAX_SNAKE_LEN_def)
  moreover have "snake_game_get_next_step (turned s) = Some (next_cell s)"
    using ok by (simp add: get_next_step next_cell_def MAX_SNAKE_LEN_def)
  moreover have "snake_game_collision_with_tail t q = Some (q \<in> set (cells s))" if "points t = points s" "len t = len s" for t q
    using collision_tail_iff [of t q] ok that by (simp add: cells_def)
  ultimately show ?thesis using assms(2) hd
    unfolding snake_game_process_game_step_def can_turn_iff Point_eq [symmetric]
    by (cases "state s") (simp_all add: Let_def turned_def [symmetric] set_life)
qed

text \<open>The snake after a move, as a list of cells; \<open>grow\<close> when the fruit was eaten.\<close>

lemma moved_ok:
  assumes ok: "snake_ok s" "state s \<noteq> GameStateGameOver"
    and q: "\<not> snake_game_collision_with_frame (next_cell s)" "next_cell s \<notin> set (cells s)"
    and t: "t = turned s \<lparr>state := GameStateLife, len := n\<rparr>" and n: "n = len s \<or> n = len s + 1" "n < MAX_SNAKE_LEN"
  shows "\<exists>ps. snake_game_move_snake t (next_cell s) = Some (t \<lparr>points := ps\<rparr>) \<and> length ps = MAX_SNAKE_LEN \<and>
    ps ! 0 = next_cell s \<and> take n ps = next_cell s # take (n - 1) (cells s) \<and>
    list_all on_track (take n ps) \<and> distinct (take n ps) \<and> successively adjacent (take n ps) \<and>
    along (currentMovement t) (ps ! 0)"
proof -
  note ok' = snake_okD [OF ok(1)] snake_okD(5,6) [OF ok]
  have len: "0 < n" "n < length (points s)" "n - 1 \<le> len s" using ok' n by auto
  obtain ps where ps: "snake_game_move_snake t (next_cell s) = Some (t \<lparr>points := ps\<rparr>)" "length ps = MAX_SNAKE_LEN"
    "take n ps = next_cell s # take (n - 1) (points s)"
    using move_snake [of t "next_cell s"] len ok' t by auto
  have body: "take (n - 1) (points s) = take (n - 1) (cells s)" using len by (simp add: cells_def min_def)
  have head: "points s ! 0 \<in> set (cells s)" "hd (cells s) = points s ! 0" "cells s \<noteq> []"
    using cells_Cons [of s] ok' by auto
  have "on_track (points s ! 0)" using ok'(8) head(1) by (auto simp: list_all_iff)
  moreover have "along (currentMovement (turned s)) (points s ! 0)" using ok'(9) by (rule turned_along)
  ultimately have step: "on_track (next_cell s)" "adjacent (next_cell s) (points s ! 0)" "along (currentMovement t) (next_cell s)"
    using step_cell_track q(1) t unfolding next_cell_def by auto
  have "list_all on_track (take (n - 1) (cells s))" using ok'(8) by (auto simp: list_all_iff dest: in_set_takeD)
  moreover have "next_cell s \<notin> set (take (n - 1) (cells s))" using q(2) by (auto dest: in_set_takeD)
  moreover have "successively adjacent (take (n - 1) (cells s))"
    using ok'(8) append_take_drop_id [of "n - 1" "cells s"] by (metis successively_append_iff)
  moreover have "take (n - 1) (cells s) = [] \<or> hd (take (n - 1) (cells s)) = points s ! 0"
    using head by (cases "n - 1"; cases "cells s") auto
  moreover have "ps ! 0 = next_cell s" using ps(3) len(1) by (cases ps; cases n) auto
  ultimately show ?thesis using ps step ok'(8) unfolding body by (auto simp: successively_Cons)
qed

lemma tick_eat:
  assumes ok: "snake_ok s" "state s \<noteq> GameStateGameOver"
    and q: "\<not> snake_game_collision_with_frame (next_cell s)" "next_cell s \<notin> set (cells s)" "next_cell s = fruit s"
    and n: "len s + 1 < MAX_SNAKE_LEN"
  shows "\<exists>ps f. snake_game_process_game_step r s =
      Some (turned s \<lparr>state := GameStateLife, len := len s + 1, points := ps, fruit := f\<rparr>, [sequence_eat]) \<and>
    take (len s + 1) ps = next_cell s # cells s \<and> ps ! 0 = next_cell s \<and>
    f = free_fields (next_cell s # cells s) ! (r mod length (free_fields (next_cell s # cells s))) \<and>
    snake_ok (turned s \<lparr>state := GameStateLife, len := len s + 1, points := ps, fruit := f\<rparr>)"
proof -
  note ok' = snake_okD [OF ok(1)] snake_okD(4-7) [OF ok]
  obtain ps where ps: "snake_game_move_snake (turned s \<lparr>state := GameStateLife, len := len s + 1\<rparr>) (next_cell s)
      = Some (turned s \<lparr>state := GameStateLife, len := len s + 1, points := ps\<rparr>)"
    "length ps = MAX_SNAKE_LEN" "ps ! 0 = next_cell s" "take (len s + 1) ps = next_cell s # take (len s) (cells s)"
    "list_all on_track (take (len s + 1) ps)" "distinct (take (len s + 1) ps)" "successively adjacent (take (len s + 1) ps)"
    "along (currentMovement (turned s)) (ps ! 0)"
    using moved_ok [OF ok q(1,2) refl _ n] by auto
  let ?u = "turned s \<lparr>state := GameStateLife, len := len s + 1, points := ps\<rparr>"
  have cells: "cells ?u = take (len s + 1) ps" by (simp add: cells_def)
  let ?f = "free_fields (cells ?u) ! (r mod length (free_fields (cells ?u)))"
  have fruit: "free_fields (cells ?u) \<noteq> []" "snake_game_get_new_fruit r ?u = Some ?f"
    using get_new_fruit [of ?u r] ps n cells by auto
  have "?f \<in> set (free_fields (cells ?u))" using fruit(1) by simp
  then have "crossing ?f" "on_track ?f" "?f \<notin> set (cells ?u)" by (auto simp: free_fields_iff)
  then have "snake_ok (?u \<lparr>fruit := ?f\<rparr>)" using ps n ok' cells by (simp add: snake_ok_def) (simp add: cells_def)
  moreover have "take (len s) (cells s) = cells s" by (simp add: cells_def)
  ultimately show ?thesis using q n ps(1,3,4) fruit(2) cells unfolding process_unfold [OF ok] Let_def by auto
qed

lemma tick_move:
  assumes ok: "snake_ok s" "state s \<noteq> GameStateGameOver"
    and q: "\<not> snake_game_collision_with_frame (next_cell s)" "next_cell s \<notin> set (cells s)" "next_cell s \<noteq> fruit s"
  shows "\<exists>ps. snake_game_process_game_step r s = Some (turned s \<lparr>state := GameStateLife, points := ps\<rparr>, []) \<and>
    take (len s) ps = next_cell s # butlast (cells s) \<and> ps ! 0 = next_cell s \<and>
    snake_ok (turned s \<lparr>state := GameStateLife, points := ps\<rparr>)"
proof -
  note ok' = snake_okD [OF ok(1)] snake_okD(4-7) [OF ok]
  have n: "len s < MAX_SNAKE_LEN" using ok' by simp
  obtain ps where ps: "snake_game_move_snake (turned s \<lparr>state := GameStateLife, len := len s\<rparr>) (next_cell s)
      = Some (turned s \<lparr>state := GameStateLife, len := len s, points := ps\<rparr>)"
    "length ps = MAX_SNAKE_LEN" "ps ! 0 = next_cell s" "take (len s) ps = next_cell s # take (len s - 1) (cells s)"
    "list_all on_track (take (len s) ps)" "distinct (take (len s) ps)" "successively adjacent (take (len s) ps)"
    "along (currentMovement (turned s)) (ps ! 0)"
    using moved_ok [OF ok q(1,2) refl _ n] by auto
  have eq: "turned s \<lparr>state := GameStateLife, len := len s\<rparr> = turned s \<lparr>state := GameStateLife\<rparr>" by simp
  have "fruit s \<notin> set (take (len s) ps)" using q(3) ok' unfolding ps(4) by (auto dest: in_set_takeD)
  then have "snake_ok (turned s \<lparr>state := GameStateLife, points := ps\<rparr>)" using ps n ok' by (simp add: snake_ok_def cells_def)
  moreover have "take (len s - 1) (cells s) = butlast (cells s)"
    using ok' by (simp add: cells_def butlast_conv_take min_def)
  ultimately show ?thesis using q ps(1,3,4) unfolding process_unfold [OF ok] Let_def eq
    by (intro exI [of _ ps]) simp
qed

lemma tick:
  assumes ok: "snake_ok s" "state s \<noteq> GameStateGameOver"
  shows "\<exists>s' ns. snake_game_process_game_step r s = Some (s', ns) \<and> snake_ok s' \<and> nextMovement s' = nextMovement s \<and>
    (state s' = GameStateGameOver \<or>
     (snake_game_collision_with_frame (next_cell s) \<and> state s = GameStateLife \<and> s' = turned s \<lparr>state := GameStateLastChance\<rparr>) \<or>
     (\<not> snake_game_collision_with_frame (next_cell s) \<and> state s' = GameStateLife \<and>
      points s' ! 0 = next_cell s \<and> currentMovement s' = currentMovement (turned s)))"
proof (cases "snake_game_collision_with_frame (next_cell s) \<or> next_cell s \<in> set (cells s)
    \<or> (next_cell s = fruit s \<and> len s + 1 \<ge> MAX_SNAKE_LEN)")
  case True
  note ok' = snake_okD [OF ok(1)] snake_okD(4-7) [OF ok]
  have over: "snake_ok (turned s \<lparr>state := GameStateGameOver\<rparr>)" "snake_ok (turned s \<lparr>len := Suc (len s), state := GameStateGameOver\<rparr>)"
    using ok' by (simp_all add: snake_ok_def)
  have chance: "snake_ok (turned s \<lparr>state := GameStateLastChance\<rparr>)"
    using ok' turned_along [of s] by (simp add: snake_ok_def) (simp add: cells_def)
  show ?thesis using True over chance unfolding process_unfold [OF ok] Let_def by (cases "state s") (auto simp: ok(2))
next
  case False
  then show ?thesis using tick_eat [OF ok, of r] tick_move [OF ok, of r] by (cases "next_cell s = fruit s") auto
qed

lemma tick_over_or_playing:
  assumes "snake_ok s"
  shows "\<exists>s' ns. snake_game_process_game_step r s = Some (s', ns) \<and> snake_ok s'"
  using assms tick [of s r] process_over [of s r] by (cases "state s = GameStateGameOver") auto

section \<open>The whole game\<close>

lemma init_game_ok:
  assumes "length (points s) = MAX_SNAKE_LEN"
  shows "\<exists>s'. snake_game_init_game s = Some s' \<and> snake_ok s' \<and> cells s' = snake_start \<and> state s' = GameStateLife"
proof -
  let ?s = "s \<lparr>points := snake_start @ drop 7 (points s), len := 7, currentMovement := DirectionRight,
      nextMovement := DirectionRight, fruit := \<lparr>px = 18, py = 6\<rparr>, state := GameStateLife\<rparr>"
  have len: "length snake_start = 7" by (simp add: snake_start_def)
  have init: "snake_game_init_game s = Some ?s"
    using assms len by (simp add: snake_game_init_game_def memcpy_def MAX_SNAKE_LEN_def)
  have cells: "cells ?s = snake_start" using len by (simp add: cells_def)
  have "list_all on_track snake_start" "distinct snake_start" "successively adjacent snake_start"
    "along DirectionRight (snake_start ! 0)" "crossing \<lparr>px = 18, py = 6\<rparr>" "on_track \<lparr>px = 18, py = 6\<rparr>"
    "\<lparr>px = 18, py = 6\<rparr> \<notin> set snake_start"
    by (simp_all add: snake_start_def on_track_def adjacent_def along_def horizontal_def crossing_def)
  moreover have "points ?s ! 0 = snake_start ! 0" using len by (simp add: nth_append)
  ultimately have "snake_ok ?s" using cells assms len by (simp add: snake_ok_def MAX_SNAKE_LEN_def)
  then show ?thesis using init cells by simp
qed

lemma event_ok:
  assumes "snake_ok s"
  shows "\<exists>go s' ns. snake_game_event r e s = Some (go, s', ns) \<and> snake_ok s'"
proof -
  have turn: "snake_ok (s \<lparr>nextMovement := d\<rparr>)" for d using assms by (simp add: snake_ok_def cells_def)
  obtain s1 where "snake_game_init_game s = Some s1" "snake_ok s1"
    using init_game_ok snake_okD(1) [OF assms] by blast
  then have keys: "\<exists>go s'. snake_game_key k s = Some (go, s') \<and> snake_ok s'" for k
    using assms turn by (cases k) (auto simp: snake_game_key_def)
  have key: "\<exists>go s' ns. snake_game_event r (Some (EventTypeKey i)) s = Some (go, s', ns) \<and> snake_ok s'" for i
  proof -
    obtain go s' where "snake_game_key (key i) s = Some (go, s')" "snake_ok s'" using keys by blast
    then show ?thesis using assms by (cases "type i = InputTypePress") (auto simp: snake_game_event_def)
  qed
  have "\<exists>go s' ns. snake_game_event r (Some EventTypeTick) s = Some (go, s', ns) \<and> snake_ok s'"
    using tick_over_or_playing [OF assms, of r] by (auto simp: snake_game_event_def)
  with key show ?thesis using assms
    by (cases e rule: option.exhaust; cases "the e") (auto simp: snake_game_event_def)
qed

lemma app_loop_ok: "snake_ok s \<Longrightarrow> \<exists>s' ns. snake_game_app_loop es s = Some (s', ns) \<and> snake_ok s'"
proof (induction es arbitrary: s)
  case (Cons re es)
  obtain go s1 ns where "snake_game_event (fst re) (snd re) s = Some (go, s1, ns)" "snake_ok s1"
    using event_ok Cons.prems by blast
  then show ?case using Cons.IH [of s1] by (cases re; cases go) auto
qed simp

section \<open>An idle game ends\<close>

text \<open>
  Without keys the snake turns at most once, at the next intersection, and then runs straight
  into the frame, if it meets nothing before. The measure counts the ticks that are left.
\<close>

fun frame_distance :: "Direction \<Rightarrow> Point \<Rightarrow> nat" where
  "frame_distance DirectionUp p = unat (py p)"
| "frame_distance DirectionRight p = 30 - unat (px p)"
| "frame_distance DirectionDown p = 14 - unat (py p)"
| "frame_distance DirectionLeft p = unat (px p)"

definition aligned_movement :: "SnakeState \<Rightarrow> bool" where
  "aligned_movement s \<longleftrightarrow> snake_game_get_turn_snake s = currentMovement s"

definition ticks_left :: "SnakeState \<Rightarrow> nat" where
  "ticks_left s =
     (if state s = GameStateGameOver then 0
      else if aligned_movement s
      then 2 * frame_distance (currentMovement s) (points s ! 0) + (if state s = GameStateLife then 2 else 1)
      else if crossing (points s ! 0) then 63 else 64)"

lemma frame_distance_step:
  assumes "on_track p"
  shows "snake_game_collision_with_frame (step_cell d p) \<longleftrightarrow> frame_distance d p = 0"
    and "\<not> snake_game_collision_with_frame (step_cell d p) \<Longrightarrow> frame_distance d (step_cell d p) + 1 = frame_distance d p"
proof -
  have zero: "x = 0 \<longleftrightarrow> unat x = 0" for x :: u8 by (simp add: unat_eq_0)
  show "snake_game_collision_with_frame (step_cell d p) \<longleftrightarrow> frame_distance d p = 0"
    using assms by (cases d) (auto simp: collision_frame_iff step_cell_def on_track_def unat_inc unat_dec zero)
  show "\<not> snake_game_collision_with_frame (step_cell d p) \<Longrightarrow> frame_distance d (step_cell d p) + 1 = frame_distance d p"
    using assms by (cases d) (auto simp: collision_frame_iff step_cell_def on_track_def unat_inc unat_dec zero split: if_splits)
qed

lemma frame_distance_bound: "on_track p \<Longrightarrow> frame_distance d p \<le> 30"
  by (cases d) (auto simp: on_track_def)

lemma odd_step_inside:
  assumes "on_track p" "along d p" "\<not> crossing p"
  shows "\<not> snake_game_collision_with_frame (step_cell d p)"
proof -
  have "frame_distance d p \<noteq> 0"
    using assms by (cases d) (auto simp: on_track_def along_def horizontal_def crossing_def elim: oddE)
  then show ?thesis using frame_distance_step(1) [OF assms(1)] by simp
qed

lemma turn_aligned: "snake_game_get_turn_snake s \<noteq> currentMovement s \<Longrightarrow> snake_game_get_turn_snake s = nextMovement s"
  by (simp add: snake_game_get_turn_snake_def Let_def split: if_splits)

lemma turn_twice:
  "currentMovement t = snake_game_get_turn_snake s \<Longrightarrow> nextMovement t = nextMovement s \<Longrightarrow> aligned_movement t"
  by (auto simp: aligned_movement_def snake_game_get_turn_snake_def Let_def)

lemma turn_cong:
  "currentMovement t = currentMovement s \<Longrightarrow> nextMovement t = nextMovement s \<Longrightarrow> aligned_movement t = aligned_movement s"
  by (simp add: aligned_movement_def snake_game_get_turn_snake_def)

lemma ticks_left_pos: "state s \<noteq> GameStateGameOver \<Longrightarrow> 0 < ticks_left s"
  by (simp add: ticks_left_def)

lemma tick_progress:
  assumes ok: "snake_ok s" "state s \<noteq> GameStateGameOver"
  shows "\<exists>s' ns. snake_game_process_game_step r s = Some (s', ns) \<and> snake_ok s' \<and> ticks_left s' < ticks_left s"
proof -
  let ?p = "points s ! 0" and ?d = "currentMovement (turned s)"
  note ok' = snake_okD [OF ok(1)] snake_okD(4-7) [OF ok]
  have p: "on_track ?p" using ok'(9) cells_Cons [of s] ok' by (auto simp: list_all_iff)
  obtain s' ns where s': "snake_game_process_game_step r s = Some (s', ns)" "snake_ok s'" "nextMovement s' = nextMovement s"
    and c: "state s' = GameStateGameOver \<or>
     (snake_game_collision_with_frame (next_cell s) \<and> state s = GameStateLife \<and> s' = turned s \<lparr>state := GameStateLastChance\<rparr>) \<or>
     (\<not> snake_game_collision_with_frame (next_cell s) \<and> state s' = GameStateLife \<and>
      points s' ! 0 = next_cell s \<and> currentMovement s' = ?d)"
    using tick [OF ok, of r] by blast
  have d: "aligned_movement s \<Longrightarrow> ?d = currentMovement s" "\<not> crossing ?p \<Longrightarrow> ?d = currentMovement s"
    by (simp_all add: turned_def aligned_movement_def)
  have "ticks_left s' < ticks_left s"
  proof (cases "state s' = GameStateGameOver")
    case True
    then show ?thesis using ticks_left_pos [OF ok(2)] by (simp add: ticks_left_def)
  next
    case playing: False
    then have d': "currentMovement s' = ?d" using c by auto
    show ?thesis
    proof (cases "aligned_movement s \<or> crossing ?p")
      case True
      then have al: "aligned_movement s'"
        using d' d s'(3) turn_cong [of s' s] turn_twice [of s' s] by (cases "crossing ?p") (auto simp: turned_def)
      have bound: "frame_distance ?d ?p \<le> 30" using p by (rule frame_distance_bound)
      have "ticks_left s' \<le> 1 \<and> state s = GameStateLife \<or> ticks_left s' + 2 \<le> 2 * frame_distance ?d ?p + 2"
        using c playing al d' frame_distance_step [OF p, of ?d] unfolding next_cell_def by (auto simp: ticks_left_def)
      then show ?thesis using True bound d(1) ok(2) by (auto simp: ticks_left_def)
    next
      case False
      then have inside: "\<not> snake_game_collision_with_frame (next_cell s)"
        using odd_step_inside [OF p ok'(10)] d(2) unfolding next_cell_def by simp
      moreover have "crossing (next_cell s)"
        using crossing_alternates [of "next_cell s" ?p] step_cell_track [OF p, of ?d] inside p False ok'(10) d(2)
        unfolding next_cell_def by auto
      moreover have "\<not> aligned_movement s'" using False turn_cong [of s' s] d' d(2) s'(3) by auto
      ultimately show ?thesis using False c playing ok(2) by (auto simp: ticks_left_def)
    qed
  qed
  then show ?thesis using s' by blast
qed

lemma idle_loop:
  "snake_ok s \<Longrightarrow> ticks_left s \<le> length rs \<Longrightarrow>
   \<exists>s' ns. snake_game_app_loop (map (\<lambda>r. (r, Some EventTypeTick)) rs) s = Some (s', ns) \<and> state s' = GameStateGameOver"
proof (induction rs arbitrary: s)
  case Nil
  then show ?case using ticks_left_pos [of s] by fastforce
next
  case (Cons r rs)
  have "\<exists>s1 ns. snake_game_process_game_step r s = Some (s1, ns) \<and> snake_ok s1 \<and> ticks_left s1 \<le> length rs"
  proof (cases "state s = GameStateGameOver")
    case True
    then show ?thesis using process_over [of s r] Cons.prems by (simp add: ticks_left_def)
  next
    case False
    then show ?thesis using tick_progress [of s r] Cons.prems by fastforce
  qed
  then show ?case using Cons.IH by (fastforce simp: snake_game_event_def)
qed

lemma ticks_left_bound:
  assumes "snake_ok s"
  shows "ticks_left s \<le> 64"
proof (cases "state s = GameStateGameOver")
  case False
  note ok' = snake_okD [OF assms] snake_okD(5) [OF assms False]
  have "on_track (points s ! 0)" using ok' cells_Cons [of s] by (auto simp: list_all_iff)
  then show ?thesis using frame_distance_bound [of "points s ! 0" "currentMovement s"] by (simp add: ticks_left_def)
qed (simp add: ticks_left_def)

section \<open>Properties\<close>

text \<open>
  C38. Memory safety and invariant of the game: from any allocated state, whatever sequence of
  timer ticks, keys and random numbers the loop of \<^verbatim>\<open>snake_game_app\<close> meets, it never indexes outside
  its arrays and never divides by zero, and the state keeps its invariant: the array has 253
  points of which at least 7 are in use, and while the game runs the snake is a connected path
  of distinct cells on the lines of the field, shorter than the array, with the fruit on a free
  intersection.
\<close>

theorem snake_game_safe:
  assumes "length (points memory) = MAX_SNAKE_LEN"
  shows "\<exists>s ns. snake_game_app memory events = Some (s, ns) \<and> snake_ok s"
proof -
  obtain s where "snake_game_init_game memory = Some s" "snake_ok s" using init_game_ok [OF assms] by blast
  then show ?thesis using app_loop_ok [of s events] by (auto simp: snake_game_app_def)
qed

definition empty_game :: SnakeState where
  "empty_game = \<lparr>points = replicate 253 \<lparr>px = 0, py = 0\<rparr>, len = 0, currentMovement = DirectionUp,
     nextMovement = DirectionUp, fruit = \<lparr>px = 0, py = 0\<rparr>, state = GameStateGameOver\<rparr>"

theorem snake_game_safe_witness:
  "\<exists>s ns. snake_game_app empty_game
     [(5, Some EventTypeTick), (7, Some (EventTypeKey \<lparr>key = InputKeyUp, type = InputTypePress\<rparr>)), (0, None)] = Some (s, ns) \<and> snake_ok s"
  by (rule snake_game_safe) (simp add: empty_game_def MAX_SNAKE_LEN_def)

text \<open>The game at its start.\<close>

definition first_game :: SnakeState where
  "first_game = the (snake_game_init_game empty_game)"

lemma first_game: "snake_ok first_game" "state first_game = GameStateLife" "cells first_game = snake_start"
  using init_game_ok [of empty_game] by (auto simp: first_game_def empty_game_def MAX_SNAKE_LEN_def)

lemma first_step: "next_cell first_game = \<lparr>px = 9, py = 6\<rparr>" "fruit first_game = \<lparr>px = 18, py = 6\<rparr>"
proof -
  have fg: "first_game = empty_game \<lparr>points := snake_start @ replicate 246 \<lparr>px = 0, py = 0\<rparr>, len := 7, currentMovement := DirectionRight,
      nextMovement := DirectionRight, fruit := \<lparr>px = 18, py = 6\<rparr>, state := GameStateLife\<rparr>"
    by (simp add: first_game_def snake_game_init_game_def empty_game_def memcpy_def snake_start_def)
  show "next_cell first_game = \<lparr>px = 9, py = 6\<rparr>" "fruit first_game = \<lparr>px = 18, py = 6\<rparr>"
    unfolding fg by (simp_all add: next_cell_def turned_def snake_game_get_turn_snake_def step_cell_def snake_start_def)
qed



text \<open>
  C40. An idle game ends: from every state of the invariant, 64 timer ticks without a key bring it
  to its end, whatever the random numbers are.
\<close>

theorem snake_game_idle_ends:
  assumes "snake_ok s" and "64 \<le> length rands"
  shows "\<exists>s' ns. snake_game_app_loop (map (\<lambda>r. (r, Some EventTypeTick)) rands) s = Some (s', ns) \<and> state s' = GameStateGameOver"
  using idle_loop [OF assms(1), of rands] ticks_left_bound [OF assms(1)] assms(2) by simp

theorem snake_game_idle_ends_witness:
  "snake_ok first_game \<and> (\<exists>s' ns. snake_game_app_loop (map (\<lambda>r. (r, Some EventTypeTick)) (replicate 64 3)) first_game = Some (s', ns)
     \<and> state s' = GameStateGameOver)"
  using first_game(1) snake_game_idle_ends [of first_game "replicate 64 3"] by simp

end
