(* ===== verification/Em4100.thy ===== *)
theory Em4100
  imports BitLib Manchester XorLinear
begin

text \<open>
  The EM4100 card protocol, \<^verbatim>\<open>lib/lfrfid/protocols/protocol_em4100.c\<close>, in its three bit rates: the
  frame with its header, row and column parities, the decoder that reads pulses through the
  Manchester decoder, the encoder, and the blocks written to T5577 and EM4305 cards. What the
  reader and the writer of a card rely on is the interface \<open>card_codec\<close>.
\<close>

section \<open>State\<close>

definition EM_HEADER_POS :: nat where "EM_HEADER_POS = 55"
definition EM_HEADER_MASK :: u64 where "EM_HEADER_MASK = shl 0x1FF EM_HEADER_POS"
definition EM_FIRST_ROW_POS :: nat where "EM_FIRST_ROW_POS = 50"
definition EM_ROW_COUNT :: nat where "EM_ROW_COUNT = 10"
definition EM_COLUMN_COUNT :: nat where "EM_COLUMN_COUNT = 4"
definition EM_BITS_PER_ROW_COUNT :: nat where "EM_BITS_PER_ROW_COUNT = EM_COLUMN_COUNT + 1"
definition EM_COLUMN_POS :: nat where "EM_COLUMN_POS = 4"
definition EM_STOP_POS :: nat where "EM_STOP_POS = 0"
definition EM_STOP_MASK :: u64 where "EM_STOP_MASK = shl 0x1 EM_STOP_POS"
definition EM_HEADER_AND_STOP_MASK :: u64 where "EM_HEADER_AND_STOP_MASK = EM_HEADER_MASK OR EM_STOP_MASK"
definition EM_HEADER_AND_STOP_DATA :: u64 where "EM_HEADER_AND_STOP_DATA = EM_HEADER_MASK"
definition EM4100_DECODED_DATA_SIZE :: nat where "EM4100_DECODED_DATA_SIZE = 5"
definition EM4100_ENCODED_DATA_SIZE :: nat where "EM4100_ENCODED_DATA_SIZE = 8"
definition EM_READ_SHORT_TIME_BASE :: nat where "EM_READ_SHORT_TIME_BASE = 256"
definition EM_READ_LONG_TIME_BASE :: nat where "EM_READ_LONG_TIME_BASE = 512"
definition EM_READ_JITTER_TIME_BASE :: nat where "EM_READ_JITTER_TIME_BASE = 100"
definition EM_ENCODED_DATA_HEADER :: u64 where "EM_ENCODED_DATA_HEADER = 0xFF80000000000000"

lemmas em_constants =
  EM_HEADER_POS_def EM_HEADER_MASK_def EM_FIRST_ROW_POS_def EM_ROW_COUNT_def EM_COLUMN_COUNT_def
  EM_BITS_PER_ROW_COUNT_def EM_COLUMN_POS_def EM_STOP_POS_def EM_STOP_MASK_def EM_HEADER_AND_STOP_MASK_def
  EM_HEADER_AND_STOP_DATA_def EM4100_DECODED_DATA_SIZE_def EM4100_ENCODED_DATA_SIZE_def
  EM_READ_SHORT_TIME_BASE_def EM_READ_LONG_TIME_BASE_def EM_READ_JITTER_TIME_BASE_def EM_ENCODED_DATA_HEADER_def

record ProtocolEM4100 =
  em_data :: "u8 list"
  encoded_data :: u64
  encoded_epilogue :: u64
  encoded_data_index :: nat
  encoded_polarity :: bool
  decoder_manchester_state :: ManchesterState
  clock_per_bit :: nat

definition protocol_em4100_get_time_divisor :: "ProtocolEM4100 \<Rightarrow> nat" where
  "protocol_em4100_get_time_divisor proto =
     (if clock_per_bit proto = 64 then 1 else if clock_per_bit proto = 32 then 2
      else if clock_per_bit proto = 16 then 4 else 1)"

definition LFRFID_T5577_BITRATE_RF_16 :: u32 where "LFRFID_T5577_BITRATE_RF_16 = 0x00040000"
definition LFRFID_T5577_BITRATE_RF_32 :: u32 where "LFRFID_T5577_BITRATE_RF_32 = 0x00080000"
definition LFRFID_T5577_BITRATE_RF_64 :: u32 where "LFRFID_T5577_BITRATE_RF_64 = 0x00140000"
definition LFRFID_T5577_MODULATION_MANCHESTER :: u32 where "LFRFID_T5577_MODULATION_MANCHESTER = 0x00008000"
definition LFRFID_T5577_MAXBLOCK_SHIFT :: nat where "LFRFID_T5577_MAXBLOCK_SHIFT = 5"
definition EM4x05_MODULATION_MANCHESTER :: u32 where "EM4x05_MODULATION_MANCHESTER = 0x00000040"
definition EM4x05_MAXBLOCK_SHIFT :: nat where "EM4x05_MAXBLOCK_SHIFT = 14"
definition EM4x05_SET_BITRATE :: "nat \<Rightarrow> u32" where "EM4x05_SET_BITRATE x = of_nat ((x - 2) div 2)"

definition protocol_em4100_get_t5577_bitrate :: "ProtocolEM4100 \<Rightarrow> u32" where
  "protocol_em4100_get_t5577_bitrate proto =
     (if clock_per_bit proto = 64 then LFRFID_T5577_BITRATE_RF_64
      else if clock_per_bit proto = 32 then LFRFID_T5577_BITRATE_RF_32
      else if clock_per_bit proto = 16 then LFRFID_T5577_BITRATE_RF_16 else LFRFID_T5577_BITRATE_RF_64)"

definition protocol_em4100_get_em4305_bitrate :: "ProtocolEM4100 \<Rightarrow> u32" where
  "protocol_em4100_get_em4305_bitrate proto =
     (if clock_per_bit proto = 64 then EM4x05_SET_BITRATE 64
      else if clock_per_bit proto = 32 then EM4x05_SET_BITRATE 32
      else if clock_per_bit proto = 16 then EM4x05_SET_BITRATE 16 else EM4x05_SET_BITRATE 64)"

definition protocol_em4100_get_short_time_low :: "ProtocolEM4100 \<Rightarrow> nat" where
  "protocol_em4100_get_short_time_low proto =
     EM_READ_SHORT_TIME_BASE div protocol_em4100_get_time_divisor proto -
     EM_READ_JITTER_TIME_BASE div protocol_em4100_get_time_divisor proto"

definition protocol_em4100_get_short_time_high :: "ProtocolEM4100 \<Rightarrow> nat" where
  "protocol_em4100_get_short_time_high proto =
     EM_READ_SHORT_TIME_BASE div protocol_em4100_get_time_divisor proto +
     EM_READ_JITTER_TIME_BASE div protocol_em4100_get_time_divisor proto"

definition protocol_em4100_get_long_time_low :: "ProtocolEM4100 \<Rightarrow> nat" where
  "protocol_em4100_get_long_time_low proto =
     EM_READ_LONG_TIME_BASE div protocol_em4100_get_time_divisor proto -
     EM_READ_JITTER_TIME_BASE div protocol_em4100_get_time_divisor proto"

definition protocol_em4100_get_long_time_high :: "ProtocolEM4100 \<Rightarrow> nat" where
  "protocol_em4100_get_long_time_high proto =
     EM_READ_LONG_TIME_BASE div protocol_em4100_get_time_divisor proto +
     EM_READ_JITTER_TIME_BASE div protocol_em4100_get_time_divisor proto"

text \<open>The firmware's \<^verbatim>\<open>malloc\<close> clears the memory it returns; zero is the code of \<open>ManchesterStateStart1\<close>.\<close>

definition em4100_zeroed :: ProtocolEM4100 where
  "em4100_zeroed = \<lparr>em_data = replicate EM4100_DECODED_DATA_SIZE 0, encoded_data = 0, encoded_epilogue = 0,
     encoded_data_index = 0, encoded_polarity = False, decoder_manchester_state = ManchesterStateStart1, clock_per_bit = 0\<rparr>"

definition protocol_em4100_alloc :: ProtocolEM4100 where
  "protocol_em4100_alloc = em4100_zeroed \<lparr>clock_per_bit := 64\<rparr>"

definition protocol_em4100_16_alloc :: ProtocolEM4100 where
  "protocol_em4100_16_alloc = em4100_zeroed \<lparr>clock_per_bit := 16\<rparr>"

definition protocol_em4100_32_alloc :: ProtocolEM4100 where
  "protocol_em4100_32_alloc = em4100_zeroed \<lparr>clock_per_bit := 32\<rparr>"

definition protocol_em4100_get_data :: "ProtocolEM4100 \<Rightarrow> u8 list" where
  "protocol_em4100_get_data proto = em_data proto"

section \<open>Decoder\<close>

text \<open>
  One row: five bits are shifted out of the card word, four of them into the nibble. The buffers
  behind the two pointers are the card word and the list \<open>decoded\<close>.
\<close>

definition em4100_decode_bit :: "nat \<Rightarrow> u8 \<times> u64 \<Rightarrow> u8 \<times> u64" where
  "em4100_decode_bit i = (\<lambda>(nibble, card_data).
     (if i < 4 then shl nibble 1 OR (if card_data AND shl 1 63 \<noteq> 0 then 1 else 0) else nibble, shl card_data 1))"

definition em4100_decode_row :: "nat \<Rightarrow> u8 \<times> u64 \<times> nat \<times> u8 list \<Rightarrow> (u8 \<times> u64 \<times> nat \<times> u8 list) option" where
  "em4100_decode_row r = (\<lambda>(v, card_data, decoded_data_index, decoded).
     let (nibble, card_data) = for_loop 0 5 em4100_decode_bit (0, card_data);
         v = shl v 4 OR nibble
     in if r mod 2 \<noteq> 0 then do {
          old \<leftarrow> rd decoded decoded_data_index;
          decoded \<leftarrow> wr decoded decoded_data_index (old OR v);
          Some (0, card_data, decoded_data_index + 1, decoded)
        } else Some (v, card_data, decoded_data_index, decoded))"

fun em4100_decode_rows :: "nat list \<Rightarrow> u8 \<times> u64 \<times> nat \<times> u8 list \<Rightarrow> (u8 \<times> u64 \<times> nat \<times> u8 list) option" where
  "em4100_decode_rows [] st = Some st"
| "em4100_decode_rows (r # rs) st = do { st \<leftarrow> em4100_decode_row r st; em4100_decode_rows rs st }"

definition em4100_decode :: "u64 \<Rightarrow> nat \<Rightarrow> u8 list \<Rightarrow> nat \<Rightarrow> u8 list option" where
  "em4100_decode card_data encoded_data_size decoded decoded_data_size = do {
     furi_check (decoded_data_size \<ge> EM4100_DECODED_DATA_SIZE);
     furi_check (encoded_data_size \<ge> EM4100_ENCODED_DATA_SIZE);
     decoded \<leftarrow> memset decoded 0 decoded_data_size;
     let card_data = for_loop 0 9 (\<lambda>_ card_data. shl card_data 1) card_data;
     (_, _, _, decoded) \<leftarrow> em4100_decode_rows [0..<EM_ROW_COUNT] (0, card_data, 0, decoded);
     Some decoded
   }"

definition em4100_row_parity :: "u64 \<Rightarrow> nat \<Rightarrow> u8" where
  "em4100_row_parity card_data i =
     for_loop 0 EM_BITS_PER_ROW_COUNT
       (\<lambda>j parity_sum. parity_sum + ucast (shr card_data (EM_FIRST_ROW_POS - i * EM_BITS_PER_ROW_COUNT + j) AND 1)) 0"

definition em4100_column_parity :: "u64 \<Rightarrow> nat \<Rightarrow> u8" where
  "em4100_column_parity card_data i =
     for_loop 0 (EM_ROW_COUNT + 1)
       (\<lambda>j parity_sum. parity_sum + ucast (shr card_data (EM_COLUMN_POS - i + j * EM_BITS_PER_ROW_COUNT) AND 1)) 0"

definition em4100_can_be_decoded :: "u64 \<Rightarrow> nat \<Rightarrow> u64 \<Rightarrow> bool option" where
  "em4100_can_be_decoded card_data encoded_data_size epilogue = do {
     furi_check (encoded_data_size \<ge> EM4100_ENCODED_DATA_SIZE);
     Some (if epilogue AND EM_ENCODED_DATA_HEADER \<noteq> EM_ENCODED_DATA_HEADER then False
           else if card_data AND EM_HEADER_AND_STOP_MASK \<noteq> EM_HEADER_AND_STOP_DATA then False
           else if list_ex (\<lambda>i. em4100_row_parity card_data i mod 2 \<noteq> 0) [0..<EM_ROW_COUNT] then False
           else if list_ex (\<lambda>i. em4100_column_parity card_data i mod 2 \<noteq> 0) [0..<EM_COLUMN_COUNT] then False
           else True)
   }"

definition protocol_em4100_decoder_start :: "ProtocolEM4100 \<Rightarrow> ProtocolEM4100 option" where
  "protocol_em4100_decoder_start proto = do {
     d \<leftarrow> memset (em_data proto) 0 EM4100_DECODED_DATA_SIZE;
     Some (proto \<lparr>em_data := d, encoded_data := 0,
       decoder_manchester_state := fst (manchester_advance (decoder_manchester_state proto) ManchesterEventReset)\<rparr>)
   }"

text \<open>A pulse as an event of the Manchester decoder.\<close>

definition em4100_pulse_event :: "ProtocolEM4100 \<Rightarrow> bool \<Rightarrow> nat \<Rightarrow> ManchesterEvent" where
  "em4100_pulse_event proto level duration =
     (if duration > protocol_em4100_get_short_time_low proto \<and> duration < protocol_em4100_get_short_time_high proto then
        if \<not> level then ManchesterEventShortHigh else ManchesterEventShortLow
      else if duration > protocol_em4100_get_long_time_low proto \<and> duration < protocol_em4100_get_long_time_high proto then
        if \<not> level then ManchesterEventLongHigh else ManchesterEventLongLow
      else ManchesterEventReset)"

definition em4100_push_bit :: "ProtocolEM4100 \<Rightarrow> bool \<Rightarrow> (bool \<times> ProtocolEM4100) option" where
  "em4100_push_bit proto b = do {
     let carry = (shr (encoded_epilogue proto) 63 AND 0b1);
     let proto = proto \<lparr>encoded_data := shl (encoded_data proto) 1 OR carry\<rparr>;
     let proto = proto \<lparr>encoded_epilogue := shl (encoded_epilogue proto) 1 OR of_bool b\<rparr>;
     ok \<leftarrow> em4100_can_be_decoded (encoded_data proto) 8 (encoded_epilogue proto);
     if ok then do {
       d \<leftarrow> em4100_decode (encoded_data proto) 8 (em_data proto) EM4100_DECODED_DATA_SIZE;
       Some (True, proto \<lparr>em_data := d\<rparr>)
     } else Some (False, proto)
   }"

definition protocol_em4100_decoder_feed :: "ProtocolEM4100 \<Rightarrow> bool \<Rightarrow> nat \<Rightarrow> (bool \<times> ProtocolEM4100) option" where
  "protocol_em4100_decoder_feed proto level duration =
     (let event = em4100_pulse_event proto level duration
      in if event \<noteq> ManchesterEventReset then
           let (st, d) = manchester_advance (decoder_manchester_state proto) event;
               proto = proto \<lparr>decoder_manchester_state := st\<rparr>
           in case d of Some b \<Rightarrow> em4100_push_bit proto b | None \<Rightarrow> Some (False, proto)
         else Some (False, proto))"

section \<open>Encoder\<close>

definition em4100_write_nibble :: "bool \<Rightarrow> u8 \<Rightarrow> u64 \<Rightarrow> u64" where
  "em4100_write_nibble low_nibble d enc =
     (let start = (if \<not> low_nibble then 4 else 0);
          (parity_sum, enc) = fold (\<lambda>i (parity_sum, enc).
              (parity_sum + (shr d i AND 1), shl enc 1 OR ucast (shr d i AND 1)))
            [start + 3, start + 2, start + 1, start] (0 :: u8, enc)
      in shl enc 1 OR ucast (parity_sum mod 2 AND 1))"

definition em4100_write_column :: "u64 \<Rightarrow> u64" where
  "em4100_write_column enc =
     (let parity_sum = fold (\<lambda>i parity_sum.
            let parity_bit = ucast (shr enc (i * EM_BITS_PER_ROW_COUNT - 1) AND 1) in parity_sum + parity_bit)
            [1..<EM_ROW_COUNT + 1] (0 :: u8)
      in shl enc 1 OR ucast (parity_sum mod 2 AND 1))"

definition protocol_em4100_encoder_start :: "ProtocolEM4100 \<Rightarrow> (bool \<times> ProtocolEM4100) option" where
  "protocol_em4100_encoder_start proto = do {
     furi_check (EM4100_DECODED_DATA_SIZE \<le> length (em_data proto));
     let enc = 0b111111111;
     let enc = for_loop 0 EM4100_DECODED_DATA_SIZE (\<lambda>i enc.
         let enc = em4100_write_nibble False (em_data proto ! i) enc
         in em4100_write_nibble True (em_data proto ! i) enc) enc;
     let enc = for_loop 0 EM_COLUMN_COUNT (\<lambda>_. em4100_write_column) enc;
     let enc = shl enc 1 OR 0;
     Some (True, proto \<lparr>encoded_data := enc, encoded_data_index := 0, encoded_polarity := True\<rparr>)
   }"

definition protocol_em4100_encoder_yield :: "ProtocolEM4100 \<Rightarrow> (bool \<times> nat) \<times> ProtocolEM4100" where
  "protocol_em4100_encoder_yield proto =
     (let level = (shr (encoded_data proto) (63 - encoded_data_index proto) AND 1 \<noteq> 0);
          duration = clock_per_bit proto div 2
      in if encoded_polarity proto then ((level, duration), proto \<lparr>encoded_polarity := False\<rparr>)
         else let index = (encoded_data_index proto + 1) mod 2 ^ 8;
                  index = (if index \<ge> 64 then 0 else index)
              in ((\<not> level, duration), proto \<lparr>encoded_polarity := True, encoded_data_index := index\<rparr>))"

section \<open>Writing a card\<close>

datatype LFRFIDWriteType = LFRFIDWriteTypeT5577 | LFRFIDWriteTypeEM4305 | LFRFIDWriteTypeMax

record LFRFIDT5577 =
  block :: "u32 list"
  blocks_to_write :: u32
  t5577_mask :: u8

record LFRFIDEM4305 =
  word :: "u32 list"
  em4305_mask :: u16

text \<open>The two members of the union are never read across, so they are kept side by side.\<close>

record LFRFIDWriteRequest =
  write_type :: LFRFIDWriteType
  t5577 :: LFRFIDT5577
  em4305 :: LFRFIDEM4305

definition protocol_em4100_write_data ::
  "ProtocolEM4100 \<Rightarrow> LFRFIDWriteRequest \<Rightarrow> (bool \<times> ProtocolEM4100 \<times> LFRFIDWriteRequest) option" where
  "protocol_em4100_write_data protocol request = do {
     (_, protocol) \<leftarrow> protocol_em4100_encoder_start protocol;
     d \<leftarrow> em4100_decode (encoded_data protocol) 8 (em_data protocol) EM4100_DECODED_DATA_SIZE;
     let protocol = protocol \<lparr>em_data := d\<rparr>;
     (_, protocol) \<leftarrow> protocol_em4100_encoder_start protocol;
     case write_type request of
       LFRFIDWriteTypeT5577 \<Rightarrow> do {
         let b = block (t5577 request);
         b \<leftarrow> wr b 0 (LFRFID_T5577_MODULATION_MANCHESTER OR protocol_em4100_get_t5577_bitrate protocol OR
                      shl 2 LFRFID_T5577_MAXBLOCK_SHIFT);
         b \<leftarrow> wr b 1 (ucast (shr (encoded_data protocol) 32));
         b \<leftarrow> wr b 2 (ucast (encoded_data protocol));
         Some (True, protocol, request \<lparr>t5577 := (t5577 request) \<lparr>block := b, blocks_to_write := 3\<rparr>\<rparr>)
       }
     | LFRFIDWriteTypeEM4305 \<Rightarrow> do {
         let w = word (em4305 request);
         w \<leftarrow> wr w 4 (EM4x05_MODULATION_MANCHESTER OR protocol_em4100_get_em4305_bitrate protocol OR
                      shl 6 EM4x05_MAXBLOCK_SHIFT);
         let encoded_data_reversed = for_loop 0 64 (\<lambda>i r. shl r 1 OR (shr (encoded_data protocol) i AND 1)) (0 :: u64);
         w \<leftarrow> wr w 5 (ucast encoded_data_reversed);
         w \<leftarrow> wr w 6 (ucast (shr encoded_data_reversed 32));
         Some (True, protocol, request \<lparr>em4305 := (em4305 request) \<lparr>word := w, em4305_mask := 0x70\<rparr>\<rparr>)
       }
     | LFRFIDWriteTypeMax \<Rightarrow> Some (False, protocol, request)
   }"

section \<open>Text\<close>

text \<open>\<^verbatim>\<open>%0nu\<close>: decimal digits, filled with zeros to at least \<open>n\<close> of them.\<close>

fun decimal :: "nat \<Rightarrow> string" where
  "decimal n = (if n < 10 then [char_of (48 + n)] else decimal (n div 10) @ [char_of (48 + n mod 10)])"

definition zero_fill :: "nat \<Rightarrow> string \<Rightarrow> string" where
  "zero_fill n ds = replicate (n - length ds) (CHR ''0'') @ ds"

definition protocol_em4100_render_data :: "ProtocolEM4100 \<Rightarrow> string option" where
  "protocol_em4100_render_data protocol = do {
     furi_check (5 \<le> length (em_data protocol));
     let d = em_data protocol;
     Some (''FC: '' @ zero_fill 3 (decimal (unat (d ! 2))) @ [CHR 0x0A] @
           ''Card: '' @ zero_fill 5 (decimal (unat (shl (ucast (d ! 3)) 8 OR ucast (d ! 4) :: u16))) @
           '' (RF/'' @ decimal (clock_per_bit protocol) @ '')'')
   }"

section \<open>The frame as a list of bits\<close>

text \<open>A parity sum in \<^verbatim>\<open>uint8_t\<close> is odd when an odd number of the bits are set; wrapping keeps this.\<close>

lemma u8_odd: "(of_nat k :: u8) mod 2 \<noteq> 0 \<longleftrightarrow> odd k"
proof -
  have "unat ((of_nat k :: u8) mod 2) = k mod 256 mod 2" by (simp add: unat_mod unat_of_nat)
  also have "\<dots> = k mod 2" by (simp add: mod_mod_cancel)
  finally have "unat ((of_nat k :: u8) mod 2) = 0 \<longleftrightarrow> even k" by (simp only: even_iff_mod_2_eq_zero)
  then show ?thesis by (simp only: unat_eq_0)
qed

lemma u8_parity_bit: "((of_nat k :: u8) mod 2) AND 1 = of_bool (odd k)"
proof (cases "odd k")
  case True
  have "unat ((of_nat k :: u8) mod 2) = k mod 256 mod 2" by (simp add: unat_mod unat_of_nat)
  also have "\<dots> = 1" using True by (simp add: mod_mod_cancel odd_iff_mod_2_eq_one)
  finally have "(of_nat k :: u8) mod 2 = 1" by (simp only: word_unat_eq_iff unat_1)
  then show ?thesis using True by simp
next
  case False
  then have "(of_nat k :: u8) mod 2 = 0" using u8_odd by blast
  then show ?thesis using False by simp
qed

lemma sum_bits_fold:
  "fold (\<lambda>i acc. acc + of_bool (f i)) xs (of_nat n :: u8) = of_nat (n + length (filter f xs))"
proof (induction xs arbitrary: n)
  case (Cons x xs)
  have "(of_nat n :: u8) + of_bool (f x) = of_nat (n + (if f x then 1 else 0))" by simp
  then have "fold (\<lambda>i acc. acc + of_bool (f i)) (x # xs) (of_nat n :: u8)
      = of_nat (n + (if f x then 1 else 0) + length (filter f xs))"
    by (simp only: fold_simps Cons.IH)
  also have "n + (if f x then 1 else 0) + length (filter f xs) = n + length (filter f (x # xs))" by simp
  finally show ?case .
qed simp

lemma sum_bits: "fold (\<lambda>i acc. acc + of_bool (f i)) xs (0 :: u8) = of_nat (length (filter f xs))"
  using sum_bits_fold [of f xs 0] by simp

definition odd_bits :: "('a \<Rightarrow> bool) \<Rightarrow> 'a list \<Rightarrow> bool" where
  "odd_bits f xs = odd (length (filter f xs))"

lemma odd_bits_simps [simp]:
  "odd_bits f [] = False" "odd_bits f (x # xs) = (f x \<noteq> odd_bits f xs)" "odd_bits f (xs @ ys) = (odd_bits f xs \<noteq> odd_bits f ys)"
  by (auto simp: odd_bits_def)

lemma odd_bits_map: "odd_bits f (map g xs) = odd_bits (f \<circ> g) xs"
  by (simp add: odd_bits_def filter_map)

lemma odd_bits_cong: "(\<And>x. x \<in> set xs \<Longrightarrow> f x = g x) \<Longrightarrow> odd_bits f xs = odd_bits g xs"
  unfolding odd_bits_def by (metis filter_cong)

text \<open>The four bits of row \<open>r\<close>, the row with its parity, and the parity of a column.\<close>

definition em_nibble :: "u8 list \<Rightarrow> nat \<Rightarrow> bool list" where
  "em_nibble d r = map (\<lambda>i. bit (d ! (r div 2)) ((if even r then 7 else 3) - i)) [0..<4]"

definition em_row :: "u8 list \<Rightarrow> nat \<Rightarrow> bool list" where
  "em_row d r = em_nibble d r @ [odd_bits id (em_nibble d r)]"

definition em_column :: "u8 list \<Rightarrow> nat \<Rightarrow> bool" where
  "em_column d c = odd_bits (\<lambda>r. em_nibble d r ! c) [0..<10]"

definition em_rows :: "u8 list \<Rightarrow> nat \<Rightarrow> bool list" where
  "em_rows d n = replicate 9 True @ concat (map (em_row d) [0..<n])"

definition em_frame :: "u8 list \<Rightarrow> bool list" where
  "em_frame d = em_rows d 10 @ map (em_column d) [0..<4] @ [False]"

lemma length_em_row [simp]: "length (em_nibble d r) = 4" "length (em_row d r) = 5"
  by (simp_all add: em_nibble_def em_row_def)

lemma length_em_rows [simp]: "length (em_rows d n) = 9 + 5 * n"
  by (induction n) (simp_all add: em_rows_def)

lemma length_em_frame [simp]: "length (em_frame d) = 64"
  by (simp add: em_frame_def)

lemma em_rows_Suc: "em_rows d (Suc n) = em_rows d n @ em_row d n"
  by (simp add: em_rows_def)

lemma em_rows_nth: "r < n \<Longrightarrow> j < 5 \<Longrightarrow> em_rows d n ! (9 + 5 * r + j) = em_row d r ! j"
proof (induction n)
  case (Suc n)
  show ?case
  proof (cases "r = n")
    case True
    then show ?thesis using Suc.prems by (simp add: em_rows_Suc nth_append)
  next
    case False
    then have "r < n" using Suc.prems by simp
    moreover have "9 + 5 * r + j < 9 + 5 * n" using \<open>r < n\<close> Suc.prems by linarith
    ultimately show ?thesis using Suc by (simp add: em_rows_Suc nth_append)
  qed
qed simp

lemma write_nibble_bits:
  "em4100_write_nibble low b (bits_val bs) =
   bits_val (bs @ (let ns = map (\<lambda>i. bit b ((if low then 3 else 7) - i)) [0..<4] in ns @ [odd_bits id ns]))"
proof -
  let ?s = "if low then 0 else 4 :: nat"
  have idx: "map (\<lambda>i. bit b ((if low then 3 else 7) - i)) [0..<4] = map (bit b) [?s + 3, ?s + 2, ?s + 1, ?s]"
    by (simp add: upt_rec eval_nat_numeral)
  let ?F = "\<lambda>i (acc, enc). (acc + (shr b i AND 1), shl enc 1 OR ucast (shr b i AND 1))"
  have fold: "fold ?F is (of_nat n, bits_val bs :: u64)
      = (of_nat (n + length (filter (bit b) is)), bits_val (bs @ map (bit b) is))" for "is" n bs
  proof (induction "is" arbitrary: n bs)
    case (Cons i "is")
    have "of_nat n + (shr b i AND 1) = of_nat (if bit b i then Suc n else n)" by simp
    moreover have "shl (bits_val bs) 1 OR ucast (shr b i AND 1) = (bits_val (bs @ [bit b i]) :: u64)"
      by (simp add: bits_val_snoc ucast_of_bool)
    ultimately show ?case
      using Cons.IH [of "if bit b i then Suc n else n" "bs @ [bit b i]"] by (cases "bit b i") (simp_all add: add.commute)
  qed simp
  have step: "(case fold ?F is (0, bits_val bs :: u64) of (acc, enc) \<Rightarrow> shl enc 1 OR ucast (acc mod 2 AND 1))
      = bits_val (bs @ map (bit b) is @ [odd_bits (bit b) is])" for "is"
  proof -
    have "fold ?F is (0, bits_val bs :: u64) = (of_nat (length (filter (bit b) is)), bits_val (bs @ map (bit b) is))"
      using fold [of "is" 0 bs] by simp
    then show ?thesis
      using bits_val_snoc [of "bs @ map (bit b) is" "odd_bits (bit b) is", where ?'a = 64]
      by (simp only: prod.case u8_parity_bit ucast_of_bool odd_bits_def append.assoc)
  qed
  show ?thesis
    unfolding em4100_write_nibble_def Let_def idx odd_bits_map
    using step [of "[?s + 3, ?s + 2, ?s + 1, ?s]"] by (cases low) (simp_all only: simp_thms if_True if_False id_comp)
qed

lemma sum_bits_loop: "for_loop 0 n (\<lambda>j acc. acc + ucast (shr (w :: u64) (f j) AND 1)) (0 :: u8) = of_nat (length (filter (\<lambda>j. bit w (f j)) [0..<n]))"
  by (simp only: for_loop_def and_1_eq_of_bool ucast_of_bool sum_bits)

lemma write_column_bits:
  assumes "length bs = 59 + c" "c < 4" "\<And>r. r < 10 \<Longrightarrow> bs ! (9 + 5 * r + c) = f r"
  shows "em4100_write_column (bits_val bs) = bits_val (bs @ [odd_bits f [0..<10]])"
proof -
  let ?w = "bits_val bs :: u64"
  let ?is = "[1, 2, 3, 4, 5, 6, 7, 8, 9, 10] :: nat list"
  have b: "bit ?w (i * 5 - 1) = f (10 - i)" if "1 \<le> i" "i \<le> 10" for i
  proof -
    have "length bs - 1 - (i * 5 - 1) = 9 + 5 * (10 - i) + c" using that assms(1) by linarith
    moreover have "i * 5 - 1 < 64" "i * 5 - 1 < length bs" using that assms(1) by linarith+
    ultimately show ?thesis using assms(3) [of "10 - i"] that by (simp add: bit_bits_val)
  qed
  have "odd_bits (\<lambda>i. bit ?w (i * 5 - 1)) ?is = odd_bits (f \<circ> (\<lambda>i. 10 - i)) ?is"
  proof (rule odd_bits_cong)
    fix x assume "x \<in> set ?is"
    then have "1 \<le> x" "x \<le> 10" by auto
    then show "bit ?w (x * 5 - 1) = (f \<circ> (\<lambda>i. 10 - i)) x" by (simp only: comp_apply b)
  qed
  also have "\<dots> = odd_bits f (rev [0..<10])"
  proof -
    have "map (\<lambda>i. 10 - i) ?is = rev [0..<10]" by code_simp
    then show ?thesis unfolding odd_bits_map [symmetric] by (simp only:)
  qed
  finally have "odd_bits (\<lambda>i. bit ?w (i * 5 - 1)) ?is = odd_bits f (rev [0..<10])" .
  moreover have "odd_bits f (rev [0..<10]) = odd_bits f [0..<10]" by (simp add: odd_bits_def rev_filter [symmetric])
  moreover have "[1..<EM_ROW_COUNT + 1] = ?is" by (simp add: EM_ROW_COUNT_def upt_rec)
  moreover have "fold (\<lambda>i acc. acc + ucast (shr ?w (i * 5 - 1) AND 1)) ?is (0 :: u8)
      = of_nat (length (filter (\<lambda>i. bit ?w (i * 5 - 1)) ?is))"
    by (simp only: and_1_eq_of_bool ucast_of_bool sum_bits)
  ultimately show ?thesis
    unfolding em4100_write_column_def Let_def
    using bits_val_snoc [of bs "odd_bits f [0..<10]", where ?'a = 64]
    by (simp add: EM_BITS_PER_ROW_COUNT_def EM_COLUMN_COUNT_def u8_parity_bit ucast_of_bool odd_bits_def)
qed

section \<open>Encoding\<close>

lemma header_bits: "(0b111111111 :: u64) = bits_val (replicate 9 True)"
  by (simp add: bits_val_def eval_nat_numeral)

lemma em_nibble_halves:
  "em_nibble d (2 * i) = map (\<lambda>j. bit (d ! i) (7 - j)) [0..<4]"
  "em_nibble d (Suc (2 * i)) = map (\<lambda>j. bit (d ! i) (3 - j)) [0..<4]"
  by (simp_all add: em_nibble_def)

lemma write_rows:
  "for_loop 0 n (\<lambda>i enc. let enc = em4100_write_nibble False (d ! i) enc
     in em4100_write_nibble True (d ! i) enc) 0b111111111 = bits_val (em_rows d (2 * n))"
proof (induction n)
  case 0
  then show ?case by (simp only: for_loop_0 header_bits) (simp add: em_rows_def)
next
  case (Suc n)
  have "em_rows d (2 * Suc n) = em_rows d (2 * n) @ em_row d (2 * n) @ em_row d (Suc (2 * n))"
    by (simp add: em_rows_Suc)
  then show ?case using Suc
    by (simp only: for_loop_Suc zero_le Let_def write_nibble_bits if_False if_True em_row_def em_nibble_halves append.assoc)
qed

lemma write_columns:
  "n \<le> 4 \<Longrightarrow> for_loop 0 n (\<lambda>_. em4100_write_column) (bits_val (em_rows d 10)) =
    bits_val (em_rows d 10 @ map (em_column d) [0..<n])"
proof (induction n)
  case (Suc n)
  let ?bs = "em_rows d 10 @ map (em_column d) [0..<n]"
  have "?bs ! (9 + 5 * r + n) = em_nibble d r ! n" if "r < 10" for r
  proof -
    have "9 + 5 * r + n < length (em_rows d 10)" using that Suc.prems by simp
    then show ?thesis using em_rows_nth [OF that, of n] Suc.prems by (simp add: nth_append em_row_def)
  qed
  then have "em4100_write_column (bits_val ?bs) = bits_val (?bs @ [em_column d n])"
    unfolding em_column_def using Suc.prems by (intro write_column_bits [of _ n]) (auto simp: em_column_def [symmetric])
  then show ?case using Suc by (simp add: for_loop_Suc)
qed simp

lemma encoder_start:
  assumes "5 \<le> length (em_data proto)"
  shows "protocol_em4100_encoder_start proto =
    Some (True, proto \<lparr>encoded_data := bits_val (em_frame (em_data proto)), encoded_data_index := 0, encoded_polarity := True\<rparr>)"
proof -
  have "shl (bits_val (em_rows (em_data proto) 10 @ map (em_column (em_data proto)) [0..<4])) 1 OR 0
      = (bits_val (em_frame (em_data proto)) :: u64)"
    using bits_val_snoc [of "em_rows (em_data proto) 10 @ map (em_column (em_data proto)) [0..<4]" False, where ?'a = 64]
    by (simp add: em_frame_def)
  moreover have "2 * EM4100_DECODED_DATA_SIZE = 10" by (simp add: EM4100_DECODED_DATA_SIZE_def)
  ultimately show ?thesis
    using assms unfolding protocol_em4100_encoder_start_def write_rows [unfolded Let_def] Let_def
    by (simp add: EM4100_DECODED_DATA_SIZE_def EM_COLUMN_COUNT_def write_columns)
qed

section \<open>Decoding\<close>

text \<open>Reading a word from the top: bit \<open>63 - k\<close> of a frame is the frame's \<open>k\<close>-th bit.\<close>

lemma frame_bit: "length bs = 64 \<Longrightarrow> n < 64 \<Longrightarrow> bit (bits_val bs :: u64) n = bs ! (63 - n)"
  by (simp add: bit_bits_val)

lemma top_bit: "cw AND shl 1 63 \<noteq> 0 \<longleftrightarrow> bit (cw :: u64) 63"
  using and_exp_eq_0_iff_not_bit [of cw 63] by (simp add: push_bit_of_1)

lemma decode_bit_eq:
  "em4100_decode_bit i (n, cw) = (if i < 4 then shl n 1 OR of_bool (bit cw 63) else n, shl cw 1)"
  by (simp only: em4100_decode_bit_def prod.case top_bit of_bool_def)

lemma decode_nibble:
  "for_loop 0 5 em4100_decode_bit (0, cw) =
   (bits_val (map (\<lambda>i. bit cw (63 - i)) [0..<4]), shl cw 5)"
proof -
  have "k \<le> 4 \<Longrightarrow> for_loop 0 k em4100_decode_bit (0, cw) = (bits_val (map (\<lambda>i. bit cw (63 - i)) [0..<k]), shl cw k)" for k
  proof (induction k)
    case (Suc k)
    have "bit (shl cw k) 63 = bit cw (63 - k)" using Suc.prems by (simp add: bit_simps)
    then show ?case using Suc
      by (simp add: for_loop_Suc decode_bit_eq bits_val_snoc push_bit_push_bit)
  qed simp
  from this [of 4] have "for_loop 0 4 em4100_decode_bit (0, cw) = (bits_val (map (\<lambda>i. bit cw (63 - i)) [0..<4]), shl cw 4)" by simp
  moreover have "for_loop 0 5 em4100_decode_bit (0, cw) = em4100_decode_bit 4 (for_loop 0 4 em4100_decode_bit (0, cw))"
    using for_loop_Suc [of 0 4 em4100_decode_bit] by simp
  ultimately show ?thesis by (simp add: decode_bit_eq push_bit_push_bit)
qed

text \<open>Two rows give back a byte.\<close>

lemma em_byte_of_nibbles:
  "shl (0 OR bits_val (map (\<lambda>j. bit b (7 - j)) [0..<4])) 4 OR bits_val (map (\<lambda>j. bit b (3 - j)) [0..<4]) = (b :: u8)"
  by (rule word_eqI_upto) (simp add: all_less_8 bit_simps bit_bits_val)

lemma decode_two_rows:
  assumes "k < length out" "out ! k = 0"
    and "map (\<lambda>i. bit cw (63 - i)) [0..<4] = em_nibble d (2 * k)"
    and "map (\<lambda>i. bit (shl cw 5) (63 - i)) [0..<4] = em_nibble d (Suc (2 * k))"
  shows "em4100_decode_rows (2 * k # Suc (2 * k) # rs) (0, cw, k, out) =
    em4100_decode_rows rs (0, shl cw 10, Suc k, out[k := d ! k])"
proof -
  have "em4100_decode_row (2 * k) (0, cw, k, out) = Some (shl 0 4 OR bits_val (em_nibble d (2 * k)), shl cw 5, k, out)"
    by (simp add: em4100_decode_row_def decode_nibble assms(3) [symmetric])
  moreover have "em4100_decode_row (Suc (2 * k)) (v, shl cw 5, k, out)
      = Some (0, shl cw 10, Suc k, out[k := 0 OR (shl v 4 OR bits_val (em_nibble d (Suc (2 * k))))])" for v
    using assms(1,2) by (simp add: em4100_decode_row_def decode_nibble assms(4) [symmetric] rd_def wr_def push_bit_push_bit)
  ultimately show ?thesis
    using em_byte_of_nibbles [of "d ! k"] by (simp add: em_nibble_halves)
qed

lemma frame_nibble:
  assumes "r < 10"
  shows "map (\<lambda>i. bit (shl (bits_val (em_frame d) :: u64) (9 + 5 * r)) (63 - i)) [0..<4] = em_nibble d r"
proof (rule nth_equalityI)
  fix i assume "i < length (map (\<lambda>i. bit (shl (bits_val (em_frame d) :: u64) (9 + 5 * r)) (63 - i)) [0..<4])"
  then have i: "i < 4" by simp
  have "bit (shl (bits_val (em_frame d) :: u64) (9 + 5 * r)) (63 - i) = em_frame d ! (9 + 5 * r + i)"
  proof -
    have "9 + 5 * r \<le> 63 - i" "63 - (63 - i - (9 + 5 * r)) = 9 + 5 * r + i" using assms i by linarith+
    moreover have "63 - i < LENGTH(64)" by simp
    ultimately show ?thesis by (simp only: bit_push_bit_iff frame_bit length_em_frame) simp
  qed
  also have "\<dots> = em_nibble d r ! i"
    using em_rows_nth [OF assms, of i] i assms by (simp add: em_frame_def em_row_def nth_append)
  finally show "map (\<lambda>i. bit (shl (bits_val (em_frame d) :: u64) (9 + 5 * r)) (63 - i)) [0..<4] ! i = em_nibble d r ! i"
    using i by simp
qed simp

lemma decode_frame_rows:
  assumes d: "length d = 5" and k: "k \<le> 5"
  shows "em4100_decode_rows [2 * (5 - k)..<10] (0, shl (bits_val (em_frame d)) (9 + 10 * (5 - k)), 5 - k, take (5 - k) d @ replicate k 0)
    = Some (0, shl (bits_val (em_frame d)) 59, 5, d)"
  using k
proof (induction k)
  case 0
  then show ?case using d by simp
next
  case (Suc k)
  let ?n = "5 - Suc k" and ?w = "bits_val (em_frame d) :: u64"
  have n: "5 - k = Suc ?n" "?n < 5" using Suc.prems by auto
  have rows: "[2 * ?n..<10] = 2 * ?n # Suc (2 * ?n) # [2 * (5 - k)..<10]"
  proof -
    have "2 * (5 - k) = Suc (Suc (2 * ?n))" "2 * ?n < 10" "Suc (2 * ?n) < 10" using n by auto
    then show ?thesis by (simp only: upt_conv_Cons)
  qed
  have "em4100_decode_rows [2 * ?n..<10] (0, shl ?w (9 + 10 * ?n), ?n, take ?n d @ replicate (Suc k) 0)
      = em4100_decode_rows [2 * (5 - k)..<10] (0, shl (shl ?w (9 + 10 * ?n)) 10, Suc ?n, (take ?n d @ replicate (Suc k) 0)[?n := d ! ?n])"
    unfolding rows
  proof (rule decode_two_rows [where d = d])
    show "?n < length (take ?n d @ replicate (Suc k) 0)" "(take ?n d @ replicate (Suc k) 0) ! ?n = 0"
      using d n by (simp_all add: nth_append)
    show "map (\<lambda>i. bit (shl ?w (9 + 10 * ?n)) (63 - i)) [0..<4] = em_nibble d (2 * ?n)"
      using frame_nibble [of "2 * ?n" d] n by simp
    have "shl (shl ?w (9 + 10 * ?n)) 5 = shl ?w (9 + 5 * Suc (2 * ?n))" by (simp add: push_bit_push_bit add.commute)
    then show "map (\<lambda>i. bit (shl (shl ?w (9 + 10 * ?n)) 5) (63 - i)) [0..<4] = em_nibble d (Suc (2 * ?n))"
      using frame_nibble [of "Suc (2 * ?n)" d] n by simp
  qed
  moreover have "(take ?n d @ replicate (Suc k) 0)[?n := d ! ?n] = take (5 - k) d @ replicate k 0"
    using d n by (simp add: list_update_append take_Suc_conv_app_nth)
  moreover have "shl (shl ?w (9 + 10 * ?n)) 10 = shl ?w (9 + 10 * (5 - k))" using n by (simp add: push_bit_push_bit)
  ultimately show ?case using Suc n by simp
qed

lemma decode_frame:
  assumes "length d = 5" "length out = 5"
  shows "em4100_decode (bits_val (em_frame d)) 8 out EM4100_DECODED_DATA_SIZE = Some d"
proof -
  have "for_loop 0 9 (\<lambda>_ cw. shl cw 1) (w :: u64) = shl w 9" for w
  proof -
    have "for_loop 0 n (\<lambda>_ cw. shl cw 1) w = shl w n" for n
      by (induction n) (simp_all add: for_loop_Suc push_bit_push_bit)
    then show ?thesis .
  qed
  then show ?thesis
    using decode_frame_rows [OF assms(1), of 5] assms(2)
    by (simp add: em4100_decode_def memset_def em_constants)
qed

section \<open>The test of a frame\<close>

text \<open>The positions of a row and of a column, and the nine ones of a header.\<close>

definition row_bits :: "nat \<Rightarrow> nat list" where
  "row_bits i = map (\<lambda>j. 50 - i * 5 + j) [0..<5]"

definition column_bits :: "nat \<Rightarrow> nat list" where
  "column_bits i = map (\<lambda>j. 4 - i + j * 5) [0..<11]"

definition header_ones :: "u64 \<Rightarrow> bool" where
  "header_ones w \<longleftrightarrow> (\<forall>n. 55 \<le> n \<and> n < 64 \<longrightarrow> bit w n)"

lemma row_parity_iff: "em4100_row_parity w i mod 2 \<noteq> 0 \<longleftrightarrow> odd_bits (bit w) (row_bits i)"
  unfolding em4100_row_parity_def sum_bits_loop u8_odd odd_bits_def row_bits_def
  by (simp add: em_constants filter_map o_def)

lemma column_parity_iff: "em4100_column_parity w i mod 2 \<noteq> 0 \<longleftrightarrow> odd_bits (bit w) (column_bits i)"
  unfolding em4100_column_parity_def sum_bits_loop u8_odd odd_bits_def column_bits_def
  by (simp add: em_constants filter_map o_def)

lemma bit_header_mask: "bit EM_HEADER_MASK n \<longleftrightarrow> 55 \<le> n \<and> n < 64"
proof -
  have eq: "EM_HEADER_MASK = shl (mask 9) 55" by (simp add: em_constants mask_eq_exp_minus_1)
  show ?thesis unfolding eq by (auto simp: bit_simps)
qed

lemma u64_eq_iff: "v = w \<longleftrightarrow> (\<forall>n. bit v n = bit (w :: u64) n)"
  by (auto intro: bit_word_eqI)

lemma epilogue_iff: "e AND EM_ENCODED_DATA_HEADER = EM_ENCODED_DATA_HEADER \<longleftrightarrow> header_ones e"
proof -
  have "EM_ENCODED_DATA_HEADER = EM_HEADER_MASK" by (simp add: em_constants)
  then show ?thesis unfolding header_ones_def by (simp only: u64_eq_iff bit_and_iff bit_header_mask) blast
qed

lemma header_stop_iff:
  "w AND EM_HEADER_AND_STOP_MASK = EM_HEADER_AND_STOP_DATA \<longleftrightarrow> header_ones w \<and> \<not> bit w 0"
proof -
  have mask: "bit EM_HEADER_AND_STOP_MASK n \<longleftrightarrow> 55 \<le> n \<and> n < 64 \<or> n = 0" for n
    by (auto simp: EM_HEADER_AND_STOP_MASK_def EM_STOP_MASK_def EM_STOP_POS_def bit_simps bit_header_mask)
  have "w AND EM_HEADER_AND_STOP_MASK = EM_HEADER_AND_STOP_DATA \<longleftrightarrow>
      (\<forall>n. bit w n \<and> (55 \<le> n \<and> n < 64 \<or> n = 0) \<longleftrightarrow> 55 \<le> n \<and> n < 64)"
    by (simp only: u64_eq_iff bit_and_iff mask EM_HEADER_AND_STOP_DATA_def bit_header_mask)
  also have "\<dots> \<longleftrightarrow> header_ones w \<and> \<not> bit w 0"
    unfolding header_ones_def by (metis not_less zero_less_numeral)
  finally show ?thesis .
qed

lemma can_be_decoded_iff:
  "em4100_can_be_decoded w 8 e = Some (header_ones e \<and> header_ones w \<and> \<not> bit w 0 \<and>
      (\<forall>i<10. \<not> odd_bits (bit w) (row_bits i)) \<and> (\<forall>i<4. \<not> odd_bits (bit w) (column_bits i)))"
proof -
  have "list_ex P [0..<n] \<longleftrightarrow> (\<exists>i<n. P i)" for P and n :: nat by (auto simp: list_ex_iff)
  then show ?thesis
    unfolding em4100_can_be_decoded_def epilogue_iff header_stop_iff row_parity_iff column_parity_iff
      EM_ROW_COUNT_def EM_COLUMN_COUNT_def EM4100_ENCODED_DATA_SIZE_def by simp
qed

lemma frame_header: "header_ones (bits_val (em_frame d))"
  unfolding header_ones_def
proof (intro allI impI)
  fix n :: nat assume "55 \<le> n \<and> n < 64"
  then have "n < 64" "63 - n < 9" by auto
  moreover have "em_frame d ! k" if "k < 9" for k using that by (simp add: em_frame_def em_rows_def nth_append)
  ultimately show "bit (bits_val (em_frame d) :: u64) n" by (simp only: frame_bit length_em_frame)
qed

lemma frame_at:
  assumes "r < 10" "j < 5"
  shows "bit (bits_val (em_frame d) :: u64) (54 - (5 * r + j)) = em_row d r ! j"
proof -
  have n: "63 - (54 - (5 * r + j)) = 9 + 5 * r + j" "54 - (5 * r + j) < 64" "9 + 5 * r + j < length (em_rows d 10)"
    using assms by auto
  have "bit (bits_val (em_frame d) :: u64) (54 - (5 * r + j)) = em_frame d ! (9 + 5 * r + j)"
    by (simp only: frame_bit [OF length_em_frame n(2)] n(1))
  then show ?thesis unfolding em_frame_def nth_append_left [OF n(3)] em_rows_nth [OF assms] .
qed

lemma frame_column:
  assumes "c < 4"
  shows "bit (bits_val (em_frame d) :: u64) (4 - c) = em_column d c"
proof -
  have "4 - c < 64" "63 - (4 - c) = 59 + c" using assms by auto
  then have "bit (bits_val (em_frame d) :: u64) (4 - c) = em_frame d ! (59 + c)" by (simp only: frame_bit length_em_frame)
  then show ?thesis using assms by (simp add: em_frame_def nth_append)
qed

lemma frame_row_even:
  assumes "i < 10"
  shows "\<not> odd_bits (bit (bits_val (em_frame d) :: u64)) (row_bits i)"
proof -
  have "row_bits i = map (\<lambda>j. 54 - (5 * i + (4 - j))) [0..<5]"
    unfolding row_bits_def using assms by (intro map_cong) auto
  then have "odd_bits (bit (bits_val (em_frame d) :: u64)) (row_bits i) = odd_bits (\<lambda>j. em_row d i ! (4 - j)) [0..<5]"
    using assms by (simp only: odd_bits_map) (rule odd_bits_cong, simp only: comp_apply, rule frame_at, auto)
  also have "\<dots> = False" by (auto simp: upt_rec em_row_def em_nibble_def nth_append)
  finally show ?thesis by simp
qed

lemma frame_column_even:
  assumes "c < 4"
  shows "\<not> odd_bits (bit (bits_val (em_frame d) :: u64)) (column_bits c)"
proof -
  have "column_bits c = (4 - c) # map (\<lambda>r. 54 - (5 * r + c)) (rev [0..<10])"
  proof -
    have "[0..<11] = 0 # map (\<lambda>r. 10 - r) (rev [0..<10])" by code_simp
    moreover have "4 - c + (10 - r) * 5 = 54 - (5 * r + c)" if "r < 10" for r using that assms by linarith
    ultimately show ?thesis unfolding column_bits_def by simp
  qed
  moreover have "odd_bits (bit (bits_val (em_frame d) :: u64)) (map (\<lambda>r. 54 - (5 * r + c)) (rev [0..<10]))
      = odd_bits (\<lambda>r. em_nibble d r ! c) (rev [0..<10])"
    unfolding odd_bits_map using assms frame_at [of _ c d]
    by (intro odd_bits_cong) (simp add: em_row_def nth_append)
  moreover have "odd_bits (\<lambda>r. em_nibble d r ! c) (rev [0..<10]) = em_column d c"
    by (simp add: em_column_def odd_bits_def rev_filter [symmetric])
  ultimately show ?thesis using frame_column [OF assms, of d] by simp
qed

lemma frame_accepted:
  "header_ones e \<Longrightarrow> em4100_can_be_decoded (bits_val (em_frame d)) 8 e = Some True"
  unfolding can_be_decoded_iff
  using frame_header frame_row_even frame_column_even frame_bit [OF length_em_frame, of 0 d] by (simp add: em_frame_def nth_append)

text \<open>Flipping one bit of an accepted word breaks its header, its stop bit, a row or a column.\<close>

lemma odd_bits_flip:
  assumes "distinct ns" "k < 64"
  shows "odd_bits (bit (w XOR shl 1 k :: u64)) ns \<longleftrightarrow> odd_bits (bit w) ns \<noteq> (k \<in> set ns)"
proof -
  have "bit (w XOR shl 1 k :: u64) = (\<lambda>n. bit w n \<noteq> (n = k))"
    using assms(2) by (auto simp: fun_eq_iff bit_simps dest: bit_imp_le_length)
  then have "odd_bits (bit (w XOR shl 1 k :: u64)) ns \<longleftrightarrow> odd_bits (bit w) ns \<noteq> odd_bits (\<lambda>n. n = k) ns"
    unfolding odd_bits_def by (simp only: odd_filter_xor [of "bit w" "\<lambda>n. n = k" ns])
  moreover have "odd_bits (\<lambda>n. n = k) ns \<longleftrightarrow> k \<in> set ns"
    using assms(1) by (induction ns) auto
  ultimately show ?thesis by simp
qed

lemma row_of_position: "5 \<le> k \<Longrightarrow> k < 55 \<Longrightarrow> \<exists>i<10. k \<in> set (row_bits i)"
proof -
  assume k: "5 \<le> k" "k < 55"
  have q: "1 \<le> k div 5" "k div 5 < 11" using div_le_mono [OF k(1), of 5] k(2) less_mult_imp_div_less [of k 11 5] by simp_all
  have "50 - (10 - k div 5) * 5 = k div 5 * 5" using q by arith
  then have "k = 50 - (10 - k div 5) * 5 + k mod 5" by simp
  moreover have "k mod 5 \<in> set [0..<5]" by simp
  ultimately have "k \<in> set (row_bits (10 - k div 5))" unfolding row_bits_def set_map by (rule image_eqI)
  then show ?thesis using q by (intro exI [of _ "10 - k div 5"]) simp
qed

lemma flip_rejected:
  assumes "em4100_can_be_decoded w 8 e = Some True" "k < 64"
  shows "em4100_can_be_decoded (w XOR shl 1 k) 8 e' = Some False"
proof -
  have flip: "bit (w XOR shl 1 k :: u64) k \<longleftrightarrow> \<not> bit w k" using assms(2) by (simp add: bit_simps)
  have ok: "header_ones w" "\<not> bit w 0" "i < 10 \<Longrightarrow> \<not> odd_bits (bit w) (row_bits i)"
    "c < 4 \<Longrightarrow> \<not> odd_bits (bit w) (column_bits c)" for i c
    using assms(1) by (simp_all add: can_be_decoded_iff)
  have dist: "distinct (row_bits i)" "distinct (column_bits c)" for i c
    by (simp_all add: row_bits_def column_bits_def distinct_map inj_on_def)
  consider "55 \<le> k" | "k = 0" | "1 \<le> k" "k \<le> 4" | "5 \<le> k" "k < 55" by linarith
  then show ?thesis
  proof cases
    case 1
    then have "\<not> header_ones (w XOR shl 1 k)" using flip ok(1) assms(2) unfolding header_ones_def by blast
    then show ?thesis by (simp add: can_be_decoded_iff)
  next
    case 2
    then show ?thesis using flip ok(2) by (simp add: can_be_decoded_iff)
  next
    case 3
    then have "4 - k < 4" "k \<in> set (column_bits (4 - k))" by (auto simp: column_bits_def)
    then show ?thesis using odd_bits_flip [OF dist(2) assms(2)] ok(4) unfolding can_be_decoded_iff by blast
  next
    case 4
    then obtain i where "i < 10" "k \<in> set (row_bits i)" using row_of_position by blast
    then show ?thesis using odd_bits_flip [OF dist(1) assms(2)] ok(3) unfolding can_be_decoded_iff by blast
  qed
qed

section \<open>Reading a signal\<close>

text \<open>Decoding never runs out of its buffer, whatever the word is.\<close>

lemma decode_row_total:
  assumes "r < 10" "length out = 5"
  shows "\<exists>v1 cw1 out1. em4100_decode_row r (v, cw, r div 2, out) = Some (v1, cw1, Suc r div 2, out1) \<and> length out1 = 5"
proof (cases "even r")
  case True
  then show ?thesis using assms(2) by (simp add: em4100_decode_row_def decode_nibble)
next
  case False
  moreover have "r div 2 < 5" using assms(1) by simp
  ultimately show ?thesis using assms(2)
    by (simp add: em4100_decode_row_def decode_nibble odd_iff_mod_2_eq_one rd_def wr_def)
qed

lemma decode_rows_total:
  "k \<le> 10 \<Longrightarrow> length out = 5 \<Longrightarrow>
   \<exists>v' cw' i' out'. em4100_decode_rows [10 - k..<10] (v, cw, (10 - k) div 2, out) = Some (v', cw', i', out') \<and> length out' = 5"
proof (induction k arbitrary: v cw out)
  case (Suc k)
  obtain r where r: "r = 10 - Suc k" "10 - k = Suc r" "r < 10" using Suc.prems(1) that [of "10 - Suc k"] by linarith
  obtain v1 cw1 out1 where "em4100_decode_row r (v, cw, r div 2, out) = Some (v1, cw1, Suc r div 2, out1)" "length out1 = 5"
    using decode_row_total [OF r(3) Suc.prems(2)] by blast
  moreover have "[r..<10] = r # [Suc r..<10]" using r(3) by (rule upt_conv_Cons)
  ultimately show ?case unfolding r(1) [symmetric]
    using Suc.IH [of out1 v1 cw1] Suc.prems(1) unfolding r(2) by simp
qed simp

lemma em4100_decode_total: "length out = 5 \<Longrightarrow> \<exists>d. em4100_decode w 8 out EM4100_DECODED_DATA_SIZE = Some d \<and> length d = 5"
  using decode_rows_total [of 10 "replicate 5 0" 0 "for_loop 0 9 (\<lambda>_ cw. shl cw 1) w"]
  by (auto simp: em4100_decode_def memset_def em_constants)

text \<open>The two words together are a register of 128 bits.\<close>

definition em_register :: "ProtocolEM4100 \<Rightarrow> nat \<Rightarrow> bool" where
  "em_register p n = (if n < 64 then bit (encoded_epilogue p) n else bit (encoded_data p) (n - 64))"

lemma push_bit_step:
  assumes "length (em_data p) = 5"
  shows "\<exists>r q. em4100_push_bit p b = Some (r, q) \<and> length (em_data q) = 5 \<and>
    clock_per_bit q = clock_per_bit p \<and> decoder_manchester_state q = decoder_manchester_state p \<and>
    (\<forall>n<128. em_register q n = (if n = 0 then b else em_register p (n - 1))) \<and>
    em4100_can_be_decoded (encoded_data q) 8 (encoded_epilogue q) = Some r \<and>
    (r \<longrightarrow> em4100_decode (encoded_data q) 8 (em_data p) EM4100_DECODED_DATA_SIZE = Some (em_data q))"
proof -
  let ?q = "p \<lparr>encoded_data := shl (encoded_data p) 1 OR (shr (encoded_epilogue p) 63 AND 1),
      encoded_epilogue := shl (encoded_epilogue p) 1 OR of_bool b\<rparr>"
  have reg: "em_register ?q n = (if n = 0 then b else em_register p (n - 1))" if "n < 128" for n
  proof -
    consider "n = 0" | "0 < n" "n < 64" | "n = 64" | "64 < n" by linarith
    then show ?thesis using that by cases (auto simp: em_register_def bit_simps)
  qed
  obtain d where d: "em4100_decode (encoded_data ?q) 8 (em_data p) EM4100_DECODED_DATA_SIZE = Some d" "length d = 5"
    using em4100_decode_total [OF assms] by blast
  obtain r where r: "em4100_can_be_decoded (encoded_data ?q) 8 (encoded_epilogue ?q) = Some r"
    unfolding can_be_decoded_iff by blast
  show ?thesis
  proof (cases r)
    case True
    have "em4100_push_bit p b = Some (True, ?q \<lparr>em_data := d\<rparr>)"
      using r d(1) True by (simp add: em4100_push_bit_def Let_def)
    moreover have "em_register (?q \<lparr>em_data := d\<rparr>) = em_register ?q" by (simp add: em_register_def fun_eq_iff)
    ultimately show ?thesis using reg d r True by (intro exI [of _ True] exI [of _ "?q \<lparr>em_data := d\<rparr>"]) simp
  next
    case False
    have "em4100_push_bit p b = Some (False, ?q)" using r False by (simp add: em4100_push_bit_def Let_def)
    then show ?thesis using reg r False assms by (intro exI [of _ False] exI [of _ ?q]) simp
  qed
qed

fun push_bits :: "ProtocolEM4100 \<Rightarrow> bool list \<Rightarrow> (bool list \<times> ProtocolEM4100) option" where
  "push_bits p [] = Some ([], p)"
| "push_bits p (b # bs) = do { (r, p) \<leftarrow> em4100_push_bit p b; (rs, p) \<leftarrow> push_bits p bs; Some (r # rs, p) }"

fun feed_pulses :: "ProtocolEM4100 \<Rightarrow> (bool \<times> nat) list \<Rightarrow> (bool list \<times> ProtocolEM4100) option" where
  "feed_pulses p [] = Some ([], p)"
| "feed_pulses p ((level, duration) # ps) = do {
     (r, p) \<leftarrow> protocol_em4100_decoder_feed p level duration;
     (rs, p) \<leftarrow> feed_pulses p ps;
     Some (r # rs, p)
   }"

lemma push_bits_register:
  assumes "length (em_data p) = 5"
  shows "\<exists>rs q. push_bits p bs = Some (rs, q) \<and> length rs = length bs \<and> length (em_data q) = 5 \<and>
    clock_per_bit q = clock_per_bit p \<and> decoder_manchester_state q = decoder_manchester_state p \<and>
    (\<forall>n<128. em_register q n = (if n < length bs then bs ! (length bs - 1 - n) else em_register p (n - length bs)))"
  using assms
proof (induction bs arbitrary: p)
  case (Cons b bs)
  obtain r p1 where p1: "em4100_push_bit p b = Some (r, p1)" "length (em_data p1) = 5" "clock_per_bit p1 = clock_per_bit p"
    "decoder_manchester_state p1 = decoder_manchester_state p"
    "\<forall>n<128. em_register p1 n = (if n = 0 then b else em_register p (n - 1))"
    using push_bit_step [OF Cons.prems, of b] by blast
  obtain rs q where q: "push_bits p1 bs = Some (rs, q)" "length rs = length bs" "length (em_data q) = 5" "clock_per_bit q = clock_per_bit p1"
    "decoder_manchester_state q = decoder_manchester_state p1"
    "\<forall>n<128. em_register q n = (if n < length bs then bs ! (length bs - 1 - n) else em_register p1 (n - length bs))"
    using Cons.IH [OF p1(2)] by blast
  have "em_register q n = (if n < length (b # bs) then (b # bs) ! (length (b # bs) - 1 - n) else em_register p (n - length (b # bs)))"
    if "n < 128" for n
  proof -
    consider "n < length bs" | "n = length bs" | "length bs < n" by linarith
    then show ?thesis
    proof cases
      case 1
      then have "length (b # bs) - 1 - n = Suc (length bs - 1 - n)" by simp
      then show ?thesis using q(6) that 1 by simp
    next
      case 2
      then show ?thesis using q(6) p1(5) that by simp
    next
      case 3
      then have "n - length bs \<noteq> 0" "n - length bs < 128" "n - length bs - 1 = n - length (b # bs)" using that by auto
      then show ?thesis using q(6) p1(5) that 3 by simp
    qed
  qed
  then show ?case using p1 q by simp
qed simp

lemma push_bits_append:
  "push_bits p (as @ bs) = do { (rs, p) \<leftarrow> push_bits p as; (rs', p) \<leftarrow> push_bits p bs; Some (rs @ rs', p) }"
  by (induction as arbitrary: p) (auto split: Option.bind_splits)

text \<open>After two copies of a frame the decoder reports it, whatever came before.\<close>

lemma push_two_frames:
  assumes p: "length (em_data p) = 5" and d: "length d = 5"
  shows "\<exists>rs q. push_bits p (bs @ em_frame d @ em_frame d) = Some (rs, q) \<and> True \<in> set rs \<and>
    em_data q = d \<and> clock_per_bit q = clock_per_bit p \<and> decoder_manchester_state q = decoder_manchester_state p"
proof -
  let ?fs = "em_frame d @ em_frame d"
  obtain cs c where cs: "?fs = cs @ [c]" by (metis append_butlast_last_id append_is_Nil_conv length_em_frame list.size(3) zero_neq_numeral)
  have len: "length cs = 127" using arg_cong [OF cs, of length] by simp
  obtain rs1 p1 where p1: "push_bits p (bs @ cs) = Some (rs1, p1)" "length (em_data p1) = 5" "clock_per_bit p1 = clock_per_bit p"
    "decoder_manchester_state p1 = decoder_manchester_state p"
    "\<forall>n<128. em_register p1 n = (if n < length (bs @ cs) then (bs @ cs) ! (length (bs @ cs) - 1 - n) else em_register p (n - length (bs @ cs)))"
    using push_bits_register [OF p, of "bs @ cs"] by blast
  obtain r q where q: "em4100_push_bit p1 c = Some (r, q)" "clock_per_bit q = clock_per_bit p1"
    "decoder_manchester_state q = decoder_manchester_state p1"
    "\<forall>n<128. em_register q n = (if n = 0 then c else em_register p1 (n - 1))"
    "em4100_can_be_decoded (encoded_data q) 8 (encoded_epilogue q) = Some r"
    "r \<longrightarrow> em4100_decode (encoded_data q) 8 (em_data p1) EM4100_DECODED_DATA_SIZE = Some (em_data q)"
    using push_bit_step [OF p1(2), of c] by blast
  have reg: "em_register q n = ?fs ! (127 - n)" if "n < 128" for n
  proof (cases n)
    case 0
    then show ?thesis using q(4) len unfolding cs by (simp add: nth_append)
  next
    case (Suc m)
    then have "em_register q n = (bs @ cs) ! (length bs + (126 - m))" using q(4) p1(5) len that by (simp add: add.commute)
    also have "\<dots> = cs ! (126 - m)" by simp
    also have "\<dots> = ?fs ! (127 - n)"
    proof -
      have "127 - n < length cs" "126 - m = 127 - n" using Suc len that by auto
      then show ?thesis unfolding cs by (simp only: nth_append_left)
    qed
    finally show ?thesis .
  qed
  have "encoded_epilogue q = bits_val (em_frame d)"
  proof (rule bit_word_eqI)
    fix n assume "n < LENGTH(64)"
    then show "bit (encoded_epilogue q) n = bit (bits_val (em_frame d) :: u64) n"
      using reg [of n] by (simp add: em_register_def frame_bit nth_append)
  qed
  moreover have "encoded_data q = bits_val (em_frame d)"
  proof (rule bit_word_eqI)
    fix n assume "n < LENGTH(64)"
    then show "bit (encoded_data q) n = bit (bits_val (em_frame d) :: u64) n"
      using reg [of "n + 64"] by (simp add: em_register_def frame_bit nth_append)
  qed
  ultimately have "r" "em_data q = d"
    using q(5,6) frame_accepted [OF frame_header] decode_frame [OF d p1(2)] by auto
  moreover have "push_bits p (bs @ ?fs) = Some (rs1 @ [r], q)"
    unfolding cs using p1(1) q(1) push_bits_append [of p "bs @ cs" "[c]"] by simp
  ultimately show ?thesis using q(2,3) p1(3,4) by auto
qed

text \<open>
  The signal on the antenna: half bits of the same level that follow each other form one pulse. A
  carrier period lasts eight microseconds, the unit of the durations that the reader measures.
\<close>

fun merge_pulses :: "(bool \<times> nat) list \<Rightarrow> (bool \<times> nat) list" where
  "merge_pulses ((l, t) # (l', t') # ps) =
     (if l = l' then merge_pulses ((l, t + t') # ps) else (l, t) # merge_pulses ((l', t') # ps))"
| "merge_pulses ps = ps"

definition antenna :: "(bool \<times> nat) list \<Rightarrow> (bool \<times> nat) list" where
  "antenna ps = merge_pulses (map (\<lambda>(l, t). (l, 8 * t)) ps)"

fun half_bits :: "nat \<Rightarrow> bool list \<Rightarrow> (bool \<times> nat) list" where
  "half_bits t [] = []"
| "half_bits t (b # bs) = (b, t) # (\<not> b, t) # half_bits t bs"

text \<open>The pulses from the middle of a bit on.\<close>

fun mid_pulses :: "nat \<Rightarrow> bool \<Rightarrow> bool list \<Rightarrow> (bool \<times> nat) list" where
  "mid_pulses t p [] = [(\<not> p, t)]"
| "mid_pulses t p (b # bs) = (if b = p then (\<not> p, t) # (b, t) # mid_pulses t b bs else (b, 2 * t) # mid_pulses t b bs)"

lemma merge_mid: "merge_pulses ((\<not> p, t) # half_bits t bs) = mid_pulses t p bs"
proof (induction bs arbitrary: p)
  case (Cons b bs)
  show ?case
  proof (cases "b = p")
    case True
    then show ?thesis using Cons [of b] by simp
  next
    case False
    then have "b = (\<not> p)" by auto
    then show ?thesis using Cons [of b] by (simp add: mult_2)
  qed
qed simp

lemma merge_half_bits: "merge_pulses (half_bits t (b # bs)) = (b, t) # mid_pulses t b bs"
  using merge_mid [of b t bs] by simp

text \<open>The reader classifies the pulses of its own bit rate.\<close>

definition rate_ok :: "ProtocolEM4100 \<Rightarrow> bool" where
  "rate_ok p \<longleftrightarrow> clock_per_bit p \<in> {16, 32, 64}"

lemma pulse_events:
  assumes "rate_ok p" "t = 8 * (clock_per_bit p div 2)"
  shows "em4100_pulse_event p l t = (if l then ManchesterEventShortLow else ManchesterEventShortHigh)"
    and "em4100_pulse_event p l (2 * t) = (if l then ManchesterEventLongLow else ManchesterEventLongHigh)"
  using assms
  by (auto simp: rate_ok_def em4100_pulse_event_def protocol_em4100_get_short_time_low_def protocol_em4100_get_short_time_high_def
      protocol_em4100_get_long_time_low_def protocol_em4100_get_long_time_high_def protocol_em4100_get_time_divisor_def em_constants)

lemma push_bit_state:
  assumes "em4100_push_bit p b = Some (r, q)"
  shows "em4100_push_bit (p \<lparr>decoder_manchester_state := st\<rparr>) b = Some (r, q \<lparr>decoder_manchester_state := st\<rparr>)"
proof -
  let ?w = "shl (encoded_data p) 1 OR (shr (encoded_epilogue p) 63 AND 1)" and ?e = "shl (encoded_epilogue p) 1 OR of_bool b"
  obtain ok where "em4100_can_be_decoded ?w 8 ?e = Some ok" unfolding can_be_decoded_iff by blast
  then show ?thesis
    using assms unfolding em4100_push_bit_def Let_def
    by (cases ok; cases "em4100_decode ?w 8 (em_data p) EM4100_DECODED_DATA_SIZE") auto
qed

lemma pulse_event_state [simp]:
  "em4100_pulse_event (p \<lparr>decoder_manchester_state := st\<rparr>) = em4100_pulse_event p"
  by (simp add: fun_eq_iff em4100_pulse_event_def protocol_em4100_get_short_time_low_def protocol_em4100_get_short_time_high_def
      protocol_em4100_get_long_time_low_def protocol_em4100_get_long_time_high_def protocol_em4100_get_time_divisor_def)

text \<open>One half bit, and one or two pulses that complete a bit, from the middle of a bit.\<close>

lemma feed_half:
  assumes "rate_ok p" "t = 8 * (clock_per_bit p div 2)"
  shows "protocol_em4100_decoder_feed (p \<lparr>decoder_manchester_state := mid_state b\<rparr>) (\<not> b) t
    = Some (False, p \<lparr>decoder_manchester_state := start_state b\<rparr>)"
  using pulse_events [OF assms] by (cases b)
    (simp_all add: protocol_em4100_decoder_feed_def mid_state_def start_state_def advance_table)

lemma feed_half_at_boundary:
  assumes "rate_ok p" "t = 8 * (clock_per_bit p div 2)" "em4100_push_bit p b = Some (r, q)"
  shows "protocol_em4100_decoder_feed (p \<lparr>decoder_manchester_state := start_state b\<rparr>) b t
    = Some (r, q \<lparr>decoder_manchester_state := mid_state b\<rparr>)"
  using pulse_events [OF assms(1,2)] push_bit_state [OF assms(3)] by (cases b)
    (simp_all add: protocol_em4100_decoder_feed_def mid_state_def start_state_def advance_table)

lemma feed_long:
  assumes "rate_ok p" "t = 8 * (clock_per_bit p div 2)" "em4100_push_bit p (\<not> b) = Some (r, q)"
  shows "protocol_em4100_decoder_feed (p \<lparr>decoder_manchester_state := mid_state b\<rparr>) (\<not> b) (2 * t)
    = Some (r, q \<lparr>decoder_manchester_state := mid_state (\<not> b)\<rparr>)"
  using pulse_events [OF assms(1,2)] push_bit_state [OF assms(3)] by (cases b)
    (simp_all add: protocol_em4100_decoder_feed_def mid_state_def start_state_def advance_table)

lemma feed_mid:
  assumes "rate_ok p" "t = 8 * (clock_per_bit p div 2)" "length (em_data p) = 5" "push_bits p bs = Some (rs, q)"
  shows "\<exists>rs' st. feed_pulses (p \<lparr>decoder_manchester_state := mid_state b\<rparr>) (mid_pulses t b bs)
      = Some (rs', q \<lparr>decoder_manchester_state := st\<rparr>) \<and> set rs \<subseteq> set rs'"
  using assms
proof (induction bs arbitrary: p b rs)
  case Nil
  then show ?case using feed_half [OF Nil(1,2), of b] by auto
next
  case (Cons c bs)
  obtain r p1 where p1: "em4100_push_bit p c = Some (r, p1)" "length (em_data p1) = 5" "clock_per_bit p1 = clock_per_bit p"
    using push_bit_step [OF Cons.prems(3), of c] by blast
  obtain rs1 where rs1: "push_bits p1 bs = Some (rs1, q)" "rs = r # rs1"
    using Cons.prems(4) p1(1) by (auto split: Option.bind_splits)
  have "rate_ok p1" "t = 8 * (clock_per_bit p1 div 2)" using Cons.prems(1,2) p1(3) by (simp_all add: rate_ok_def)
  then obtain rs2 st where IH: "feed_pulses (p1 \<lparr>decoder_manchester_state := mid_state c\<rparr>) (mid_pulses t c bs)
      = Some (rs2, q \<lparr>decoder_manchester_state := st\<rparr>)" "set rs1 \<subseteq> set rs2"
    using Cons.IH [OF _ _ p1(2) rs1(1)] by blast
  show ?case
  proof (cases "c = b")
    case True
    have "feed_pulses (p \<lparr>decoder_manchester_state := mid_state b\<rparr>) (mid_pulses t b (c # bs))
        = Some (False # r # rs2, q \<lparr>decoder_manchester_state := st\<rparr>)"
      using feed_half [OF Cons.prems(1,2), of b] feed_half_at_boundary [OF Cons.prems(1,2) p1(1)] IH(1) True by simp
    then show ?thesis using IH(2) rs1(2) by auto
  next
    case False
    then have c: "c = (\<not> b)" by auto
    have "feed_pulses (p \<lparr>decoder_manchester_state := mid_state b\<rparr>) (mid_pulses t b (c # bs))
        = Some (r # rs2, q \<lparr>decoder_manchester_state := st\<rparr>)"
      using feed_long [OF Cons.prems(1,2) p1(1) [unfolded c]] IH(1) c by simp
    then show ?thesis using IH(2) rs1(2) by auto
  qed
qed

section \<open>Emulating a card\<close>

fun yields :: "nat \<Rightarrow> ProtocolEM4100 \<Rightarrow> (bool \<times> nat) list" where
  "yields 0 p = []"
| "yields (Suc n) p = (let (y, p) = protocol_em4100_encoder_yield p in y # yields n p)"

lemma yield_bit:
  assumes "encoded_data_index p < 64" "encoded_polarity p" "encoded_data p = bits_val fs" "length fs = 64"
  shows "yields (Suc (Suc n)) p =
    (fs ! encoded_data_index p, clock_per_bit p div 2) # (\<not> fs ! encoded_data_index p, clock_per_bit p div 2) #
    yields n (p \<lparr>encoded_data_index := (encoded_data_index p + 1) mod 64\<rparr>)"
proof -
  let ?i = "encoded_data_index p"
  have "bit (bits_val fs :: u64) (63 - ?i) = fs ! ?i" using assms(1,4) by (simp add: frame_bit)
  then have "protocol_em4100_encoder_yield p = ((fs ! ?i, clock_per_bit p div 2), p \<lparr>encoded_polarity := False\<rparr>)"
    "protocol_em4100_encoder_yield (p \<lparr>encoded_polarity := False\<rparr>) =
      ((\<not> fs ! ?i, clock_per_bit p div 2), p \<lparr>encoded_data_index := (?i + 1) mod 64\<rparr>)"
  proof -
    assume b: "bit (bits_val fs :: u64) (63 - ?i) = fs ! ?i"
    show "protocol_em4100_encoder_yield p = ((fs ! ?i, clock_per_bit p div 2), p \<lparr>encoded_polarity := False\<rparr>)"
      using assms(2,3) b by (simp add: protocol_em4100_encoder_yield_def)
    have "(if 64 \<le> Suc ?i mod 256 then 0 else Suc ?i mod 256) = Suc ?i mod 64"
      using assms(1) by (cases "?i = 63") simp_all
    moreover have "p \<lparr>encoded_polarity := True, encoded_data_index := j\<rparr> = p \<lparr>encoded_data_index := j\<rparr>" for j
      using assms(2) by (cases p) simp
    ultimately show "protocol_em4100_encoder_yield (p \<lparr>encoded_polarity := False\<rparr>) =
        ((\<not> fs ! ?i, clock_per_bit p div 2), p \<lparr>encoded_data_index := (?i + 1) mod 64\<rparr>)"
      using assms(3) b by (simp add: protocol_em4100_encoder_yield_def Let_def split del: if_split)
  qed
  then show ?thesis by (simp del: One_nat_def)
qed

lemma yields_bits:
  assumes "encoded_polarity p" "encoded_data p = bits_val fs" "length fs = 64" "encoded_data_index p < 64"
  shows "yields (2 * n) p = half_bits (clock_per_bit p div 2) (map (\<lambda>k. fs ! ((encoded_data_index p + k) mod 64)) [0..<n])"
  using assms
proof (induction n arbitrary: p)
  case (Suc n)
  let ?i = "encoded_data_index p"
  let ?p = "p \<lparr>encoded_data_index := (?i + 1) mod 64\<rparr>"
  have "map (\<lambda>k. fs ! ((?i + k) mod 64)) [0..<Suc n] = fs ! ?i # map (\<lambda>k. fs ! (((?i + 1) mod 64 + k) mod 64)) [0..<n]"
    using Suc.prems(4) by (simp add: upt_conv_Cons map_Suc_upt [symmetric] mod_Suc_eq mod_add_left_eq o_def del: upt_Suc)
  moreover have "yields (2 * n) ?p = half_bits (clock_per_bit ?p div 2) (map (\<lambda>k. fs ! ((encoded_data_index ?p + k) mod 64)) [0..<n])"
    using Suc.prems by (intro Suc.IH) simp_all
  ultimately show ?case using yield_bit [OF Suc.prems(4,1,2,3), of "2 * n"] by simp
qed simp

lemma cyclic_frame:
  assumes "length fs = 64"
  shows "map (\<lambda>k. fs ! (k mod 64)) [0..<192] = fs @ fs @ fs"
proof (rule nth_equalityI)
  fix k assume "k < length (map (\<lambda>k. fs ! (k mod 64)) [0..<192])"
  then have "k < 192" by simp
  then consider "k < 64" | "64 \<le> k" "k < 128" | "128 \<le> k" "k < 192" by linarith
  then show "map (\<lambda>k. fs ! (k mod 64)) [0..<192] ! k = (fs @ fs @ fs) ! k"
    using assms by cases (simp_all add: nth_append mod_if)
qed (simp add: assms)

lemma frame_Cons: "em_frame d = True # tl (em_frame d)"
  by (simp add: em_frame_def em_rows_def numeral_eq_Suc)

lemma decoder_start_eq:
  "length (em_data p) = 5 \<Longrightarrow> protocol_em4100_decoder_start p =
    Some (p \<lparr>em_data := replicate 5 0, encoded_data := 0, decoder_manchester_state := ManchesterStateMid1\<rparr>)"
  by (simp add: protocol_em4100_decoder_start_def memset_def em_constants manchester_advance_def manchester_reset_state_def)

lemma emulated_card_read:
  assumes d: "length (em_data tag) = 5" and reader: "length (em_data reader) = 5"
    and rate: "clock_per_bit tag \<in> {16, 32, 64}" "clock_per_bit reader = clock_per_bit tag"
  shows "\<exists>tag' reader' results reader''.
    protocol_em4100_encoder_start tag = Some (True, tag') \<and> protocol_em4100_decoder_start reader = Some reader' \<and>
    feed_pulses reader' (antenna (yields 384 tag')) = Some (results, reader'') \<and>
    True \<in> set results \<and> em_data reader'' = em_data tag"
proof -
  let ?d = "em_data tag"
  let ?fs = "em_frame ?d"
  let ?t = "8 * (clock_per_bit tag div 2)"
  let ?tag = "tag \<lparr>encoded_data := bits_val ?fs, encoded_data_index := 0, encoded_polarity := True\<rparr>"
  let ?r = "reader \<lparr>em_data := replicate 5 0, encoded_data := 0, decoder_manchester_state := mid_state True\<rparr>"
  let ?bs = "tl ?fs @ ?fs @ ?fs"
  have "yields 384 ?tag = half_bits (clock_per_bit tag div 2) (?fs @ ?fs @ ?fs)"
    using yields_bits [of ?tag ?fs 192] cyclic_frame [of ?fs] by simp
  moreover have "map (\<lambda>(l, t). (l, 8 * t)) (half_bits t bs) = half_bits (8 * t) bs" for t bs
    by (induction bs) simp_all
  ultimately have signal: "antenna (yields 384 ?tag) = (True, ?t) # mid_pulses ?t True ?bs"
    using merge_half_bits [of ?t True ?bs] frame_Cons [of ?d] unfolding antenna_def by (metis append_Cons)
  have ok: "rate_ok ?r" "?t = 8 * (clock_per_bit ?r div 2)" "length (em_data ?r) = 5"
    using rate by (auto simp: rate_ok_def)
  obtain rs q where q: "push_bits ?r ?bs = Some (rs, q)" "True \<in> set rs" "em_data q = ?d"
    using push_two_frames [OF ok(3) d, of "tl ?fs"] by blast
  obtain rs' st where rs': "feed_pulses ?r (mid_pulses ?t True ?bs) = Some (rs', q \<lparr>decoder_manchester_state := st\<rparr>)" "set rs \<subseteq> set rs'"
    using feed_mid [OF ok q(1), of True] by auto
  have "protocol_em4100_decoder_feed ?r True ?t = Some (False, ?r)"
    using pulse_events(1) [OF ok(1,2), of True] by (simp add: protocol_em4100_decoder_feed_def mid_state_def advance_table)
  then have "feed_pulses ?r (antenna (yields 384 ?tag)) = Some (False # rs', q \<lparr>decoder_manchester_state := st\<rparr>)"
    unfolding signal using rs'(1) by simp
  moreover have "protocol_em4100_decoder_start reader = Some ?r"
    using decoder_start_eq [OF reader] by (simp add: mid_state_def)
  ultimately show ?thesis
    using encoder_start [of tag] d q(2,3) rs'(2) by auto
qed

section \<open>The codec as an interface\<close>

text \<open>
  What the writers of cards rely on: encoded data are accepted and decode to themselves. Then
  frames of different data differ, and decoding and encoding again, which every writer does
  before it fills the blocks of a card, changes nothing.
\<close>

locale card_codec =
  fixes encode :: "'d \<Rightarrow> 'w" and accepts :: "'w \<Rightarrow> bool" and decode :: "'w \<Rightarrow> 'd option" and valid :: "'d \<Rightarrow> bool"
  assumes accepts_encode: "valid d \<Longrightarrow> accepts (encode d)"
    and decode_encode: "valid d \<Longrightarrow> decode (encode d) = Some d"
begin

lemma encode_inj: "valid d \<Longrightarrow> valid d' \<Longrightarrow> encode d = encode d' \<longleftrightarrow> d = d'"
  using decode_encode by (metis option.inject)

lemma redecode: "valid d \<Longrightarrow> map_option encode (decode (encode d)) = Some (encode d)"
  by (simp add: decode_encode)

end

definition em4100_encoded :: "u8 list \<Rightarrow> u64" where
  "em4100_encoded d = (case protocol_em4100_encoder_start (protocol_em4100_alloc \<lparr>em_data := d\<rparr>) of
     Some (_, p) \<Rightarrow> encoded_data p | None \<Rightarrow> 0)"

lemma em4100_encoded_eq: "length d = 5 \<Longrightarrow> em4100_encoded d = bits_val (em_frame d)"
  by (simp add: em4100_encoded_def encoder_start)

interpretation em4100: card_codec em4100_encoded "\<lambda>w. em4100_can_be_decoded w 8 w = Some True"
  "\<lambda>w. em4100_decode w 8 (replicate 5 0) EM4100_DECODED_DATA_SIZE" "\<lambda>d. length d = 5"
  by unfold_locales (simp_all add: em4100_encoded_eq frame_accepted frame_header decode_frame)

section \<open>The blocks of a card\<close>

lemma write_data_eq:
  assumes "length (em_data p) = 5"
  shows "protocol_em4100_write_data p request =
    (let p' = p \<lparr>encoded_data := bits_val (em_frame (em_data p)), encoded_data_index := 0, encoded_polarity := True\<rparr> in
     case write_type request of
       LFRFIDWriteTypeT5577 \<Rightarrow> do {
         b \<leftarrow> wr (block (t5577 request)) 0 (LFRFID_T5577_MODULATION_MANCHESTER OR protocol_em4100_get_t5577_bitrate p OR shl 2 LFRFID_T5577_MAXBLOCK_SHIFT);
         b \<leftarrow> wr b 1 (ucast (shr (bits_val (em_frame (em_data p)) :: u64) 32));
         b \<leftarrow> wr b 2 (ucast (bits_val (em_frame (em_data p)) :: u64));
         Some (True, p', request \<lparr>t5577 := (t5577 request) \<lparr>block := b, blocks_to_write := 3\<rparr>\<rparr>)
       }
     | LFRFIDWriteTypeEM4305 \<Rightarrow> do {
         w \<leftarrow> wr (word (em4305 request)) 4 (EM4x05_MODULATION_MANCHESTER OR protocol_em4100_get_em4305_bitrate p OR shl 6 EM4x05_MAXBLOCK_SHIFT);
         w \<leftarrow> wr w 5 (ucast (bits_val (rev (em_frame (em_data p))) :: u64));
         w \<leftarrow> wr w 6 (ucast (shr (bits_val (rev (em_frame (em_data p))) :: u64) 32));
         Some (True, p', request \<lparr>em4305 := (em4305 request) \<lparr>word := w, em4305_mask := 0x70\<rparr>\<rparr>)
       }
     | LFRFIDWriteTypeMax \<Rightarrow> Some (False, p', request))"
proof -
  have rev_loop: "for_loop 0 n (\<lambda>i r. shl r 1 OR (shr w i AND 1)) 0 = bits_val (map (bit w) [0..<n])" for w :: u64 and n
    by (induction n) (simp_all add: for_loop_Suc bits_val_snoc)
  have "map (bit (bits_val fs :: u64)) [0..<64] = rev fs" if "length fs = 64" for fs
    using that by (intro nth_equalityI) (simp_all add: frame_bit rev_nth)
  then have rev: "for_loop 0 64 (\<lambda>i r. shl r 1 OR (shr (bits_val (em_frame d)) i AND 1)) 0 = (bits_val (rev (em_frame d)) :: u64)" for d
    unfolding rev_loop by simp
  have "protocol_em4100_get_t5577_bitrate (p \<lparr>encoded_data := w, encoded_data_index := 0, encoded_polarity := True\<rparr>) = protocol_em4100_get_t5577_bitrate p"
    "protocol_em4100_get_em4305_bitrate (p \<lparr>encoded_data := w, encoded_data_index := 0, encoded_polarity := True\<rparr>) = protocol_em4100_get_em4305_bitrate p" for w
    by (simp_all add: protocol_em4100_get_t5577_bitrate_def protocol_em4100_get_em4305_bitrate_def)
  then show ?thesis
    using assms encoder_start [of p] decode_frame [of "em_data p" "em_data p"] encoder_start [of "p \<lparr>encoded_data := w, encoded_data_index := 0, encoded_polarity := True\<rparr>" for w]
    unfolding protocol_em4100_write_data_def Let_def by (simp add: rev [simplified] cong: LFRFIDWriteType.case_cong)
qed

section \<open>Properties\<close>

text \<open>
  C35. Emulation and reading agree: let a card with five bytes of data and one of the three bit rates be
  emulated, and let a reader of the same rate listen. After three repetitions of the frame (384 half bits)
  the reader has reported a card, and the data it holds are those of the emulated card, whatever the reader's
  registers held before.
\<close>

theorem em4100_emulate_read:
  assumes "length (em_data tag) = EM4100_DECODED_DATA_SIZE" and "length (em_data reader) = EM4100_DECODED_DATA_SIZE"
    and "clock_per_bit tag \<in> {16, 32, 64}" and "clock_per_bit reader = clock_per_bit tag"
  shows "\<exists>tag' reader' results reader''.
    protocol_em4100_encoder_start tag = Some (True, tag') \<and> protocol_em4100_decoder_start reader = Some reader' \<and>
    feed_pulses reader' (antenna (yields 384 tag')) = Some (results, reader'') \<and>
    True \<in> set results \<and> em_data reader'' = em_data tag"
  using assms by (intro emulated_card_read) (simp_all add: EM4100_DECODED_DATA_SIZE_def)

theorem em4100_emulate_read_witness:
  "\<exists>tag' reader' results reader''.
    protocol_em4100_encoder_start (protocol_em4100_32_alloc \<lparr>em_data := [0x1A, 0x00, 0x2B, 0xC3, 0xD4]\<rparr>) = Some (True, tag') \<and>
    protocol_em4100_decoder_start protocol_em4100_32_alloc = Some reader' \<and>
    feed_pulses reader' (antenna (yields 384 tag')) = Some (results, reader'') \<and>
    True \<in> set results \<and> em_data reader'' = [0x1A, 0x00, 0x2B, 0xC3, 0xD4]"
  using em4100_emulate_read [of "protocol_em4100_32_alloc \<lparr>em_data := [0x1A, 0x00, 0x2B, 0xC3, 0xD4]\<rparr>" protocol_em4100_32_alloc]
  by (simp add: protocol_em4100_32_alloc_def em4100_zeroed_def EM4100_DECODED_DATA_SIZE_def)

text \<open>
  C36. Transmission errors are noticed: a frame that the reader accepts is rejected after any one of its 64
  bits is inverted, in the header, the data, the parities or the stop bit.
\<close>

theorem em4100_detects_single_bit_errors:
  assumes "em4100_can_be_decoded w EM4100_ENCODED_DATA_SIZE e = Some True" and "k < 64"
  shows "em4100_can_be_decoded (w XOR shl 1 k) EM4100_ENCODED_DATA_SIZE e' = Some False"
  using assms flip_rejected unfolding EM4100_ENCODED_DATA_SIZE_def by blast

theorem em4100_detects_single_bit_errors_witness:
  "em4100_can_be_decoded (em4100_encoded [0x1A, 0x00, 0x2B, 0xC3, 0xD4] XOR shl 1 17) EM4100_ENCODED_DATA_SIZE EM_ENCODED_DATA_HEADER = Some False"
  using em4100_detects_single_bit_errors [OF em4100.accepts_encode [unfolded EM4100_ENCODED_DATA_SIZE_def [symmetric]], of "[0x1A, 0x00, 0x2B, 0xC3, 0xD4]" 17]
  by simp

text \<open>
  C37. Writing a card: the data survive the re-decoding, and the memory that is written holds the frame of the
  data, from the top of blocks 1 and 2 of a T5577 and from the bottom of words 5 and 6 of an EM4305; for any other
  chip nothing is written and the result is false.
\<close>

theorem em4100_write_data_correct:
  assumes "length (em_data p) = EM4100_DECODED_DATA_SIZE" and "length (block (t5577 request)) = 8" and "length (word (em4305 request)) = 16"
  shows "\<exists>ok p' request'. protocol_em4100_write_data p request = Some (ok, p', request') \<and>
    em_data p' = em_data p \<and> encoded_data p' = em4100_encoded (em_data p) \<and>
    (case write_type request of
       LFRFIDWriteTypeT5577 \<Rightarrow> ok \<and> em4305 request' = em4305 request \<and> blocks_to_write (t5577 request') = 3 \<and>
         shl (ucast (block (t5577 request') ! 1)) 32 OR ucast (block (t5577 request') ! 2) = em4100_encoded (em_data p)
     | LFRFIDWriteTypeEM4305 \<Rightarrow> ok \<and> t5577 request' = t5577 request \<and> em4305_mask (em4305 request') = 0x70 \<and>
         (\<forall>k<64. bit (em4100_encoded (em_data p)) (63 - k) =
            (if k < 32 then bit (word (em4305 request') ! 5) k else bit (word (em4305 request') ! 6) (k - 32)))
     | LFRFIDWriteTypeMax \<Rightarrow> \<not> ok \<and> request' = request)"
proof -
  let ?fs = "em_frame (em_data p)"
  have d: "length (em_data p) = 5" using assms(1) by (simp add: EM4100_DECODED_DATA_SIZE_def)
  note w = write_data_eq [OF d, of request] and enc = em4100_encoded_eq [OF d]
  have halves: "shl (ucast (ucast (shr x 32) :: u32)) 32 OR ucast (ucast x :: u32) = x" for x :: u64
    by (rule bit_word_eqI) (auto simp: bit_simps)
  have revbits: "bit (bits_val ?fs :: u64) (63 - k) = bit (bits_val (rev ?fs) :: u64) k" if "k < 64" for k
    using that by (simp add: frame_bit rev_nth)
  show ?thesis
  proof (cases "write_type request")
    case LFRFIDWriteTypeT5577
    then show ?thesis using w assms(2) enc halves by (auto simp: wr_def)
  next
    case LFRFIDWriteTypeEM4305
    then show ?thesis using w assms(3) enc revbits by (auto simp: wr_def bit_simps)
  next
    case LFRFIDWriteTypeMax
    then show ?thesis using w enc by auto
  qed
qed

theorem em4100_write_data_correct_witness:
  "\<exists>p' request'. protocol_em4100_write_data (protocol_em4100_alloc \<lparr>em_data := [0x1A, 0x00, 0x2B, 0xC3, 0xD4]\<rparr>)
     \<lparr>write_type = LFRFIDWriteTypeT5577, t5577 = \<lparr>block = replicate 8 0, blocks_to_write = 0, t5577_mask = 0\<rparr>,
      em4305 = \<lparr>word = replicate 16 0, em4305_mask = 0\<rparr>\<rparr> = Some (True, p', request') \<and>
   shl (ucast (block (t5577 request') ! 1)) 32 OR ucast (block (t5577 request') ! 2) = em4100_encoded [0x1A, 0x00, 0x2B, 0xC3, 0xD4]"
  using em4100_write_data_correct [of "protocol_em4100_alloc \<lparr>em_data := [0x1A, 0x00, 0x2B, 0xC3, 0xD4]\<rparr>"
    "\<lparr>write_type = LFRFIDWriteTypeT5577, t5577 = \<lparr>block = replicate 8 0, blocks_to_write = 0, t5577_mask = 0\<rparr>,
      em4305 = \<lparr>word = replicate 16 0, em4305_mask = 0\<rparr>\<rparr>"]
  by (auto simp: EM4100_DECODED_DATA_SIZE_def)

end
