(* ===== verification/Infrared.thy ===== *)
theory Infrared
  imports Prelude
begin

text \<open>
  The common infrared decoder and encoder,
  \<^verbatim>\<open>lib/infrared/encoder_decoder/common/infrared_common_decoder.c\<close> and \<^verbatim>\<open>infrared_common_encoder.c\<close>,
  on which the protocols are built. A protocol is a table of timings and functions; the functions
  get the data part of the table as an argument instead of through a pointer in the decoder. The
  two loops whose end depends on the protocol run on fuel: six samples are in the buffer at most.
  \<open>None\<close> stands for a failed \<^verbatim>\<open>furi_check\<close>, an access outside an array, or the end of the fuel.
\<close>

section \<open>Messages and protocols\<close>

datatype InfraredProtocol =
    InfraredProtocolUnknown | InfraredProtocolNEC | InfraredProtocolNECext | InfraredProtocolNEC42
  | InfraredProtocolNEC42ext | InfraredProtocolSamsung32 | InfraredProtocolRC6 | InfraredProtocolRC5
  | InfraredProtocolRC5X | InfraredProtocolSIRC | InfraredProtocolSIRC15 | InfraredProtocolSIRC20
  | InfraredProtocolKaseikyo | InfraredProtocolRCA | InfraredProtocolPioneer | InfraredProtocolMAX

record InfraredMessage =
  protocol :: InfraredProtocol
  address :: u32
  command :: u32
  repeat :: bool

datatype InfraredStatus = InfraredStatusError | InfraredStatusOk | InfraredStatusDone | InfraredStatusReady

text \<open>Durations are in microseconds; the \<^verbatim>\<open>uint32_t\<close> and \<^verbatim>\<open>uint16_t\<close> values are kept as numbers.\<close>

record InfraredTimings =
  min_split_time :: nat
  silence_time :: nat
  preamble_mark :: nat
  preamble_space :: nat
  bit1_mark :: nat
  bit1_space :: nat
  bit0_mark :: nat
  bit0_space :: nat
  preamble_tolerance :: nat
  bit_tolerance :: nat

record InfraredProtocolData =
  timings :: InfraredTimings
  manchester_start_from_space :: bool
  databit_len :: "nat list"

text \<open>
  \<^verbatim>\<open>MATCH_TIMING\<close> with an unsigned tolerance wraps around below zero; with the preamble's tolerance,
  which is a \<^verbatim>\<open>float\<close>, it does not.
\<close>

definition MATCH_TIMING :: "nat \<Rightarrow> nat \<Rightarrow> nat \<Rightarrow> bool" where
  "MATCH_TIMING x v delta \<longleftrightarrow> x < (v + delta) mod 2 ^ 32 \<and> x > (v + 2 ^ 32 - delta) mod 2 ^ 32"

definition MATCH_TIMING_float :: "nat \<Rightarrow> nat \<Rightarrow> nat \<Rightarrow> bool" where
  "MATCH_TIMING_float x v delta \<longleftrightarrow> int x < int v + int delta \<and> int x > int v - int delta"

section \<open>Decoder\<close>

datatype InfraredCommonStateDecoder =
    InfraredCommonDecoderStateWaitPreamble
  | InfraredCommonDecoderStateDecode
  | InfraredCommonDecoderStateProcessRepeat

text \<open>
  The last field stands for the structure that \<^verbatim>\<open>context\<close> points to: the toggle bit of the last message,
  which the decoders of RC5 and RC6 keep.
\<close>

record InfraredCommonDecoder =
  d_timings :: "nat list"
  d_message :: InfraredMessage
  d_state :: InfraredCommonStateDecoder
  d_timings_cnt :: nat
  d_switch_detect :: bool
  d_level :: bool
  d_databit_cnt :: nat
  d_data :: "u8 list"
  d_toggle :: bool

text \<open>The functions of a protocol; those for repeated messages may be absent.\<close>

type_synonym infrared_decode_fn =
  "InfraredProtocolData \<Rightarrow> InfraredCommonDecoder \<Rightarrow> bool \<Rightarrow> nat \<Rightarrow> (InfraredStatus \<times> InfraredCommonDecoder) option"
type_synonym infrared_decode_repeat_fn =
  "InfraredProtocolData \<Rightarrow> InfraredCommonDecoder \<Rightarrow> (InfraredStatus \<times> InfraredCommonDecoder) option"
type_synonym infrared_interpret_fn =
  "InfraredCommonDecoder \<Rightarrow> (bool \<times> InfraredCommonDecoder) option"

datatype InfraredCommonStateEncoder =
    InfraredCommonEncoderStateSilence
  | InfraredCommonEncoderStatePreamble
  | InfraredCommonEncoderStateEncode
  | InfraredCommonEncoderStateEncodeRepeat

record InfraredCommonEncoder =
  e_state :: InfraredCommonStateEncoder
  e_switch_detect :: bool
  bits_to_encode :: nat
  bits_encoded :: nat
  timings_sum :: nat
  timings_encoded :: nat
  e_data :: "u8 list"

text \<open>A status with the duration and the level that were written through the pointers.\<close>

type_synonym infrared_encode_fn =
  "InfraredProtocolData \<Rightarrow> InfraredCommonEncoder \<Rightarrow> (InfraredStatus \<times> nat \<times> bool \<times> InfraredCommonEncoder) option"

record InfraredCommonProtocolSpec = InfraredProtocolData +
  decode :: infrared_decode_fn
  decode_repeat :: "infrared_decode_repeat_fn option"
  interpret_bits :: infrared_interpret_fn
  encode :: infrared_encode_fn
  encode_repeat :: "infrared_encode_fn option"

definition spec_data :: "InfraredCommonProtocolSpec \<Rightarrow> InfraredProtocolData" where
  "spec_data spec = InfraredProtocolData.truncate spec"

definition consume_samples :: "nat list \<Rightarrow> nat \<Rightarrow> nat \<Rightarrow> (nat list \<times> nat) option" where
  "consume_samples array len shift = do {
     furi_check (len \<ge> shift \<and> len \<le> length array);
     let len = len - shift;
     Some (for_loop 0 len (\<lambda>i array. array[i := array ! (i + shift)]) array, len)
   }"

definition decoder_consume :: "InfraredCommonDecoder \<Rightarrow> nat \<Rightarrow> InfraredCommonDecoder option" where
  "decoder_consume decoder shift = do {
     (ts, cnt) \<leftarrow> consume_samples (d_timings decoder) (d_timings_cnt decoder) shift;
     Some (decoder \<lparr>d_timings := ts, d_timings_cnt := cnt\<rparr>)
   }"

definition accumulate_lsb :: "InfraredCommonDecoder \<Rightarrow> bool \<Rightarrow> InfraredCommonDecoder option" where
  "accumulate_lsb decoder b = do {
     let index = d_databit_cnt decoder div 8;
     let shift = d_databit_cnt decoder mod 8;
     data \<leftarrow> (if shift = 0 then wr (d_data decoder) index 0 else Some (d_data decoder));
     old \<leftarrow> rd data index;
     data \<leftarrow> (if b then wr data index (old OR shl 0x1 shift) else Some data);
     Some (decoder \<lparr>d_data := data, d_databit_cnt := (d_databit_cnt decoder + 1) mod 2 ^ 16\<rparr>)
   }"

text \<open>The search for a preamble, two samples at a time.\<close>

definition preamble_step :: "InfraredProtocolData \<Rightarrow> InfraredCommonDecoder \<Rightarrow> (bool \<times> InfraredCommonDecoder) option" where
  "preamble_step pd decoder = do {
     t0 \<leftarrow> rd (d_timings decoder) 0;
     t1 \<leftarrow> rd (d_timings decoder) 1;
     let tolerance = preamble_tolerance (timings pd);
     let result = (MATCH_TIMING_float t0 (preamble_mark (timings pd)) tolerance \<and>
                   MATCH_TIMING_float t1 (preamble_space (timings pd)) tolerance);
     decoder \<leftarrow> decoder_consume decoder 2;
     Some (result, decoder)
   }"

fun preamble_loop :: "nat \<Rightarrow> InfraredProtocolData \<Rightarrow> InfraredCommonDecoder \<Rightarrow> (bool \<times> InfraredCommonDecoder) option" where
  "preamble_loop 0 pd decoder = None"
| "preamble_loop (Suc fuel) pd decoder =
     (if d_timings_cnt decoder \<ge> 2 then do {
        (result, decoder) \<leftarrow> preamble_step pd decoder;
        if result then Some (True, decoder) else preamble_loop fuel pd decoder
      } else Some (False, decoder))"

definition INFRARED_SAMPLES :: nat where "INFRARED_SAMPLES = 6"

definition infrared_check_preamble ::
  "InfraredProtocolData \<Rightarrow> InfraredCommonDecoder \<Rightarrow> (bool \<times> InfraredCommonDecoder) option" where
  "infrared_check_preamble pd decoder =
     (let start_level = ((of_bool (d_level decoder) + d_timings_cnt decoder + 1) mod 2 = 1)
      in if d_timings_cnt decoder = 0 then Some (False, decoder)
         else do {
           decoder \<leftarrow> (if \<not> start_level then decoder_consume decoder 1 else Some decoder);
           if preamble_mark (timings pd) = 0 then Some (True, decoder)
           else preamble_loop (Suc INFRARED_SAMPLES) pd decoder
         })"

text \<open>The lengths of a protocol: the entries of \<^verbatim>\<open>databit_len\<close> up to the first zero.\<close>

definition databit_lens :: "InfraredProtocolData \<Rightarrow> nat list" where
  "databit_lens pd = takeWhile (\<lambda>n. n \<noteq> 0) (databit_len pd)"

text \<open>One turn of the loop over the samples; \<open>Inl\<close> leaves the loop.\<close>

definition decode_bits_step ::
  "InfraredCommonProtocolSpec \<Rightarrow> InfraredCommonDecoder \<Rightarrow> (InfraredStatus \<times> InfraredCommonDecoder + InfraredCommonDecoder) option" where
  "decode_bits_step spec decoder = do {
     let ts = timings spec;
     let level = ((of_bool (d_level decoder) + d_timings_cnt decoder + 1) mod 2 = 1);
     timing \<leftarrow> rd (d_timings decoder) 0;
     if min_split_time ts \<noteq> 0 \<and> \<not> level \<and> timing > min_split_time ts \<and>
        d_databit_cnt decoder \<in> set (databit_lens (spec_data spec)) then Some (Inl (InfraredStatusReady, decoder))
     else if min_split_time ts \<noteq> 0 \<and> \<not> level \<and> \<not> timing > min_split_time ts \<and>
        databit_len spec ! 0 = d_databit_cnt decoder then Some (Inl (InfraredStatusError, decoder))
     else do {
       (status, decoder) \<leftarrow> decode spec (spec_data spec) decoder level timing;
       furi_check (d_databit_cnt decoder \<le> databit_len spec ! 0);
       furi_check (status = InfraredStatusError \<or> status = InfraredStatusOk);
       if status = InfraredStatusError then Some (Inl (status, decoder))
       else do {
         decoder \<leftarrow> decoder_consume decoder 1;
         if level \<and> databit_len spec ! 0 = d_databit_cnt decoder \<and> min_split_time ts = 0
         then Some (Inl (InfraredStatusReady, decoder)) else Some (Inr decoder)
       }
     }
   }"

fun decode_bits_loop ::
  "nat \<Rightarrow> InfraredCommonProtocolSpec \<Rightarrow> InfraredCommonDecoder \<Rightarrow> (InfraredStatus \<times> InfraredCommonDecoder) option" where
  "decode_bits_loop 0 spec decoder = None"
| "decode_bits_loop (Suc fuel) spec decoder =
     (if d_timings_cnt decoder \<noteq> 0 then do {
        r \<leftarrow> decode_bits_step spec decoder;
        (case r of Inl r \<Rightarrow> Some r | Inr decoder \<Rightarrow> decode_bits_loop fuel spec decoder)
      } else Some (InfraredStatusOk, decoder))"

definition infrared_common_decode_bits ::
  "InfraredCommonProtocolSpec \<Rightarrow> InfraredCommonDecoder \<Rightarrow> (InfraredStatus \<times> InfraredCommonDecoder) option" where
  "infrared_common_decode_bits spec decoder = decode_bits_loop (Suc INFRARED_SAMPLES) spec decoder"

definition infrared_common_decode_pdwm :: infrared_decode_fn where
  "infrared_common_decode_pdwm pd decoder level timing =
     (let ts = timings pd;
          analyze_timing = (level \<noteq> (bit1_mark ts = bit0_mark ts));
          bit1 = (if level then bit1_mark ts else bit1_space ts);
          bit0 = (if level then bit0_mark ts else bit0_space ts);
          no_info_timing = (if bit1_mark ts = bit0_mark ts then bit1_mark ts else bit1_space ts)
      in if analyze_timing then
           if MATCH_TIMING timing bit1 (bit_tolerance ts) then do {
             decoder \<leftarrow> accumulate_lsb decoder True; Some (InfraredStatusOk, decoder) }
           else if MATCH_TIMING timing bit0 (bit_tolerance ts) then do {
             decoder \<leftarrow> accumulate_lsb decoder False; Some (InfraredStatusOk, decoder) }
           else Some (InfraredStatusError, decoder)
         else if \<not> MATCH_TIMING timing no_info_timing (bit_tolerance ts) then Some (InfraredStatusError, decoder)
         else Some (InfraredStatusOk, decoder))"

definition infrared_common_decode_manchester :: infrared_decode_fn where
  "infrared_common_decode_manchester pd decoder level timing =
     (let bit = bit1_mark (timings pd);
          tolerance = bit_tolerance (timings pd);
          single_timing = MATCH_TIMING timing bit tolerance;
          double_timing = MATCH_TIMING timing (2 * bit) tolerance
      in if \<not> single_timing \<and> \<not> double_timing then Some (InfraredStatusError, decoder)
         else do {
           decoder \<leftarrow> (if manchester_start_from_space pd \<and> d_databit_cnt decoder = 0
                       then accumulate_lsb (decoder \<lparr>d_switch_detect := True\<rparr>) False else Some decoder);
           if \<not> d_switch_detect decoder \<and> double_timing then Some (InfraredStatusError, decoder)
           else do {
             let decoder = (if \<not> d_switch_detect decoder then decoder \<lparr>d_switch_detect := True\<rparr>
                            else if single_timing then decoder \<lparr>d_switch_detect := False\<rparr> else decoder);
             if d_switch_detect decoder then
               if databit_len pd ! 0 = d_databit_cnt decoder then Some (InfraredStatusError, decoder)
               else do { decoder \<leftarrow> accumulate_lsb decoder level; Some (InfraredStatusOk, decoder) }
             else Some (InfraredStatusOk, decoder)
           }
         })"

text \<open>A message is returned as a pointer into the decoder: the first component says whether it is set.\<close>

definition infrared_common_decoder_check_ready ::
  "InfraredCommonProtocolSpec \<Rightarrow> InfraredCommonDecoder \<Rightarrow> (bool \<times> InfraredCommonDecoder) option" where
  "infrared_common_decoder_check_ready spec decoder =
     (let found_length = (d_databit_cnt decoder \<in> set (databit_lens (spec_data spec)))
      in if found_length then do {
           (ok, decoder) \<leftarrow> interpret_bits spec decoder;
           if ok then
             Some (True, decoder \<lparr>d_databit_cnt := 0,
               d_state := (if decode_repeat spec \<noteq> None then InfraredCommonDecoderStateProcessRepeat
                           else InfraredCommonDecoderStateWaitPreamble)\<rparr>)
           else Some (False, decoder)
         } else Some (False, decoder))"

definition infrared_common_decoder_reset_state ::
  "InfraredCommonProtocolSpec \<Rightarrow> InfraredCommonDecoder \<Rightarrow> InfraredCommonDecoder option" where
  "infrared_common_decoder_reset_state spec decoder =
     (let decoder = decoder \<lparr>d_state := InfraredCommonDecoderStateWaitPreamble, d_databit_cnt := 0,
            d_switch_detect := False, d_message := (d_message decoder) \<lparr>protocol := InfraredProtocolUnknown\<rparr>\<rparr>
      in if preamble_mark (timings spec) = 0 \<and> d_timings_cnt decoder > 0 then decoder_consume decoder 1 else Some decoder)"

definition infrared_common_decoder_reset ::
  "InfraredCommonProtocolSpec \<Rightarrow> InfraredCommonDecoder \<Rightarrow> InfraredCommonDecoder option" where
  "infrared_common_decoder_reset spec decoder = do {
     decoder \<leftarrow> infrared_common_decoder_reset_state spec decoder;
     Some (decoder \<lparr>d_timings_cnt := 0\<rparr>)
   }"

text \<open>
  The loop of \<^verbatim>\<open>infrared_common_decode\<close>: \<open>Inr\<close> is \<^verbatim>\<open>continue\<close>. The pointer that a turn has set is kept
  while the loop goes on.
\<close>

definition common_decode_step ::
  "InfraredCommonProtocolSpec \<Rightarrow> bool \<times> InfraredCommonDecoder \<Rightarrow>
   (bool \<times> InfraredCommonDecoder + bool \<times> InfraredCommonDecoder) option" where
  "common_decode_step spec = (\<lambda>(msg, decoder).
     case d_state decoder of
       InfraredCommonDecoderStateWaitPreamble \<Rightarrow> do {
         (found, decoder) \<leftarrow> infrared_check_preamble (spec_data spec) decoder;
         if found then Some (Inr (msg, decoder \<lparr>d_state := InfraredCommonDecoderStateDecode, d_databit_cnt := 0, d_switch_detect := False\<rparr>))
         else Some (Inl (msg, decoder))
       }
     | InfraredCommonDecoderStateDecode \<Rightarrow> do {
         (status, decoder) \<leftarrow> infrared_common_decode_bits spec decoder;
         if status = InfraredStatusReady then do {
           (msg, decoder) \<leftarrow> infrared_common_decoder_check_ready spec decoder;
           if msg then Some (Inr (msg, decoder))
           else if databit_len spec ! 0 = d_databit_cnt decoder
           then Some (Inl (msg, decoder \<lparr>d_state := InfraredCommonDecoderStateWaitPreamble\<rparr>))
           else Some (Inl (msg, decoder))
         } else if status = InfraredStatusError then do {
           decoder \<leftarrow> infrared_common_decoder_reset_state spec decoder;
           Some (Inr (msg, decoder))
         } else Some (Inl (msg, decoder))
       }
     | InfraredCommonDecoderStateProcessRepeat \<Rightarrow> do {
         dr \<leftarrow> decode_repeat spec;
         (status, decoder) \<leftarrow> dr (spec_data spec) decoder;
         if status = InfraredStatusError then do {
           decoder \<leftarrow> infrared_common_decoder_reset_state spec decoder;
           Some (Inr (msg, decoder))
         } else if status = InfraredStatusReady then
           Some (Inl (True, decoder \<lparr>d_message := (d_message decoder) \<lparr>repeat := True\<rparr>\<rparr>))
         else Some (Inl (msg, decoder))
       })"

fun common_decode_loop ::
  "nat \<Rightarrow> InfraredCommonProtocolSpec \<Rightarrow> bool \<times> InfraredCommonDecoder \<Rightarrow> (bool \<times> InfraredCommonDecoder) option" where
  "common_decode_loop 0 spec st = None"
| "common_decode_loop (Suc fuel) spec st = do {
     r \<leftarrow> common_decode_step spec st;
     (case r of Inl st \<Rightarrow> Some st | Inr st \<Rightarrow> common_decode_loop fuel spec st)
   }"

text \<open>
  Three turns for every two of the six samples, and two more, are enough: see the theory \<open>InfraredTotal\<close>.
\<close>

definition common_decode_fuel :: nat where "common_decode_fuel = 15"

definition infrared_common_decode ::
  "InfraredCommonProtocolSpec \<Rightarrow> InfraredCommonDecoder \<Rightarrow> bool \<Rightarrow> nat \<Rightarrow> (InfraredMessage option \<times> InfraredCommonDecoder) option" where
  "infrared_common_decode spec decoder level duration = do {
     decoder \<leftarrow> (if d_level decoder = level then infrared_common_decoder_reset spec decoder else Some decoder);
     let decoder = decoder \<lparr>d_level := level\<rparr>;
     ts \<leftarrow> wr (d_timings decoder) (d_timings_cnt decoder) duration;
     let decoder = decoder \<lparr>d_timings := ts, d_timings_cnt := d_timings_cnt decoder + 1\<rparr>;
     furi_check (d_timings_cnt decoder \<le> length (d_timings decoder));
     (msg, decoder) \<leftarrow> common_decode_loop common_decode_fuel spec (False, decoder);
     Some (if msg then Some (d_message decoder) else None, decoder)
   }"

text \<open>Allocation clears the memory. The structure's padding leaves two bytes behind the data bits.\<close>

definition infrared_data_bytes :: "InfraredProtocolData \<Rightarrow> nat" where
  "infrared_data_bytes pd = databit_len pd ! 0 div 8 + of_bool (databit_len pd ! 0 mod 8 \<noteq> 0) + 2"

definition infrared_common_decoder_alloc :: "InfraredCommonProtocolSpec \<Rightarrow> InfraredCommonDecoder" where
  "infrared_common_decoder_alloc spec =
     \<lparr>d_timings = replicate INFRARED_SAMPLES 0,
      d_message = \<lparr>protocol = InfraredProtocolNEC, address = 0, command = 0, repeat = False\<rparr>,
      d_state = InfraredCommonDecoderStateWaitPreamble, d_timings_cnt = 0, d_switch_detect = False, d_level = True,
      d_databit_cnt = 0, d_data = replicate (infrared_data_bytes (spec_data spec)) 0, d_toggle = False\<rparr>"

section \<open>Encoder\<close>

definition encoder_logic_value :: "InfraredCommonEncoder \<Rightarrow> bool option" where
  "encoder_logic_value encoder = do {
     let index = bits_encoded encoder div 8;
     let shift = bits_encoded encoder mod 8;
     byte \<leftarrow> rd (e_data encoder) index;
     Some (byte AND shl 0x01 shift \<noteq> 0)
   }"

definition infrared_common_encode_bits :: "infrared_encode_fn \<Rightarrow> infrared_encode_fn" where
  "infrared_common_encode_bits encode_fn pd encoder = do {
     (status, duration, level, encoder) \<leftarrow> encode_fn pd encoder;
     furi_check (status = InfraredStatusOk);
     let encoder = encoder \<lparr>timings_encoded := (timings_encoded encoder + 1) mod 2 ^ 32,
                            timings_sum := (timings_sum encoder + duration) mod 2 ^ 32\<rparr>;
     Some (if bits_encoded encoder = bits_to_encode encoder \<and> level then InfraredStatusDone else status,
           duration, level, encoder)
   }"

definition infrared_common_encode_manchester :: infrared_encode_fn where
  "infrared_common_encode_manchester pd encoder = do {
     logic_value \<leftarrow> encoder_logic_value encoder;
     let even_timing = (timings_encoded encoder mod 2 = 0);
     let level = (even_timing \<noteq> logic_value);
     let encoder = (if even_timing then encoder \<lparr>bits_encoded := (bits_encoded encoder + 1) mod 2 ^ 8\<rparr>
                    else if level \<and> bits_encoded encoder + 1 = bits_to_encode encoder
                    then encoder \<lparr>bits_encoded := (bits_encoded encoder + 1) mod 2 ^ 8\<rparr> else encoder);
     Some (InfraredStatusOk, bit1_mark (timings pd), level, encoder)
   }"

definition infrared_common_encode_pdwm :: infrared_encode_fn where
  "infrared_common_encode_pdwm pd encoder = do {
     logic_value \<leftarrow> encoder_logic_value encoder;
     let ts = timings pd;
     let pwm = (bit1_space ts = bit0_space ts);
     if timings_encoded encoder mod 2 = 1 then
       Some (InfraredStatusOk, if logic_value then bit1_mark ts else bit0_mark ts, True,
             if pwm then encoder \<lparr>bits_encoded := (bits_encoded encoder + 1) mod 2 ^ 8\<rparr> else encoder)
     else
       Some (InfraredStatusOk, if logic_value then bit1_space ts else bit0_space ts, False,
             if \<not> pwm then encoder \<lparr>bits_encoded := (bits_encoded encoder + 1) mod 2 ^ 8\<rparr> else encoder)
   }"

text \<open>The state \<open>Encode\<close>, which the state \<open>Preamble\<close> falls through to when there is no preamble.\<close>

definition common_encode_payload :: "InfraredCommonProtocolSpec \<Rightarrow> InfraredCommonEncoder \<Rightarrow>
   (InfraredStatus \<times> nat \<times> bool \<times> InfraredCommonEncoder) option" where
  "common_encode_payload spec encoder = do {
     (status, duration, level, encoder) \<leftarrow> infrared_common_encode_bits (encode spec) (spec_data spec) encoder;
     let encoder = (if status = InfraredStatusDone then
         if encode_repeat spec \<noteq> None then encoder \<lparr>e_state := InfraredCommonEncoderStateEncodeRepeat\<rparr>
         else encoder \<lparr>timings_encoded := 0, timings_sum := 0, bits_encoded := 0, e_switch_detect := False,
                       e_state := InfraredCommonEncoderStateSilence\<rparr>
       else encoder);
     Some (status, duration, level, encoder)
   }"

definition infrared_common_encode :: "InfraredCommonProtocolSpec \<Rightarrow> InfraredCommonEncoder \<Rightarrow>
   (InfraredStatus \<times> nat \<times> bool \<times> InfraredCommonEncoder) option" where
  "infrared_common_encode spec encoder = (case e_state encoder of
       InfraredCommonEncoderStateSilence \<Rightarrow>
         Some (InfraredStatusOk, silence_time (timings spec), False,
           encoder \<lparr>e_state := InfraredCommonEncoderStatePreamble,
                    timings_encoded := (timings_encoded encoder + 1) mod 2 ^ 32, timings_sum := 0\<rparr>)
     | InfraredCommonEncoderStatePreamble \<Rightarrow>
         if preamble_mark (timings spec) \<noteq> 0 then
           (let (duration, level, st) =
              (if timings_encoded encoder = 1
               then (preamble_mark (timings spec), True, InfraredCommonEncoderStatePreamble)
               else (preamble_space (timings spec), False, InfraredCommonEncoderStateEncode))
            in Some (InfraredStatusOk, duration, level,
                 encoder \<lparr>e_state := st, timings_encoded := (timings_encoded encoder + 1) mod 2 ^ 32,
                          timings_sum := (timings_sum encoder + duration) mod 2 ^ 32\<rparr>))
         else common_encode_payload spec (encoder \<lparr>e_state := InfraredCommonEncoderStateEncode\<rparr>)
     | InfraredCommonEncoderStateEncode \<Rightarrow> common_encode_payload spec encoder
     | InfraredCommonEncoderStateEncodeRepeat \<Rightarrow> do { er \<leftarrow> encode_repeat spec; er (spec_data spec) encoder })"

definition infrared_common_encoder_alloc :: "InfraredCommonProtocolSpec \<Rightarrow> InfraredCommonEncoder" where
  "infrared_common_encoder_alloc spec =
     \<lparr>e_state = InfraredCommonEncoderStateSilence, e_switch_detect = False, bits_to_encode = 0, bits_encoded = 0,
      timings_sum = 0, timings_encoded = 0, e_data = replicate (infrared_data_bytes (spec_data spec)) 0\<rparr>"

definition infrared_common_encoder_reset ::
  "InfraredCommonProtocolSpec \<Rightarrow> InfraredCommonEncoder \<Rightarrow> InfraredCommonEncoder option" where
  "infrared_common_encoder_reset spec encoder = do {
     let encoder = encoder \<lparr>timings_encoded := 0, timings_sum := 0, bits_encoded := 0,
                            e_state := InfraredCommonEncoderStateSilence, e_switch_detect := False\<rparr>;
     let max_databit_len = fold max (databit_len spec) 0;
     let bytes_to_clear = max_databit_len div 8 + of_bool (max_databit_len mod 8 \<noteq> 0);
     data \<leftarrow> memset (e_data encoder) 0 bytes_to_clear;
     Some (encoder \<lparr>e_data := data\<rparr>)
   }"

lemma spec_data_simps [simp]:
  "timings (spec_data spec) = timings spec" "databit_len (spec_data spec) = databit_len spec"
  "manchester_start_from_space (spec_data spec) = manchester_start_from_space spec"
  by (simp_all add: spec_data_def InfraredProtocolData.truncate_def)

end
