(* ===== verification/InfraredProtocols.thy ===== *)
theory InfraredProtocols
  imports InfraredPulse
begin

text \<open>
  The pulse-distance protocols of \<^verbatim>\<open>lib/infrared/encoder_decoder\<close>: NEC with its three variants,
  Samsung32, RCA, Kaseikyo and Pioneer. Each has its table, the function that reads a message from the
  received bits, the encoder's reset that lays a message out as bits, and the two functions for repeated
  messages where the protocol has them. The byte arrays are read and written as little-endian words,
  as the code does through pointer casts.
\<close>

section \<open>Words in a byte array\<close>

definition ld_u16 :: "u8 list \<Rightarrow> nat \<Rightarrow> u16 option" where
  "ld_u16 ds off = do {
     b0 \<leftarrow> rd ds off; b1 \<leftarrow> rd ds (off + 1);
     Some (ucast b0 OR shl (ucast b1) 8)
   }"

definition ld_u32 :: "u8 list \<Rightarrow> nat \<Rightarrow> u32 option" where
  "ld_u32 ds off = do {
     b0 \<leftarrow> rd ds off; b1 \<leftarrow> rd ds (off + 1); b2 \<leftarrow> rd ds (off + 2); b3 \<leftarrow> rd ds (off + 3);
     Some (ucast b0 OR shl (ucast b1) 8 OR shl (ucast b2) 16 OR shl (ucast b3) 24)
   }"

definition st_u32 :: "u8 list \<Rightarrow> nat \<Rightarrow> u32 \<Rightarrow> u8 list option" where
  "st_u32 ds off w = do {
     ds \<leftarrow> wr ds off (ucast w);
     ds \<leftarrow> wr ds (off + 1) (ucast (shr w 8));
     ds \<leftarrow> wr ds (off + 2) (ucast (shr w 16));
     wr ds (off + 3) (ucast (shr w 24))
   }"

definition or_u32 :: "u8 list \<Rightarrow> nat \<Rightarrow> u32 \<Rightarrow> u8 list option" where
  "or_u32 ds off w = do { v \<leftarrow> ld_u32 ds off; st_u32 ds off (v OR w) }"

definition set_message :: "InfraredCommonDecoder \<Rightarrow> InfraredProtocol \<Rightarrow> u32 \<Rightarrow> u32 \<Rightarrow> InfraredCommonDecoder" where
  "set_message decoder p a c = decoder \<lparr>d_message := \<lparr>protocol = p, address = a, command = c, repeat = False\<rparr>\<rparr>"

text \<open>The frequency is in Hertz; the \<^verbatim>\<open>duty_cycle\<close>, 0.33 everywhere, is in percent.\<close>

record InfraredProtocolVariant =
  variant_name :: string
  address_length :: nat
  command_length :: nat
  frequency :: nat
  duty_cycle :: nat
  repeat_count :: nat

section \<open>NEC\<close>

definition INFRARED_NEC_REPEAT_PERIOD :: nat where "INFRARED_NEC_REPEAT_PERIOD = 110000"
definition INFRARED_NEC_REPEAT_PAUSE_MIN :: nat where "INFRARED_NEC_REPEAT_PAUSE_MIN = 4000"
definition INFRARED_NEC_REPEAT_PAUSE_MAX :: nat where "INFRARED_NEC_REPEAT_PAUSE_MAX = 150000"
definition INFRARED_NEC_REPEAT_MARK :: nat where "INFRARED_NEC_REPEAT_MARK = 9000"
definition INFRARED_NEC_REPEAT_SPACE :: nat where "INFRARED_NEC_REPEAT_SPACE = 2250"
definition INFRARED_NEC_BIT1_MARK :: nat where "INFRARED_NEC_BIT1_MARK = 560"

definition infrared_decoder_nec_interpret :: infrared_interpret_fn where
  "infrared_decoder_nec_interpret decoder =
     (if d_databit_cnt decoder = 32 then do {
        address \<leftarrow> rd (d_data decoder) 0;
        address_inverse \<leftarrow> rd (d_data decoder) 1;
        command \<leftarrow> rd (d_data decoder) 2;
        command_inverse \<leftarrow> rd (d_data decoder) 3;
        if command = NOT command_inverse \<and> address = NOT address_inverse
        then Some (True, set_message decoder InfraredProtocolNEC (ucast address) (ucast command))
        else Some (True, set_message decoder InfraredProtocolNECext
               (ucast address OR shl (ucast address_inverse) 8) (ucast command OR shl (ucast command_inverse) 8))
      } else if d_databit_cnt decoder = 42 then do {
        data1 \<leftarrow> ld_u32 (d_data decoder) 0;
        data2 \<leftarrow> ld_u16 (d_data decoder) 4;
        let address = (ucast (data1 AND 0x1FFF) :: u16);
        let address_inverse = (ucast (shr data1 13 AND 0x1FFF) :: u16);
        let command = (ucast (shr data1 26 AND 0x3F) OR shl (data2 AND 0x3) 6 :: u16);
        let command_inverse = shr data2 2 AND 0xFF;
        if address = (NOT address_inverse AND 0x1FFF) \<and> command = (NOT command_inverse AND 0xFF)
        then Some (True, set_message decoder InfraredProtocolNEC42 (ucast address) (ucast command))
        else Some (True, set_message decoder InfraredProtocolNEC42ext
               (ucast address OR shl (ucast address_inverse) 13) (ucast command OR shl (ucast command_inverse) 8))
      } else Some (False, decoder))"

definition infrared_decoder_nec_decode_repeat :: infrared_decode_repeat_fn where
  "infrared_decoder_nec_decode_repeat pd decoder =
     (if d_timings_cnt decoder < 4 then Some (InfraredStatusOk, decoder)
      else do {
        t0 \<leftarrow> rd (d_timings decoder) 0; t1 \<leftarrow> rd (d_timings decoder) 1;
        t2 \<leftarrow> rd (d_timings decoder) 2; t3 \<leftarrow> rd (d_timings decoder) 3;
        if t0 > INFRARED_NEC_REPEAT_PAUSE_MIN \<and> t0 < INFRARED_NEC_REPEAT_PAUSE_MAX \<and>
           MATCH_TIMING_float t1 INFRARED_NEC_REPEAT_MARK (preamble_tolerance (timings pd)) \<and>
           MATCH_TIMING_float t2 INFRARED_NEC_REPEAT_SPACE (preamble_tolerance (timings pd)) \<and>
           MATCH_TIMING t3 (bit1_mark (timings pd)) (bit_tolerance (timings pd))
        then Some (InfraredStatusReady, decoder \<lparr>d_timings_cnt := 0\<rparr>)
        else Some (InfraredStatusError, decoder)
      })"

definition nec_repeat_timings :: "nat list" where
  "nec_repeat_timings =
     [INFRARED_NEC_REPEAT_PERIOD - INFRARED_NEC_REPEAT_MARK - INFRARED_NEC_REPEAT_SPACE - INFRARED_NEC_BIT1_MARK,
      INFRARED_NEC_REPEAT_MARK, INFRARED_NEC_REPEAT_SPACE, INFRARED_NEC_BIT1_MARK]"

definition infrared_encoder_nec_encode_repeat :: infrared_encode_fn where
  "infrared_encoder_nec_encode_repeat pd encoder = do {
     let timings_encoded_up_to_repeat = 1 + 2 + bits_to_encode encoder * 2 + 1;
     furi_check (timings_encoded encoder \<ge> timings_encoded_up_to_repeat);
     let repeat_cnt = timings_encoded encoder - timings_encoded_up_to_repeat;
     let duration = (if repeat_cnt > 0 then nec_repeat_timings ! (repeat_cnt mod length nec_repeat_timings)
                     else (INFRARED_NEC_REPEAT_PERIOD + 2 ^ 32 - timings_sum encoder) mod 2 ^ 32);
     let level = (repeat_cnt mod 2 = 1);
     let encoder = encoder \<lparr>timings_encoded := (timings_encoded encoder + 1) mod 2 ^ 32\<rparr>;
     let done = ((repeat_cnt + 1) mod length nec_repeat_timings = 0);
     Some (if done then InfraredStatusDone else InfraredStatusOk, duration, level, encoder)
   }"

definition infrared_protocol_nec :: InfraredCommonProtocolSpec where
  "infrared_protocol_nec =
     \<lparr>timings = \<lparr>min_split_time = INFRARED_NEC_REPEAT_PAUSE_MIN, silence_time = INFRARED_NEC_REPEAT_PERIOD,
        preamble_mark = 9000, preamble_space = 4500, bit1_mark = INFRARED_NEC_BIT1_MARK, bit1_space = 1690,
        bit0_mark = 560, bit0_space = 560, preamble_tolerance = 200, bit_tolerance = 120\<rparr>,
      manchester_start_from_space = False, databit_len = [42, 32, 0, 0],
      decode = infrared_common_decode_pdwm, decode_repeat = Some infrared_decoder_nec_decode_repeat,
      interpret_bits = infrared_decoder_nec_interpret, encode = infrared_common_encode_pdwm,
      encode_repeat = Some infrared_encoder_nec_encode_repeat\<rparr>"

definition infrared_encoder_nec_reset :: "InfraredCommonEncoder \<Rightarrow> InfraredMessage \<Rightarrow> InfraredCommonEncoder option" where
  "infrared_encoder_nec_reset encoder message = do {
     encoder \<leftarrow> infrared_common_encoder_reset infrared_protocol_nec encoder;
     let data = e_data encoder;
     case protocol message of
       InfraredProtocolNEC \<Rightarrow> do {
         let address = (ucast (address message) :: u8);
         let address_inverse = NOT address;
         let command = (ucast (command message) :: u8);
         let command_inverse = NOT command;
         data \<leftarrow> st_u32 data 0 (ucast address);
         data \<leftarrow> or_u32 data 0 (shl (ucast address_inverse) 8);
         data \<leftarrow> or_u32 data 0 (shl (ucast command) 16);
         data \<leftarrow> or_u32 data 0 (shl (ucast command_inverse) 24);
         Some (encoder \<lparr>e_data := data, bits_to_encode := 32\<rparr>)
       }
     | InfraredProtocolNECext \<Rightarrow> do {
         data \<leftarrow> st_u32 data 0 (ucast (ucast (address message) :: u16));
         data \<leftarrow> or_u32 data 0 (shl (command message AND 0xFFFF) 16);
         Some (encoder \<lparr>e_data := data, bits_to_encode := 32\<rparr>)
       }
     | InfraredProtocolNEC42 \<Rightarrow> do {
         data \<leftarrow> st_u32 data 0 (address message AND 0x1FFF);
         data \<leftarrow> or_u32 data 0 (shl (NOT (address message) AND 0x1FFF) 13);
         data \<leftarrow> or_u32 data 0 (shl (command message AND 0x3F) 26);
         data \<leftarrow> st_u32 data 4 (shr (command message AND 0xC0) 6);
         data \<leftarrow> or_u32 data 4 (shl (NOT (command message) AND 0xFF) 2);
         Some (encoder \<lparr>e_data := data, bits_to_encode := 42\<rparr>)
       }
     | InfraredProtocolNEC42ext \<Rightarrow> do {
         data \<leftarrow> st_u32 data 0 (address message AND 0x3FFFFFF);
         data \<leftarrow> or_u32 data 0 (shl (command message AND 0x3F) 26);
         data \<leftarrow> st_u32 data 4 (shr (command message AND 0xFFC0) 6);
         Some (encoder \<lparr>e_data := data, bits_to_encode := 42\<rparr>)
       }
     | _ \<Rightarrow> None
   }"

definition INFRARED_COMMON_CARRIER_FREQUENCY :: nat where "INFRARED_COMMON_CARRIER_FREQUENCY = 38000"
definition INFRARED_COMMON_DUTY_CYCLE :: nat where "INFRARED_COMMON_DUTY_CYCLE = 33"

definition common_variant :: "string \<Rightarrow> nat \<Rightarrow> nat \<Rightarrow> InfraredProtocolVariant" where
  "common_variant name al cl = \<lparr>variant_name = name, address_length = al, command_length = cl,
     frequency = INFRARED_COMMON_CARRIER_FREQUENCY, duty_cycle = INFRARED_COMMON_DUTY_CYCLE, repeat_count = 1\<rparr>"

definition infrared_protocol_nec_get_variant :: "InfraredProtocol \<Rightarrow> InfraredProtocolVariant option" where
  "infrared_protocol_nec_get_variant p =
     (if p = InfraredProtocolNEC then Some (common_variant ''NEC'' 8 8)
      else if p = InfraredProtocolNECext then Some (common_variant ''NECext'' 16 16)
      else if p = InfraredProtocolNEC42 then Some (common_variant ''NEC42'' 13 8)
      else if p = InfraredProtocolNEC42ext then Some (common_variant ''NEC42ext'' 26 16)
      else None)"

section \<open>Samsung32\<close>

definition INFRARED_SAMSUNG_REPEAT_PAUSE_MIN :: nat where "INFRARED_SAMSUNG_REPEAT_PAUSE_MIN = 30000"
definition INFRARED_SAMSUNG_REPEAT_PAUSE_MAX :: nat where "INFRARED_SAMSUNG_REPEAT_PAUSE_MAX = 140000"
definition INFRARED_SAMSUNG_REPEAT_PAUSE1 :: nat where "INFRARED_SAMSUNG_REPEAT_PAUSE1 = 46000"
definition INFRARED_SAMSUNG_REPEAT_PAUSE2 :: nat where "INFRARED_SAMSUNG_REPEAT_PAUSE2 = 97000"
definition INFRARED_SAMSUNG_REPEAT_MARK :: nat where "INFRARED_SAMSUNG_REPEAT_MARK = 4500"
definition INFRARED_SAMSUNG_REPEAT_SPACE :: nat where "INFRARED_SAMSUNG_REPEAT_SPACE = 4500"

definition infrared_decoder_samsung32_interpret :: infrared_interpret_fn where
  "infrared_decoder_samsung32_interpret decoder = do {
     address1 \<leftarrow> rd (d_data decoder) 0;
     address2 \<leftarrow> rd (d_data decoder) 1;
     command \<leftarrow> rd (d_data decoder) 2;
     command_inverse \<leftarrow> rd (d_data decoder) 3;
     if address1 = address2 \<and> command = NOT command_inverse
     then Some (True, set_message decoder InfraredProtocolSamsung32 (ucast address1) (ucast command))
     else Some (False, decoder)
   }"

definition infrared_decoder_samsung32_decode_repeat :: infrared_decode_repeat_fn where
  "infrared_decoder_samsung32_decode_repeat pd decoder =
     (if d_timings_cnt decoder < 6 then Some (InfraredStatusOk, decoder)
      else do {
        t0 \<leftarrow> rd (d_timings decoder) 0; t1 \<leftarrow> rd (d_timings decoder) 1; t2 \<leftarrow> rd (d_timings decoder) 2;
        t3 \<leftarrow> rd (d_timings decoder) 3; t4 \<leftarrow> rd (d_timings decoder) 4; t5 \<leftarrow> rd (d_timings decoder) 5;
        if t0 > INFRARED_SAMSUNG_REPEAT_PAUSE_MIN \<and> t0 < INFRARED_SAMSUNG_REPEAT_PAUSE_MAX \<and>
           MATCH_TIMING_float t1 INFRARED_SAMSUNG_REPEAT_MARK (preamble_tolerance (timings pd)) \<and>
           MATCH_TIMING_float t2 INFRARED_SAMSUNG_REPEAT_SPACE (preamble_tolerance (timings pd)) \<and>
           MATCH_TIMING t3 (bit1_mark (timings pd)) (bit_tolerance (timings pd)) \<and>
           MATCH_TIMING t4 (bit1_space (timings pd)) (bit_tolerance (timings pd)) \<and>
           MATCH_TIMING t5 (bit1_mark (timings pd)) (bit_tolerance (timings pd))
        then Some (InfraredStatusReady, decoder \<lparr>d_timings_cnt := 0\<rparr>)
        else Some (InfraredStatusError, decoder)
      })"

definition samsung_repeat_timings :: "nat list" where
  "samsung_repeat_timings =
     [INFRARED_SAMSUNG_REPEAT_PAUSE2, INFRARED_SAMSUNG_REPEAT_MARK, INFRARED_SAMSUNG_REPEAT_SPACE, 550, 1650, 550]"

definition infrared_encoder_samsung32_encode_repeat :: infrared_encode_fn where
  "infrared_encoder_samsung32_encode_repeat pd encoder = do {
     let timings_encoded_up_to_repeat = 1 + 2 + bits_encoded encoder * 2 + 1;
     furi_check (timings_encoded encoder \<ge> timings_encoded_up_to_repeat);
     let repeat_cnt = timings_encoded encoder - timings_encoded_up_to_repeat;
     let duration = (if repeat_cnt > 0 then samsung_repeat_timings ! (repeat_cnt mod length samsung_repeat_timings)
                     else INFRARED_SAMSUNG_REPEAT_PAUSE1);
     let level = (repeat_cnt mod 2 = 1);
     let encoder = encoder \<lparr>timings_encoded := (timings_encoded encoder + 1) mod 2 ^ 32\<rparr>;
     let done = ((repeat_cnt + 1) mod length samsung_repeat_timings = 0);
     Some (if done then InfraredStatusDone else InfraredStatusOk, duration, level, encoder)
   }"

definition infrared_protocol_samsung32 :: InfraredCommonProtocolSpec where
  "infrared_protocol_samsung32 =
     \<lparr>timings = \<lparr>min_split_time = 5000, silence_time = 145000,
        preamble_mark = 4500, preamble_space = 4500, bit1_mark = 550, bit1_space = 1650,
        bit0_mark = 550, bit0_space = 550, preamble_tolerance = 200, bit_tolerance = 120\<rparr>,
      manchester_start_from_space = False, databit_len = [32, 0, 0, 0],
      decode = infrared_common_decode_pdwm, decode_repeat = Some infrared_decoder_samsung32_decode_repeat,
      interpret_bits = infrared_decoder_samsung32_interpret, encode = infrared_common_encode_pdwm,
      encode_repeat = Some infrared_encoder_samsung32_encode_repeat\<rparr>"

definition infrared_encoder_samsung32_reset :: "InfraredCommonEncoder \<Rightarrow> InfraredMessage \<Rightarrow> InfraredCommonEncoder option" where
  "infrared_encoder_samsung32_reset encoder message = do {
     encoder \<leftarrow> infrared_common_encoder_reset infrared_protocol_samsung32 encoder;
     let address = (ucast (address message) :: u8);
     let command = (ucast (command message) :: u8);
     let command_inverse = NOT command;
     data \<leftarrow> or_u32 (e_data encoder) 0 (ucast address);
     data \<leftarrow> or_u32 data 0 (shl (ucast address) 8);
     data \<leftarrow> or_u32 data 0 (shl (ucast command) 16);
     data \<leftarrow> or_u32 data 0 (shl (ucast command_inverse) 24);
     Some (encoder \<lparr>e_data := data, bits_to_encode := databit_len infrared_protocol_samsung32 ! 0\<rparr>)
   }"

definition infrared_protocol_samsung32_get_variant :: "InfraredProtocol \<Rightarrow> InfraredProtocolVariant option" where
  "infrared_protocol_samsung32_get_variant p =
     (if p = InfraredProtocolSamsung32 then Some (common_variant ''Samsung32'' 8 8) else None)"

section \<open>RCA\<close>

definition infrared_decoder_rca_interpret :: infrared_interpret_fn where
  "infrared_decoder_rca_interpret decoder = do {
     data \<leftarrow> ld_u32 (d_data decoder) 0;
     let address = (ucast (data AND 0xF) :: u8);
     let command = (ucast (shr data 4 AND 0xFF) :: u8);
     let address_inverse = (ucast (shr data 12 AND 0xF) :: u8);
     let command_inverse = (ucast (shr data 16 AND 0xFF) :: u8);
     let inverse_address_inverse = NOT address_inverse AND 0xF;
     let inverse_command_inverse = NOT command_inverse;
     if command = inverse_command_inverse \<and> address = inverse_address_inverse
     then Some (True, set_message decoder InfraredProtocolRCA (ucast address) (ucast command))
     else Some (False, decoder)
   }"

definition infrared_protocol_rca :: InfraredCommonProtocolSpec where
  "infrared_protocol_rca =
     \<lparr>timings = \<lparr>min_split_time = 4000, silence_time = 8000,
        preamble_mark = 4000, preamble_space = 4000, bit1_mark = 500, bit1_space = 2000,
        bit0_mark = 500, bit0_space = 1000, preamble_tolerance = 200, bit_tolerance = 120\<rparr>,
      manchester_start_from_space = False, databit_len = [24, 0, 0, 0],
      decode = infrared_common_decode_pdwm, decode_repeat = None,
      interpret_bits = infrared_decoder_rca_interpret, encode = infrared_common_encode_pdwm,
      encode_repeat = None\<rparr>"

definition infrared_encoder_rca_reset :: "InfraredCommonEncoder \<Rightarrow> InfraredMessage \<Rightarrow> InfraredCommonEncoder option" where
  "infrared_encoder_rca_reset encoder message = do {
     encoder \<leftarrow> infrared_common_encoder_reset infrared_protocol_rca encoder;
     let address = (ucast (address message) :: u8);
     let address_inverse = NOT address;
     let command = (ucast (command message) :: u8);
     let command_inverse = NOT command;
     data \<leftarrow> st_u32 (e_data encoder) 0 (ucast (address AND 0xF));
     data \<leftarrow> or_u32 data 0 (shl (ucast command) 4);
     data \<leftarrow> or_u32 data 0 (shl (ucast (address_inverse AND 0xF)) 12);
     data \<leftarrow> or_u32 data 0 (shl (ucast command_inverse) 16);
     Some (encoder \<lparr>e_data := data, bits_to_encode := databit_len infrared_protocol_rca ! 0\<rparr>)
   }"

definition infrared_protocol_rca_get_variant :: "InfraredProtocol \<Rightarrow> InfraredProtocolVariant option" where
  "infrared_protocol_rca_get_variant p =
     (if p = InfraredProtocolRCA then Some (common_variant ''RCA'' 4 8) else None)"

section \<open>Kaseikyo\<close>

definition INFRARED_KASEIKYO_UNIT :: nat where "INFRARED_KASEIKYO_UNIT = 432"

definition infrared_decoder_kaseikyo_interpret :: infrared_interpret_fn where
  "infrared_decoder_kaseikyo_interpret decoder = do {
     d0 \<leftarrow> rd (d_data decoder) 0; d1 \<leftarrow> rd (d_data decoder) 1; d2 \<leftarrow> rd (d_data decoder) 2;
     d3 \<leftarrow> rd (d_data decoder) 3; d4 \<leftarrow> rd (d_data decoder) 4; d5 \<leftarrow> rd (d_data decoder) 5;
     let vendor_id = (shl (ucast d1) 8 OR ucast d0 :: u16);
     let vendor_parity = d2 AND 0x0f;
     let genre1 = shr d2 4;
     let genre2 = d3 AND 0x0f;
     let data = (ucast (shr d3 4) OR shl (ucast (d4 AND 0x3f)) 4 :: u16);
     let id' = shr d4 6;
     let parity = d5;
     let vendor_parity_check = d0 XOR d1;
     let vendor_parity_check = (vendor_parity_check AND 0xf) XOR shr vendor_parity_check 4;
     let parity_check = d2 XOR d3 XOR d4;
     if vendor_parity = vendor_parity_check \<and> parity = parity_check
     then Some (True, set_message decoder InfraredProtocolKaseikyo
            (shl (ucast id') 24 OR shl (ucast vendor_id) 8 OR shl (ucast genre1) 4 OR ucast genre2) (ucast data))
     else Some (False, decoder)
   }"

definition infrared_protocol_kaseikyo :: InfraredCommonProtocolSpec where
  "infrared_protocol_kaseikyo =
     \<lparr>timings = \<lparr>min_split_time = 4000, silence_time = 130000,
        preamble_mark = 8 * INFRARED_KASEIKYO_UNIT, preamble_space = 4 * INFRARED_KASEIKYO_UNIT,
        bit1_mark = INFRARED_KASEIKYO_UNIT, bit1_space = 3 * INFRARED_KASEIKYO_UNIT,
        bit0_mark = INFRARED_KASEIKYO_UNIT, bit0_space = INFRARED_KASEIKYO_UNIT,
        preamble_tolerance = 200, bit_tolerance = 120\<rparr>,
      manchester_start_from_space = False, databit_len = [48, 0, 0, 0],
      decode = infrared_common_decode_pdwm, decode_repeat = None,
      interpret_bits = infrared_decoder_kaseikyo_interpret, encode = infrared_common_encode_pdwm,
      encode_repeat = None\<rparr>"

definition infrared_encoder_kaseikyo_reset :: "InfraredCommonEncoder \<Rightarrow> InfraredMessage \<Rightarrow> InfraredCommonEncoder option" where
  "infrared_encoder_kaseikyo_reset encoder message = do {
     encoder \<leftarrow> infrared_common_encoder_reset infrared_protocol_kaseikyo encoder;
     let address = address message;
     let command = (ucast (command message) :: u16);
     let id' = (ucast (shr address 24 AND 3) :: u8);
     let vendor_id = (ucast (shr address 8 AND 0xffff) :: u16);
     let genre1 = (ucast (shr address 4 AND 0xf) :: u8);
     let genre2 = (ucast (address AND 0xf) :: u8);
     let d0 = (ucast (vendor_id AND 0xff) :: u8);
     let d1 = (ucast (shr vendor_id 8) :: u8);
     let vendor_parity = d0 XOR d1;
     let vendor_parity = (vendor_parity AND 0xf) XOR shr vendor_parity 4;
     let d2 = (vendor_parity AND 0xf) OR shl genre1 4;
     let d3 = (genre2 AND 0xf) OR shl (ucast (command AND 0xf)) 4;
     let d4 = shl id' 6 OR ucast (shr command 4);
     data \<leftarrow> wr (e_data encoder) 0 d0;
     data \<leftarrow> wr data 1 d1;
     data \<leftarrow> wr data 2 d2;
     data \<leftarrow> wr data 3 d3;
     data \<leftarrow> wr data 4 d4;
     data \<leftarrow> wr data 5 (d2 XOR d3 XOR d4);
     Some (encoder \<lparr>e_data := data, bits_to_encode := databit_len infrared_protocol_kaseikyo ! 0\<rparr>)
   }"

definition infrared_protocol_kaseikyo_get_variant :: "InfraredProtocol \<Rightarrow> InfraredProtocolVariant option" where
  "infrared_protocol_kaseikyo_get_variant p =
     (if p = InfraredProtocolKaseikyo then Some (common_variant ''Kaseikyo'' 26 10) else None)"

section \<open>Pioneer\<close>

definition INFRARED_PIONEER_SILENCE :: nat where "INFRARED_PIONEER_SILENCE = 26000"

definition infrared_decoder_pioneer_interpret :: infrared_interpret_fn where
  "infrared_decoder_pioneer_interpret decoder =
     (if d_databit_cnt decoder = 33 \<or> d_databit_cnt decoder = 32 then do {
        data \<leftarrow> ld_u32 (d_data decoder) 0;
        let address = (ucast (data AND 0xFF) :: u8);
        let real_address_checksum = NOT address;
        let address_checksum = (ucast (shr data 8 AND 0xFF) :: u8);
        let command = (ucast (shr data 16 AND 0xFF) :: u8);
        let real_command_checksum = NOT command;
        let command_checksum = (ucast (shr data 24 AND 0xFF) :: u8);
        if address_checksum \<noteq> real_address_checksum then Some (False, decoder)
        else if command_checksum \<noteq> real_command_checksum then Some (False, decoder)
        else Some (True, set_message decoder InfraredProtocolPioneer (ucast address) (ucast command))
      } else Some (False, decoder))"

definition infrared_encoder_pioneer_encode_repeat :: infrared_encode_fn where
  "infrared_encoder_pioneer_encode_repeat pd encoder =
     Some (InfraredStatusOk, INFRARED_PIONEER_SILENCE, False,
       encoder \<lparr>timings_sum := 0, timings_encoded := 1, bits_encoded := 0, e_state := InfraredCommonEncoderStatePreamble\<rparr>)"

definition infrared_protocol_pioneer :: InfraredCommonProtocolSpec where
  "infrared_protocol_pioneer =
     \<lparr>timings = \<lparr>min_split_time = INFRARED_PIONEER_SILENCE, silence_time = INFRARED_PIONEER_SILENCE,
        preamble_mark = 8500, preamble_space = 4225, bit1_mark = 500, bit1_space = 1500,
        bit0_mark = 500, bit0_space = 500, preamble_tolerance = 200, bit_tolerance = 120\<rparr>,
      manchester_start_from_space = False, databit_len = [33, 32, 0, 0],
      decode = infrared_common_decode_pdwm, decode_repeat = None,
      interpret_bits = infrared_decoder_pioneer_interpret, encode = infrared_common_encode_pdwm,
      encode_repeat = Some infrared_encoder_pioneer_encode_repeat\<rparr>"

definition infrared_encoder_pioneer_reset :: "InfraredCommonEncoder \<Rightarrow> InfraredMessage \<Rightarrow> InfraredCommonEncoder option" where
  "infrared_encoder_pioneer_reset encoder message = do {
     encoder \<leftarrow> infrared_common_encoder_reset infrared_protocol_pioneer encoder;
     if protocol message = InfraredProtocolPioneer then do {
       data \<leftarrow> wr (e_data encoder) 0 (ucast (address message AND 0xFF));
       data \<leftarrow> wr data 1 (ucast (NOT (address message AND 0xFF)));
       data \<leftarrow> wr data 2 (ucast (command message AND 0xFF));
       data \<leftarrow> wr data 3 (ucast (NOT (command message AND 0xFF)));
       data \<leftarrow> wr data 4 0;
       Some (encoder \<lparr>e_data := data, bits_to_encode := databit_len infrared_protocol_pioneer ! 0\<rparr>)
     } else None
   }"

definition infrared_encoder_pioneer_encode ::
  "InfraredCommonEncoder \<Rightarrow> (InfraredStatus \<times> nat \<times> bool \<times> InfraredCommonEncoder) option" where
  "infrared_encoder_pioneer_encode encoder = do {
     (status, duration, level, encoder) \<leftarrow> infrared_common_encode infrared_protocol_pioneer encoder;
     if status = InfraredStatusOk \<and> bits_encoded encoder = bits_to_encode encoder
     then Some (InfraredStatusDone, duration, level, encoder \<lparr>e_state := InfraredCommonEncoderStateEncodeRepeat\<rparr>)
     else Some (status, duration, level, encoder)
   }"

definition infrared_protocol_pioneer_get_variant :: "InfraredProtocol \<Rightarrow> InfraredProtocolVariant option" where
  "infrared_protocol_pioneer_get_variant p =
     (if p = InfraredProtocolPioneer then
        Some \<lparr>variant_name = ''Pioneer'', address_length = 8, command_length = 8,
              frequency = 40000, duty_cycle = 33, repeat_count = 2\<rparr>
      else None)"

section \<open>Bytes and words\<close>

lemma bit_low_masks [bit_simps]:
  "bit (0x3 :: int) k \<longleftrightarrow> k < 2" "bit (0x3F :: int) k \<longleftrightarrow> k < 6" "bit (0xFF :: int) k \<longleftrightarrow> k < 8"
  "bit (0x1FFF :: int) k \<longleftrightarrow> k < 13" "bit (0xFFFF :: int) k \<longleftrightarrow> k < 16" "bit (0x3FFFFFF :: int) k \<longleftrightarrow> k < 26"
  "bit (0xF :: int) k \<longleftrightarrow> k < 4"
  using bit_mask_iff [of 2 k, where ?'a = int] bit_mask_iff [of 6 k, where ?'a = int] bit_mask_iff [of 8 k, where ?'a = int]
    bit_mask_iff [of 13 k, where ?'a = int] bit_mask_iff [of 16 k, where ?'a = int] bit_mask_iff [of 26 k, where ?'a = int]
    bit_mask_iff [of 4 k, where ?'a = int]
  by (simp_all add: mask_eq_exp_minus_1)

lemma bit_high_masks [bit_simps]:
  "bit (0xC0 :: int) k \<longleftrightarrow> 6 \<le> k \<and> k < 8" "bit (0xFFC0 :: int) k \<longleftrightarrow> 6 \<le> k \<and> k < 16"
proof -
  have e: "push_bit 6 (mask 2) = (0xC0 :: int)" "push_bit 6 (mask 10) = (0xFFC0 :: int)"
    by (simp_all add: mask_eq_exp_minus_1 push_bit_eq_mult)
  show "bit (0xC0 :: int) k \<longleftrightarrow> 6 \<le> k \<and> k < 8" "bit (0xFFC0 :: int) k \<longleftrightarrow> 6 \<le> k \<and> k < 16"
    unfolding e [symmetric] by (auto simp: bit_push_bit_iff bit_mask_iff)
qed

lemma ld_u32_bits:
  assumes "off + 4 \<le> length ds"
  obtains w where "ld_u32 ds off = Some w" "\<And>k. k < 32 \<Longrightarrow> bit w k = data_bit ds (8 * off + k)"
proof -
  let ?w = "ucast (ds ! off) OR shl (ucast (ds ! (off + 1))) 8 OR shl (ucast (ds ! (off + 2))) 16 OR shl (ucast (ds ! (off + 3))) 24 :: u32"
  have "bit ?w k = data_bit ds (8 * off + k)" if k: "k < 32" for k
  proof -
    consider "k < 8" | "8 \<le> k" "k < 16" | "16 \<le> k" "k < 24" | "24 \<le> k" using k by linarith
    then show ?thesis
    proof cases
      case 1
      then have "(8 * off + k) div 8 = off" "(8 * off + k) mod 8 = k" by auto
      then show ?thesis using 1 by (simp add: data_bit_def bit_simps)
    next
      case 2
      then have "(8 * off + k) div 8 = off + 1" "(8 * off + k) mod 8 = k - 8" by (auto simp: div_nat_eqI mod_nat_eqI)
      then show ?thesis using 2 by (auto simp add: data_bit_def bit_simps dest: bit_imp_le_length)
    next
      case 3
      then have "(8 * off + k) div 8 = off + 2" "(8 * off + k) mod 8 = k - 16" by (auto simp: div_nat_eqI mod_nat_eqI)
      then show ?thesis using 3 by (auto simp add: data_bit_def bit_simps dest: bit_imp_le_length)
    next
      case 4
      then have "(8 * off + k) div 8 = off + 3" "(8 * off + k) mod 8 = k - 24" using k by (auto simp: div_nat_eqI mod_nat_eqI)
      then show ?thesis using 4 k by (auto simp add: data_bit_def bit_simps dest: bit_imp_le_length)
    qed
  qed
  moreover have "ld_u32 ds off = Some ?w" using assms by (simp add: ld_u32_def rd_def)
  ultimately show thesis using that by blast
qed

lemma ld_u16_bits:
  assumes "off + 2 \<le> length ds"
  obtains w where "ld_u16 ds off = Some w" "\<And>k. k < 16 \<Longrightarrow> bit w k = data_bit ds (8 * off + k)"
proof -
  let ?w = "ucast (ds ! off) OR shl (ucast (ds ! (off + 1))) 8 :: u16"
  have "bit ?w k = data_bit ds (8 * off + k)" if k: "k < 16" for k
  proof (cases "k < 8")
    case True
    then have "(8 * off + k) div 8 = off" "(8 * off + k) mod 8 = k" by auto
    then show ?thesis using True by (simp add: data_bit_def bit_simps)
  next
    case False
    then have "(8 * off + k) div 8 = off + 1" "(8 * off + k) mod 8 = k - 8" using k by (auto simp: div_nat_eqI mod_nat_eqI)
    then show ?thesis using False k by (auto simp add: data_bit_def bit_simps dest: bit_imp_le_length)
  qed
  moreover have "ld_u16 ds off = Some ?w" using assms by (simp add: ld_u16_def rd_def)
  ultimately show thesis using that by blast
qed

text \<open>Four bytes written as a word, and what is left of a byte array behind them.\<close>

definition put_u32 :: "u8 list \<Rightarrow> nat \<Rightarrow> u32 \<Rightarrow> u8 list" where
  "put_u32 ds off w = ds[off := ucast w, off + 1 := ucast (shr w 8), off + 2 := ucast (shr w 16), off + 3 := ucast (shr w 24)]"

lemma length_put_u32 [simp]: "length (put_u32 ds off w) = length ds"
  by (simp add: put_u32_def)

lemma st_u32_eq: "off + 4 \<le> length ds \<Longrightarrow> st_u32 ds off w = Some (put_u32 ds off w)"
  by (simp add: st_u32_def wr_def put_u32_def)

lemma data_bit_put:
  assumes "off + 4 \<le> length ds"
  shows "data_bit (put_u32 ds off w) i = (if 8 * off \<le> i \<and> i < 8 * off + 32 then bit w (i - 8 * off) else data_bit ds i)"
proof -
  obtain q r where i: "i = 8 * q + r" "r < 8" by (rule split_by_8)
  have qr: "i div 8 = q" "i mod 8 = r" using i by auto
  consider "q < off \<or> off + 4 \<le> q" | "q = off" | "q = off + 1" | "q = off + 2" | "q = off + 3" by linarith
  then show ?thesis
    using assms i qr by cases (auto simp: data_bit_def put_u32_def bit_simps algebra_simps nth_list_update)
qed

lemma put_put: "off + 4 \<le> length ds \<Longrightarrow> put_u32 (put_u32 ds off w) off v = put_u32 ds off v"
  by (rule nth_equalityI) (auto simp: put_u32_def nth_list_update)

lemma or_u32_put:
  assumes "off + 4 \<le> length ds"
  shows "or_u32 (put_u32 ds off w) off v = Some (put_u32 ds off (w OR v))"
proof -
  obtain x where x: "ld_u32 (put_u32 ds off w) off = Some x" "\<And>k. k < 32 \<Longrightarrow> bit x k = data_bit (put_u32 ds off w) (8 * off + k)"
    using ld_u32_bits [of off "put_u32 ds off w"] assms by auto
  have "x = w" using x(2) assms by (intro bit_word_eqI) (simp add: data_bit_put)
  then show ?thesis using x(1) assms by (simp add: or_u32_def st_u32_eq put_put)
qed

section \<open>The protocols as instances\<close>

lemmas protocol_numbers = INFRARED_NEC_REPEAT_PERIOD_def INFRARED_NEC_REPEAT_PAUSE_MIN_def INFRARED_NEC_REPEAT_PAUSE_MAX_def
  INFRARED_NEC_REPEAT_MARK_def INFRARED_NEC_REPEAT_SPACE_def INFRARED_NEC_BIT1_MARK_def INFRARED_KASEIKYO_UNIT_def
  INFRARED_PIONEER_SILENCE_def INFRARED_SAMSUNG_REPEAT_PAUSE_MIN_def INFRARED_SAMSUNG_REPEAT_PAUSE_MAX_def
  INFRARED_SAMSUNG_REPEAT_PAUSE1_def INFRARED_SAMSUNG_REPEAT_PAUSE2_def INFRARED_SAMSUNG_REPEAT_MARK_def
  INFRARED_SAMSUNG_REPEAT_SPACE_def

lemma nec_table [simp]:
  "decode infrared_protocol_nec = infrared_common_decode_pdwm" "encode infrared_protocol_nec = infrared_common_encode_pdwm"
  "decode_repeat infrared_protocol_nec = Some infrared_decoder_nec_decode_repeat"
  "encode_repeat infrared_protocol_nec = Some infrared_encoder_nec_encode_repeat"
  "interpret_bits infrared_protocol_nec = infrared_decoder_nec_interpret" "databit_len infrared_protocol_nec = [42, 32, 0, 0]"
  "databit_lens (spec_data infrared_protocol_nec) = [42, 32]" "infrared_data_bytes (spec_data infrared_protocol_nec) = 8"
  by (simp_all add: infrared_protocol_nec_def databit_lens_def infrared_data_bytes_def spec_data_def InfraredProtocolData.truncate_def)

lemma samsung_table [simp]:
  "decode infrared_protocol_samsung32 = infrared_common_decode_pdwm" "encode infrared_protocol_samsung32 = infrared_common_encode_pdwm"
  "decode_repeat infrared_protocol_samsung32 = Some infrared_decoder_samsung32_decode_repeat"
  "encode_repeat infrared_protocol_samsung32 = Some infrared_encoder_samsung32_encode_repeat"
  "interpret_bits infrared_protocol_samsung32 = infrared_decoder_samsung32_interpret" "databit_len infrared_protocol_samsung32 = [32, 0, 0, 0]"
  "databit_lens (spec_data infrared_protocol_samsung32) = [32]" "infrared_data_bytes (spec_data infrared_protocol_samsung32) = 6"
  by (simp_all add: infrared_protocol_samsung32_def databit_lens_def infrared_data_bytes_def spec_data_def InfraredProtocolData.truncate_def)

lemma rca_table [simp]:
  "decode infrared_protocol_rca = infrared_common_decode_pdwm" "encode infrared_protocol_rca = infrared_common_encode_pdwm"
  "decode_repeat infrared_protocol_rca = None" "encode_repeat infrared_protocol_rca = None"
  "interpret_bits infrared_protocol_rca = infrared_decoder_rca_interpret" "databit_len infrared_protocol_rca = [24, 0, 0, 0]"
  "databit_lens (spec_data infrared_protocol_rca) = [24]" "infrared_data_bytes (spec_data infrared_protocol_rca) = 5"
  by (simp_all add: infrared_protocol_rca_def databit_lens_def infrared_data_bytes_def spec_data_def InfraredProtocolData.truncate_def)

lemma kaseikyo_table [simp]:
  "decode infrared_protocol_kaseikyo = infrared_common_decode_pdwm" "encode infrared_protocol_kaseikyo = infrared_common_encode_pdwm"
  "decode_repeat infrared_protocol_kaseikyo = None" "encode_repeat infrared_protocol_kaseikyo = None"
  "interpret_bits infrared_protocol_kaseikyo = infrared_decoder_kaseikyo_interpret" "databit_len infrared_protocol_kaseikyo = [48, 0, 0, 0]"
  "databit_lens (spec_data infrared_protocol_kaseikyo) = [48]" "infrared_data_bytes (spec_data infrared_protocol_kaseikyo) = 8"
  by (simp_all add: infrared_protocol_kaseikyo_def databit_lens_def infrared_data_bytes_def spec_data_def InfraredProtocolData.truncate_def)

lemma protocols_pulse_distance:
  "pulse_distance (timings infrared_protocol_nec)" "pulse_distance (timings infrared_protocol_samsung32)"
  "pulse_distance (timings infrared_protocol_rca)" "pulse_distance (timings infrared_protocol_kaseikyo)"
  by (simp_all add: pulse_distance_def protocol_numbers infrared_protocol_nec_def infrared_protocol_samsung32_def
      infrared_protocol_rca_def infrared_protocol_kaseikyo_def)

lemma rd_six: "length ts = INFRARED_SAMPLES \<Longrightarrow> k < 6 \<Longrightarrow> rd ts k = Some (ts ! k)"
  by (simp add: rd_def INFRARED_SAMPLES_def)

lemma nec_repeat_decides:
  assumes "4 \<le> d_timings_cnt d" "length (d_timings d) = INFRARED_SAMPLES"
  shows "infrared_decoder_nec_decode_repeat pd d = Some (InfraredStatusError, d) \<or>
    infrared_decoder_nec_decode_repeat pd d = Some (InfraredStatusReady, d \<lparr>d_timings_cnt := 0\<rparr>)"
  using assms by (simp add: infrared_decoder_nec_decode_repeat_def rd_six)

lemma samsung_repeat_decides:
  assumes "6 \<le> d_timings_cnt d" "length (d_timings d) = INFRARED_SAMPLES"
  shows "infrared_decoder_samsung32_decode_repeat pd d = Some (InfraredStatusError, d) \<or>
    infrared_decoder_samsung32_decode_repeat pd d = Some (InfraredStatusReady, d \<lparr>d_timings_cnt := 0\<rparr>)"
  using assms by (simp add: infrared_decoder_samsung32_decode_repeat_def rd_six)

interpretation nec: pulse_distance_protocol infrared_protocol_nec 4
proof
  show "decode_repeat infrared_protocol_nec = Some dr \<Longrightarrow> 4 \<le> d_timings_cnt d \<Longrightarrow> length (d_timings d) = INFRARED_SAMPLES \<Longrightarrow>
    dr (spec_data infrared_protocol_nec) d = Some (InfraredStatusError, d) \<or>
    dr (spec_data infrared_protocol_nec) d = Some (InfraredStatusReady, d \<lparr>d_timings_cnt := 0\<rparr>)" for dr d
    using nec_repeat_decides by auto
qed (use protocols_pulse_distance(1) in \<open>auto simp: INFRARED_SAMPLES_def infrared_decoder_nec_decode_repeat_def\<close>)

interpretation samsung32: pulse_distance_protocol infrared_protocol_samsung32 6
proof
  show "decode_repeat infrared_protocol_samsung32 = Some dr \<Longrightarrow> 6 \<le> d_timings_cnt d \<Longrightarrow> length (d_timings d) = INFRARED_SAMPLES \<Longrightarrow>
    dr (spec_data infrared_protocol_samsung32) d = Some (InfraredStatusError, d) \<or>
    dr (spec_data infrared_protocol_samsung32) d = Some (InfraredStatusReady, d \<lparr>d_timings_cnt := 0\<rparr>)" for dr d
    using samsung_repeat_decides by auto
qed (use protocols_pulse_distance(2) in \<open>auto simp: INFRARED_SAMPLES_def infrared_decoder_samsung32_decode_repeat_def\<close>)

interpretation rca: pulse_distance_protocol infrared_protocol_rca 6
  using protocols_pulse_distance
  by unfold_locales (auto simp: INFRARED_SAMPLES_def)

interpretation kaseikyo: pulse_distance_protocol infrared_protocol_kaseikyo 6
  using protocols_pulse_distance
  by unfold_locales (auto simp: INFRARED_SAMPLES_def)

section \<open>From a message to bits and back\<close>

definition cleared :: "InfraredCommonEncoder \<Rightarrow> nat \<Rightarrow> InfraredCommonEncoder" where
  "cleared e n = e \<lparr>timings_encoded := 0, timings_sum := 0, bits_encoded := 0, e_state := InfraredCommonEncoderStateSilence,
     e_switch_detect := False, e_data := replicate n 0 @ drop n (e_data e)\<rparr>"

lemma common_reset:
  "length (e_data e) = 8 \<Longrightarrow> infrared_common_encoder_reset infrared_protocol_nec e = Some (cleared e 6)"
  "length (e_data e) = 6 \<Longrightarrow> infrared_common_encoder_reset infrared_protocol_samsung32 e = Some (cleared e 4)"
  "length (e_data e) = 5 \<Longrightarrow> infrared_common_encoder_reset infrared_protocol_rca e = Some (cleared e 3)"
  "length (e_data e) = 8 \<Longrightarrow> infrared_common_encoder_reset infrared_protocol_kaseikyo e = Some (cleared e 6)"
  by (simp_all add: infrared_common_encoder_reset_def Let_def memset_def cleared_def)

lemma length_cleared [simp]: "n \<le> length (e_data e) \<Longrightarrow> length (e_data (cleared e n)) = length (e_data e)"
  by (simp add: cleared_def)

definition bits_of :: "u8 list \<Rightarrow> nat \<Rightarrow> bool list" where
  "bits_of ds n = map (data_bit ds) [0..<n]"

lemma cleared_ready:
  "0 < n \<Longrightarrow> n < 255 \<Longrightarrow> n < 8 * length ds \<Longrightarrow> encoder_ready (cleared e k \<lparr>e_data := ds, bits_to_encode := n\<rparr>) (bits_of ds n)"
  by (simp add: encoder_ready_def encodes_bits_def cleared_def bits_of_def)

lemma holds_bits_of:
  assumes "holds_bits spec d (bits_of ds n)"
  shows "d_databit_cnt d = n" "length (d_data d) = infrared_data_bytes (spec_data spec)"
    "i < n \<Longrightarrow> data_bit (d_data d) i = data_bit ds i"
  using assms by (auto simp: holds_bits_def bits_of_def)

text \<open>A byte that was received whole is the byte that was sent.\<close>

lemma received_byte:
  assumes h: "holds_bits spec d (bits_of ds n)" and k: "8 * k + 8 \<le> n" "k < infrared_data_bytes (spec_data spec)"
  shows "rd (d_data d) k = Some (ds ! k)"
proof -
  have "d_data d ! k = ds ! k"
  proof (rule bit_word_eqI)
    fix j assume "j < LENGTH(8)"
    then have "(8 * k + j) div 8 = k" "(8 * k + j) mod 8 = j" "8 * k + j < n" using k by auto
    then show "bit (d_data d ! k) j = bit (ds ! k) j" using holds_bits_of(3) [OF h, of "8 * k + j"] by (simp add: data_bit_def)
  qed
  then show ?thesis using k holds_bits_of(2) [OF h] by (simp add: rd_def)
qed

text \<open>The messages that a protocol can carry.\<close>

definition message_of :: "InfraredProtocol \<Rightarrow> nat \<Rightarrow> nat \<Rightarrow> InfraredMessage \<Rightarrow> bool" where
  "message_of p al cl m \<longleftrightarrow> protocol m = p \<and> unat (address m) < 2 ^ al \<and> unat (command m) < 2 ^ cl \<and> \<not> repeat m"

lemma message_of_bits:
  assumes "message_of p al cl m"
  shows "bit (address m) k \<Longrightarrow> k < al" "bit (command m) k \<Longrightarrow> k < cl"
  using assms unat_less_bitD [of "address m" al k] unat_less_bitD [of "command m" cl k] by (auto simp: message_of_def not_less [symmetric])

lemma samsung32_reset:
  assumes "length (e_data e) = 6"
  defines "W m \<equiv> ucast (ucast (address m) :: u8) OR shl (ucast (ucast (address m) :: u8)) 8 OR shl (ucast (ucast (command m) :: u8)) 16 OR
    shl (ucast (NOT (ucast (command m) :: u8))) 24"
  shows "infrared_encoder_samsung32_reset e m = Some (cleared e 4 \<lparr>e_data := put_u32 (e_data (cleared e 4)) 0 (W m), bits_to_encode := 32\<rparr>)"
proof -
  have l: "length (e_data (cleared e 4)) = 6" using assms(1) by (simp add: cleared_def)
  have "or_u32 (e_data (cleared e 4)) 0 v = Some (put_u32 (e_data (cleared e 4)) 0 v)" for v
    using l by (simp add: or_u32_def ld_u32_def rd_def st_u32_eq cleared_def nth_append)
  then show ?thesis using l assms(1) by (simp add: infrared_encoder_samsung32_reset_def common_reset or_u32_put W_def or.assoc Let_def)
qed

lemma put_nth:
  assumes "4 \<le> length ds"
  shows "put_u32 ds 0 w ! 0 = ucast w" "put_u32 ds 0 w ! 1 = ucast (shr w 8)"
    "put_u32 ds 0 w ! 2 = ucast (shr w 16)" "put_u32 ds 0 w ! 3 = ucast (shr w 24)"
proof -
  have "0 < length ds" "1 < length ds" "2 < length ds" "3 < length ds" using assms by linarith+
  then show "put_u32 ds 0 w ! 0 = ucast w" "put_u32 ds 0 w ! 1 = ucast (shr w 8)"
    "put_u32 ds 0 w ! 2 = ucast (shr w 16)" "put_u32 ds 0 w ! 3 = ucast (shr w 24)"
    by (simp_all add: put_u32_def nth_list_update)
qed

lemma set_message_eq:
  "protocol m = p \<Longrightarrow> address m = a \<Longrightarrow> command m = c \<Longrightarrow> \<not> repeat m \<Longrightarrow> set_message d p a c = d \<lparr>d_message := m\<rparr>"
  by (cases m) (simp add: set_message_def)

lemma ucast_back:
  fixes w :: u32
  assumes "\<And>k. bit w k \<Longrightarrow> k < 8"
  shows "ucast (ucast w :: u8) = w"
  by (rule bit_word_eqI) (use assms in \<open>auto simp: bit_simps\<close>)

lemma samsung32_interpret:
  assumes m: "message_of InfraredProtocolSamsung32 8 8 m" and ds: "4 \<le> length ds"
    and h: "holds_bits infrared_protocol_samsung32 d (bits_of (put_u32 ds 0 W) 32)"
    and W: "W = ucast (ucast (address m) :: u8) OR shl (ucast (ucast (address m) :: u8)) 8 OR shl (ucast (ucast (command m) :: u8)) 16 OR
      shl (ucast (NOT (ucast (command m) :: u8))) 24"
  shows "infrared_decoder_samsung32_interpret d = Some (True, d \<lparr>d_message := m\<rparr>)"
proof -
  have b: "ucast W = (ucast (address m) :: u8)" "ucast (shr W 8) = (ucast (address m) :: u8)"
    "ucast (shr W 16) = (ucast (command m) :: u8)" "ucast (shr W 24) = NOT (ucast (command m) :: u8)"
    unfolding W by (rule bit_word_eqI, auto simp: bit_simps dest: bit_imp_le_length)+
  have "rd (d_data d) 0 = Some (ucast (address m))" "rd (d_data d) 1 = Some (ucast (address m))"
    "rd (d_data d) 2 = Some (ucast (command m))" "rd (d_data d) 3 = Some (NOT (ucast (command m)))"
    using received_byte [OF h, of 0] received_byte [OF h, of 1] received_byte [OF h, of 2] received_byte [OF h, of 3]
      put_nth [of ds W] ds b by simp_all
  moreover have "ucast (ucast (address m) :: u8) = address m" "ucast (ucast (command m) :: u8) = command m"
    using message_of_bits [OF m] by (auto intro!: ucast_back)
  ultimately show ?thesis using m
    by (simp add: infrared_decoder_samsung32_interpret_def message_of_def set_message_eq)
qed

lemma received_u32:
  assumes h: "holds_bits spec d (bits_of ds n)" and len: "4 \<le> infrared_data_bytes (spec_data spec)"
  obtains w where "ld_u32 (d_data d) 0 = Some w" "\<And>k. k < 32 \<Longrightarrow> k < n \<Longrightarrow> bit w k = data_bit ds k"
proof -
  obtain w where w: "ld_u32 (d_data d) 0 = Some w" "\<And>k. k < 32 \<Longrightarrow> bit w k = data_bit (d_data d) (8 * 0 + k)"
    using ld_u32_bits [of 0 "d_data d"] holds_bits_of(2) [OF h] len by auto
  show thesis using w(2) holds_bits_of(3) [OF h] by (intro that [OF w(1)]) simp
qed

lemma received_u16:
  assumes h: "holds_bits spec d (bits_of ds n)" and len: "6 \<le> infrared_data_bytes (spec_data spec)"
  obtains w where "ld_u16 (d_data d) 4 = Some w" "\<And>k. k < 16 \<Longrightarrow> 32 + k < n \<Longrightarrow> bit w k = data_bit ds (32 + k)"
proof -
  obtain w where w: "ld_u16 (d_data d) 4 = Some w" "\<And>k. k < 16 \<Longrightarrow> bit w k = data_bit (d_data d) (8 * 4 + k)"
    using ld_u16_bits [of 4 "d_data d"] holds_bits_of(2) [OF h] len by auto
  show thesis using w(2) holds_bits_of(3) [OF h] by (intro that [OF w(1)]) simp
qed

text \<open>RCA.\<close>

definition rca_word :: "InfraredMessage \<Rightarrow> u32" where
  "rca_word m = ucast ((ucast (address m) :: u8) AND 0xF) OR shl (ucast (ucast (command m) :: u8)) 4 OR
     shl (ucast (NOT (ucast (address m) :: u8) AND 0xF)) 12 OR shl (ucast (NOT (ucast (command m) :: u8))) 16"

lemma rca_reset:
  assumes "length (e_data e) = 5"
  shows "infrared_encoder_rca_reset e m = Some (cleared e 3 \<lparr>e_data := put_u32 (e_data (cleared e 3)) 0 (rca_word m), bits_to_encode := 24\<rparr>)"
proof -
  have l: "length (e_data (cleared e 3)) = 5" using assms(1) by (simp add: cleared_def)
  then show ?thesis using assms(1)
    by (simp add: infrared_encoder_rca_reset_def common_reset st_u32_eq or_u32_put rca_word_def or.assoc Let_def)
qed

lemma rca_interpret:
  assumes m: "message_of InfraredProtocolRCA 4 8 m" and ds: "4 \<le> length ds"
    and h: "holds_bits infrared_protocol_rca d (bits_of (put_u32 ds 0 (rca_word m)) 24)"
  shows "infrared_decoder_rca_interpret d = Some (True, d \<lparr>d_message := m\<rparr>)"
proof -
  obtain w where w: "ld_u32 (d_data d) 0 = Some w" "\<And>k. k < 24 \<Longrightarrow> bit w k = bit (rca_word m) k"
    using received_u32 [OF h] ds by (auto simp: data_bit_put)
  note b = message_of_bits [OF m]
  have f: "ucast (w AND 0xF) = (ucast (address m) :: u8)" "ucast (shr w 4 AND 0xFF) = (ucast (command m) :: u8)"
    "NOT (ucast (shr w 12 AND 0xF)) AND 0xF = (ucast (address m) :: u8)" "NOT (ucast (shr w 16 AND 0xFF)) = (ucast (command m) :: u8)"
    by (rule bit_word_eqI, use w(2) b in \<open>auto simp: bit_simps rca_word_def dest: bit_imp_le_length\<close>)+
  have "ucast (ucast (address m) :: u8) = address m" "ucast (ucast (command m) :: u8) = command m"
    using b by (auto intro!: ucast_back intro: less_trans [of _ 4 8])
  then show ?thesis using m w(1) f by (simp add: infrared_decoder_rca_interpret_def message_of_def set_message_eq Let_def)
qed

text \<open>Kaseikyo: the six bytes of a message.\<close>

definition kaseikyo_bytes :: "InfraredMessage \<Rightarrow> u8 list" where
  "kaseikyo_bytes m =
     (let d0 = ucast (shr (address m) 8); d1 = ucast (shr (address m) 16);
          d2 = ((((d0 XOR d1) AND 0xf) XOR shr (d0 XOR d1) 4) AND 0xf) OR shl (ucast (shr (address m) 4 AND 0xf)) 4;
          d3 = ucast (address m AND 0xf) OR shl (ucast (command m AND 0xf)) 4;
          d4 = shl (ucast (shr (address m) 24 AND 3)) 6 OR ucast (shr (command m) 4)
      in [d0, d1, d2, d3, d4, d2 XOR d3 XOR d4])"

lemma kaseikyo_reset:
  assumes l: "length (e_data e) = 8" and m: "message_of InfraredProtocolKaseikyo 26 10 m"
  shows "\<exists>ds. infrared_encoder_kaseikyo_reset e m = Some (cleared e 6 \<lparr>e_data := kaseikyo_bytes m @ ds, bits_to_encode := 48\<rparr>) \<and> length ds = 2"
proof -
  obtain x y where e: "e_data (cleared e 6) = [0, 0, 0, 0, 0, 0, x, y]"
  proof -
    have "length (drop 6 (e_data e)) = Suc (Suc 0)" using l by simp
    then obtain x y where "drop 6 (e_data e) = [x, y]" by (auto simp only: length_Suc_conv length_0_conv)
    then show ?thesis using that by (simp add: cleared_def eval_nat_numeral)
  qed
  note b = message_of_bits [OF m]
  have "ucast ((ucast (shr (address m) 8 AND 0xffff) :: u16) AND 0xff) = (ucast (shr (address m) 8) :: u8)"
    "ucast (shr (ucast (shr (address m) 8 AND 0xffff) :: u16) 8) = (ucast (shr (address m) 16) :: u8)"
    "ucast (address m AND 0xf) AND 0xf = (ucast (address m AND 0xf) :: u8)"
    "ucast ((ucast (command m) :: u16) AND 0xf) = (ucast (command m AND 0xf) :: u8)"
    "ucast (shr (ucast (command m) :: u16) 4) = (ucast (shr (command m) 4) :: u8)"
    by (rule bit_word_eqI, use b in \<open>auto simp: bit_simps dest: bit_imp_le_length\<close>)+
  then show ?thesis using l e
    by (intro exI [of _ "[x, y]"]) (simp add: infrared_encoder_kaseikyo_reset_def common_reset Let_def wr_def kaseikyo_bytes_def)
qed

lemma kaseikyo_interpret:
  assumes m: "message_of InfraredProtocolKaseikyo 26 10 m"
    and h: "holds_bits infrared_protocol_kaseikyo d (bits_of (kaseikyo_bytes m @ ds) 48)"
  shows "infrared_decoder_kaseikyo_interpret d = Some (True, d \<lparr>d_message := m\<rparr>)"
proof -
  define d0 d1 d2 d3 d4 :: u8 where "d0 = ucast (shr (address m) 8)" and "d1 = ucast (shr (address m) 16)"
    and "d2 = ((((d0 XOR d1) AND 0xf) XOR shr (d0 XOR d1) 4) AND 0xf) OR shl (ucast (shr (address m) 4 AND 0xf)) 4"
    and "d3 = ucast (address m AND 0xf) OR shl (ucast (command m AND 0xf)) 4"
    and "d4 = shl (ucast (shr (address m) 24 AND 3)) 6 OR ucast (shr (command m) 4)"
  note d = this
  have "kaseikyo_bytes m = [d0, d1, d2, d3, d4, d2 XOR d3 XOR d4]" unfolding kaseikyo_bytes_def d by (simp only: Let_def)
  then have r: "rd (d_data d) 0 = Some d0" "rd (d_data d) 1 = Some d1" "rd (d_data d) 2 = Some d2" "rd (d_data d) 3 = Some d3"
    "rd (d_data d) 4 = Some d4" "rd (d_data d) 5 = Some (d2 XOR d3 XOR d4)"
    using received_byte [OF h, of 0] received_byte [OF h, of 1] received_byte [OF h, of 2] received_byte [OF h, of 3]
      received_byte [OF h, of 4] received_byte [OF h, of 5] by simp_all
  note b = message_of_bits [OF m]
  have p: "d2 AND 0x0f = ((d0 XOR d1) AND 0xf) XOR shr (d0 XOR d1) 4"
    by (rule bit_word_eqI) (auto simp: d2_def bit_simps dest: bit_imp_le_length)
  have c: "\<not> bit (command m) k" if "10 \<le> k" for k using b(2) [of k] that by linarith
  have a: "\<not> bit (address m) k" if "26 \<le> k" for k using b(1) [of k] that by linarith
  have bits: "bit d0 k \<longleftrightarrow> k < 8 \<and> bit (address m) (8 + k)" "bit d1 k \<longleftrightarrow> k < 8 \<and> bit (address m) (16 + k)"
    "4 \<le> k \<Longrightarrow> bit d2 k \<longleftrightarrow> k < 8 \<and> bit (address m) k" "k < 4 \<Longrightarrow> bit d3 k \<longleftrightarrow> bit (address m) k"
    "4 \<le> k \<Longrightarrow> bit d3 k \<longleftrightarrow> k < 8 \<and> bit (command m) (k - 4)" "k < 6 \<Longrightarrow> bit d4 k \<longleftrightarrow> bit (command m) (4 + k)"
    "6 \<le> k \<Longrightarrow> bit d4 k \<longleftrightarrow> k < 8 \<and> bit (address m) (18 + k)" for k
    unfolding d using a [of "18 + k"] c [of "4 + k"] by (auto simp: bit_simps dest: bit_imp_le_length)
  have "bit (address m) n \<longleftrightarrow> bit (shl (ucast (shr d4 6)) 24 OR shl (ucast (shl (ucast d1) 8 OR ucast d0 :: u16)) 8 OR
      shl (ucast (shr d2 4)) 4 OR ucast (d3 AND 0x0f) :: u32) n" if "n < 32" for n
  proof -
    consider "n < 4" | "4 \<le> n" "n < 8" | "8 \<le> n" "n < 16" | "16 \<le> n" "n < 24" | "24 \<le> n" "n < 26" | "26 \<le> n" using that by linarith
    then show ?thesis using that a [of n] by cases (auto simp: bit_simps bits)
  qed
  then have "address m = shl (ucast (shr d4 6)) 24 OR shl (ucast (shl (ucast d1) 8 OR ucast d0 :: u16)) 8 OR shl (ucast (shr d2 4)) 4 OR ucast (d3 AND 0x0f)"
    by (intro bit_word_eqI) simp
  moreover have "command m = ucast (ucast (shr d3 4) OR shl (ucast (d4 AND 0x3f)) 4 :: u16)"
  proof (rule bit_word_eqI)
    fix n assume "n < LENGTH(32)"
    consider "n < 4" | "4 \<le> n" "n < 10" | "10 \<le> n" by linarith
    then show "bit (command m) n \<longleftrightarrow> bit (ucast (ucast (shr d3 4) OR shl (ucast (d4 AND 0x3f)) 4 :: u16) :: u32) n"
      using c [of n] by cases (auto simp: bit_simps bits)
  qed
  ultimately show ?thesis using m r p
    by (simp add: infrared_decoder_kaseikyo_interpret_def message_of_def set_message_eq Let_def)
qed

text \<open>NEC: the words of a message, and the messages that are not read as another variant.\<close>

definition nec_word :: "InfraredMessage \<Rightarrow> u32" where
  "nec_word m = ucast (ucast (address m) :: u8) OR shl (ucast (NOT (ucast (address m) :: u8))) 8 OR
     shl (ucast (ucast (command m) :: u8)) 16 OR shl (ucast (NOT (ucast (command m) :: u8))) 24"

definition necext_word :: "InfraredMessage \<Rightarrow> u32" where
  "necext_word m = ucast (ucast (address m) :: u16) OR shl (command m AND 0xFFFF) 16"

definition nec42_word1 :: "InfraredMessage \<Rightarrow> u32" where
  "nec42_word1 m = (address m AND 0x1FFF) OR shl (NOT (address m) AND 0x1FFF) 13 OR shl (command m AND 0x3F) 26"

definition nec42_word2 :: "InfraredMessage \<Rightarrow> u32" where
  "nec42_word2 m = shr (command m AND 0xC0) 6 OR shl (NOT (command m) AND 0xFF) 2"

definition nec42ext_word1 :: "InfraredMessage \<Rightarrow> u32" where
  "nec42ext_word1 m = (address m AND 0x3FFFFFF) OR shl (command m AND 0x3F) 26"

definition nec42ext_word2 :: "InfraredMessage \<Rightarrow> u32" where
  "nec42ext_word2 m = shr (command m AND 0xFFC0) 6"

lemma nec_reset:
  assumes l: "length (e_data e) = 8"
  defines "ds \<equiv> e_data (cleared e 6)"
  shows "protocol m = InfraredProtocolNEC \<Longrightarrow>
      infrared_encoder_nec_reset e m = Some (cleared e 6 \<lparr>e_data := put_u32 ds 0 (nec_word m), bits_to_encode := 32\<rparr>)"
    and "protocol m = InfraredProtocolNECext \<Longrightarrow>
      infrared_encoder_nec_reset e m = Some (cleared e 6 \<lparr>e_data := put_u32 ds 0 (necext_word m), bits_to_encode := 32\<rparr>)"
    and "protocol m = InfraredProtocolNEC42 \<Longrightarrow> infrared_encoder_nec_reset e m =
      Some (cleared e 6 \<lparr>e_data := put_u32 (put_u32 ds 0 (nec42_word1 m)) 4 (nec42_word2 m), bits_to_encode := 42\<rparr>)"
    and "protocol m = InfraredProtocolNEC42ext \<Longrightarrow> infrared_encoder_nec_reset e m =
      Some (cleared e 6 \<lparr>e_data := put_u32 (put_u32 ds 0 (nec42ext_word1 m)) 4 (nec42ext_word2 m), bits_to_encode := 42\<rparr>)"
    and "length ds = 8"
proof -
  show d: "length ds = 8" using l by (simp add: ds_def)
  note defs = infrared_encoder_nec_reset_def common_reset st_u32_eq or_u32_put or.assoc Let_def ds_def [symmetric]
  show "protocol m = InfraredProtocolNEC \<Longrightarrow>
      infrared_encoder_nec_reset e m = Some (cleared e 6 \<lparr>e_data := put_u32 ds 0 (nec_word m), bits_to_encode := 32\<rparr>)"
    using l d by (simp add: defs nec_word_def)
  show "protocol m = InfraredProtocolNECext \<Longrightarrow>
      infrared_encoder_nec_reset e m = Some (cleared e 6 \<lparr>e_data := put_u32 ds 0 (necext_word m), bits_to_encode := 32\<rparr>)"
    using l d by (simp add: defs necext_word_def)
  show "protocol m = InfraredProtocolNEC42 \<Longrightarrow> infrared_encoder_nec_reset e m =
      Some (cleared e 6 \<lparr>e_data := put_u32 (put_u32 ds 0 (nec42_word1 m)) 4 (nec42_word2 m), bits_to_encode := 42\<rparr>)"
    using l d by (simp add: defs nec42_word1_def nec42_word2_def)
  show "protocol m = InfraredProtocolNEC42ext \<Longrightarrow> infrared_encoder_nec_reset e m =
      Some (cleared e 6 \<lparr>e_data := put_u32 (put_u32 ds 0 (nec42ext_word1 m)) 4 (nec42ext_word2 m), bits_to_encode := 42\<rparr>)"
    using l d by (simp add: defs nec42ext_word1_def nec42ext_word2_def)
qed

definition nec_message :: "InfraredMessage \<Rightarrow> bool" where
  "nec_message m \<longleftrightarrow> (case protocol m of
      InfraredProtocolNEC \<Rightarrow> message_of InfraredProtocolNEC 8 8 m
    | InfraredProtocolNECext \<Rightarrow> message_of InfraredProtocolNECext 16 16 m \<and>
        \<not> (command m = (command m AND 0xFF) OR shl (NOT (command m) AND 0xFF) 8 \<and>
           address m = (address m AND 0xFF) OR shl (NOT (address m) AND 0xFF) 8)
    | InfraredProtocolNEC42 \<Rightarrow> message_of InfraredProtocolNEC42 13 8 m
    | InfraredProtocolNEC42ext \<Rightarrow> message_of InfraredProtocolNEC42ext 26 16 m \<and>
        \<not> (command m = (command m AND 0xFF) OR shl (NOT (command m) AND 0xFF) 8 \<and>
           address m = (address m AND 0x1FFF) OR shl (NOT (address m) AND 0x1FFF) 13)
    | _ \<Rightarrow> False)"

lemma message_of_bits_none:
  assumes "message_of p al cl m"
  shows "al \<le> k \<Longrightarrow> \<not> bit (address m) k" "cl \<le> k \<Longrightarrow> \<not> bit (command m) k"
  using message_of_bits [OF assms, of k] by linarith+

lemma nec32_bytes:
  assumes h: "holds_bits infrared_protocol_nec d (bits_of (put_u32 ds 0 W) 32)" and ds: "4 \<le> length ds"
  shows "rd (d_data d) 0 = Some (ucast W)" "rd (d_data d) 1 = Some (ucast (shr W 8))"
    "rd (d_data d) 2 = Some (ucast (shr W 16))" "rd (d_data d) 3 = Some (ucast (shr W 24))" "d_databit_cnt d = 32"
  using received_byte [OF h, of 0] received_byte [OF h, of 1] received_byte [OF h, of 2] received_byte [OF h, of 3]
    put_nth [OF ds, of W] holds_bits_of(1) [OF h] by simp_all

lemma nec_interpret:
  assumes m: "message_of InfraredProtocolNEC 8 8 m" and ds: "4 \<le> length ds"
    and h: "holds_bits infrared_protocol_nec d (bits_of (put_u32 ds 0 (nec_word m)) 32)"
  shows "infrared_decoder_nec_interpret d = Some (True, d \<lparr>d_message := m\<rparr>)"
proof -
  have b: "ucast (nec_word m) = (ucast (address m) :: u8)" "ucast (shr (nec_word m) 8) = NOT (ucast (address m) :: u8)"
    "ucast (shr (nec_word m) 16) = (ucast (command m) :: u8)" "ucast (shr (nec_word m) 24) = NOT (ucast (command m) :: u8)"
    unfolding nec_word_def by (rule bit_word_eqI, auto simp: bit_simps dest: bit_imp_le_length)+
  moreover have "ucast (ucast (address m) :: u8) = address m" "ucast (ucast (command m) :: u8) = command m"
    using message_of_bits [OF m] by (auto intro!: ucast_back)
  ultimately show ?thesis using m nec32_bytes [OF h ds]
    by (simp add: infrared_decoder_nec_interpret_def message_of_def set_message_eq)
qed

text \<open>A number of two halves that are each other's inverse.\<close>

lemma inverse_halves:
  fixes c :: u32
  assumes "\<And>k. n + n \<le> k \<Longrightarrow> \<not> bit c k" "\<And>k. k < n \<Longrightarrow> bit c (n + k) \<longleftrightarrow> \<not> bit c k" "n + n \<le> 32" "M = mask n"
  shows "c = (c AND M) OR shl (NOT c AND M) n"
proof (rule bit_word_eqI)
  fix k assume k: "k < LENGTH(32)"
  consider "k < n" | j where "k = n + j" "j < n" | "n + n \<le> k" by (metis less_diff_conv2 le_add_diff_inverse not_less add_less_cancel_left)
  then show "bit c k \<longleftrightarrow> bit ((c AND M) OR shl (NOT c AND M) n) k"
    using assms k by cases (auto simp: bit_simps)
qed

lemma necext_interpret:
  assumes m: "message_of InfraredProtocolNECext 16 16 m" and ds: "4 \<le> length ds"
    and h: "holds_bits infrared_protocol_nec d (bits_of (put_u32 ds 0 (necext_word m)) 32)"
    and ext: "\<not> (command m = (command m AND 0xFF) OR shl (NOT (command m) AND 0xFF) 8 \<and>
           address m = (address m AND 0xFF) OR shl (NOT (address m) AND 0xFF) 8)"
  shows "infrared_decoder_nec_interpret d = Some (True, d \<lparr>d_message := m\<rparr>)"
proof -
  note z = message_of_bits_none [OF m]
  have b: "ucast (necext_word m) = (ucast (address m) :: u8)" "ucast (shr (necext_word m) 8) = (ucast (shr (address m) 8) :: u8)"
    "ucast (shr (necext_word m) 16) = (ucast (command m) :: u8)" "ucast (shr (necext_word m) 24) = (ucast (shr (command m) 8) :: u8)"
    unfolding necext_word_def by (rule bit_word_eqI, auto simp: bit_simps dest: bit_imp_le_length)+
  have inverse: "x = (x AND 0xFF) OR shl (NOT x AND 0xFF) 8"
    if "ucast x = NOT (ucast (shr x 8) :: u8)" "\<And>k. 16 \<le> k \<Longrightarrow> \<not> bit x k" for x :: u32
  proof (rule inverse_halves)
    show "bit x (8 + k) \<longleftrightarrow> \<not> bit x k" if k: "k < 8" for k
      using arg_cong [OF \<open>ucast x = NOT (ucast (shr x 8) :: u8)\<close>, of "\<lambda>w. bit w k"] k by (simp add: bit_simps add.commute)
  qed (use that in \<open>simp_all add: mask_eq_exp_minus_1\<close>)
  have no: "\<not> ((ucast (command m) :: u8) = NOT (ucast (shr (command m) 8)) \<and> (ucast (address m) :: u8) = NOT (ucast (shr (address m) 8)))"
    using ext inverse [of "command m"] inverse [of "address m"] z by blast
  have whole: "x = ucast (ucast x :: u8) OR shl (ucast (ucast (shr x 8) :: u8)) 8" if "\<And>k. 16 \<le> k \<Longrightarrow> \<not> bit x k" for x :: u32
  proof (rule bit_word_eqI)
    fix n assume "n < LENGTH(32)"
    consider "n < 8" | "8 \<le> n" "n < 16" | "16 \<le> n" by linarith
    then show "bit x n \<longleftrightarrow> bit (ucast (ucast x :: u8) OR shl (ucast (ucast (shr x 8) :: u8)) 8 :: u32) n"
      using that [of n] by cases (auto simp: bit_simps)
  qed
  show ?thesis using m nec32_bytes [OF h ds] b no whole [of "address m"] whole [of "command m"] z
    by (auto simp: infrared_decoder_nec_interpret_def message_of_def set_message_eq)
qed

text \<open>The 42 bits of the long variants, as the code splits them.\<close>

lemma nec42_words:
  assumes h: "holds_bits infrared_protocol_nec d (bits_of (put_u32 (put_u32 ds 0 W1) 4 W2) 42)" and ds: "length ds = 8"
  obtains w2 where "ld_u32 (d_data d) 0 = Some W1" "ld_u16 (d_data d) 4 = Some w2" "\<And>k. k < 10 \<Longrightarrow> bit w2 k = bit W2 k"
    "d_databit_cnt d = 42"
proof -
  obtain w1 where w1: "ld_u32 (d_data d) 0 = Some w1" "\<And>k. k < 32 \<Longrightarrow> bit w1 k = bit W1 k"
    using received_u32 [OF h] ds by (auto simp: data_bit_put)
  then have "w1 = W1" by (intro bit_word_eqI) simp
  moreover obtain w2 where "ld_u16 (d_data d) 4 = Some w2" "\<And>k. k < 10 \<Longrightarrow> bit w2 k = bit W2 k"
    using received_u16 [OF h] ds by (auto simp: data_bit_put)
  ultimately show thesis using that w1(1) holds_bits_of(1) [OF h] by blast
qed

lemma nec42_interpret_fields:
  fixes a ai c ci :: u16
  assumes "d_databit_cnt d = 42" "ld_u32 (d_data d) 0 = Some w1" "ld_u16 (d_data d) 4 = Some w2"
    and "ucast (w1 AND 0x1FFF) = a" "ucast (shr w1 13 AND 0x1FFF) = ai"
    and "ucast (shr w1 26 AND 0x3F) OR shl (w2 AND 0x3) 6 = c" "shr w2 2 AND 0xFF = ci"
  shows "infrared_decoder_nec_interpret d = Some (True,
    if a = (NOT ai AND 0x1FFF) \<and> c = (NOT ci AND 0xFF) then set_message d InfraredProtocolNEC42 (ucast a) (ucast c)
    else set_message d InfraredProtocolNEC42ext (ucast a OR shl (ucast ai) 13) (ucast c OR shl (ucast ci) 8))"
proof -
  have "infrared_decoder_nec_interpret d =
    (if a = (NOT ai AND 0x1FFF) \<and> c = (NOT ci AND 0xFF) then Some (True, set_message d InfraredProtocolNEC42 (ucast a) (ucast c))
     else Some (True, set_message d InfraredProtocolNEC42ext (ucast a OR shl (ucast ai) 13) (ucast c OR shl (ucast ci) 8)))"
    unfolding infrared_decoder_nec_interpret_def Let_def assms(1-3) Option.bind.bind_lunit assms(4-7) by simp
  then show ?thesis by (simp only: if_distrib [of "\<lambda>x. Some (True, x)"])
qed

lemma nec42_interpret:
  assumes m: "message_of InfraredProtocolNEC42 13 8 m" and ds: "length ds = 8"
    and h: "holds_bits infrared_protocol_nec d (bits_of (put_u32 (put_u32 ds 0 (nec42_word1 m)) 4 (nec42_word2 m)) 42)"
  shows "infrared_decoder_nec_interpret d = Some (True, d \<lparr>d_message := m\<rparr>)"
proof -
  obtain w2 where w: "ld_u32 (d_data d) 0 = Some (nec42_word1 m)" "ld_u16 (d_data d) 4 = Some w2"
    and w2: "\<And>k. k < 10 \<Longrightarrow> bit w2 k = bit (nec42_word2 m) k" and n: "d_databit_cnt d = 42"
    by (rule nec42_words [OF h ds]) blast
  note z = message_of_bits_none [OF m]
  have a: "ucast (nec42_word1 m AND 0x1FFF) = (ucast (address m) :: u16)" "NOT (ucast (shr (nec42_word1 m) 13 AND 0x1FFF)) AND 0x1FFF = (ucast (address m) :: u16)"
    by (rule bit_word_eqI, auto simp: bit_simps nec42_word1_def dest: message_of_bits [OF m])+
  have c1: "ucast (shr (nec42_word1 m) 26 AND 0x3F) OR shl (w2 AND 0x3) 6 = (ucast (command m) :: u16)"
  proof (rule bit_word_eqI)
    fix n assume "n < LENGTH(16)"
    consider "n < 6" | "n = 6 \<or> n = 7" | "8 \<le> n" by linarith
    then show "bit (ucast (shr (nec42_word1 m) 26 AND 0x3F) OR shl (w2 AND 0x3) 6 :: u16) n \<longleftrightarrow> bit (ucast (command m) :: u16) n"
      using \<open>n < LENGTH(16)\<close> z(2) [of n] w2 [of 0] w2 [of 1]
      by cases (auto simp: bit_simps nec42_word1_def nec42_word2_def)
  qed
  have c2: "NOT (shr w2 2 AND 0xFF) AND 0xFF = (ucast (command m) :: u16)"
    by (rule bit_word_eqI) (use w2 in \<open>auto simp: bit_simps nec42_word2_def dest: message_of_bits [OF m]\<close>)
  have "ucast (ucast (address m) :: u16) = address m" "ucast (ucast (command m) :: u16) = command m"
    by (rule bit_word_eqI, auto simp: bit_simps dest: message_of_bits [OF m])+
  then show ?thesis using m w n a c1 c2
    by (simp add: infrared_decoder_nec_interpret_def message_of_def set_message_eq Let_def)
qed

text \<open>A number of \<open>2 n\<close> bits in two halves, kept in 16-bit words.\<close>

lemma two_halves:
  fixes x :: u32
  assumes x: "\<And>k. n + n \<le> k \<Longrightarrow> \<not> bit x k" and n: "n \<le> 16" and M: "M = mask n" "M' = mask n"
  defines "lo \<equiv> (ucast (x AND M) :: u16)" and "hi \<equiv> (ucast (shr x n AND M) :: u16)"
  shows "x = ucast lo OR shl (ucast hi) n" and "lo = NOT hi AND M' \<Longrightarrow> x = (x AND M) OR shl (NOT x AND M) n"
proof -
  have "bit x k \<longleftrightarrow> bit (ucast lo OR shl (ucast hi) n :: u32) k" if "k < 32" for k
  proof -
    consider "k < n" | j where "k = n + j" "j < n" | "n + n \<le> k" by (metis less_diff_conv2 le_add_diff_inverse not_less add_less_cancel_left)
    then show ?thesis using that x [of k] n unfolding lo_def hi_def M by cases (auto simp: bit_simps)
  qed
  then show "x = ucast lo OR shl (ucast hi) n" by (intro bit_word_eqI) simp
  show "x = (x AND M) OR shl (NOT x AND M) n" if "lo = NOT hi AND M'"
  proof (rule inverse_halves)
    show "bit x (n + k) \<longleftrightarrow> \<not> bit x k" if k: "k < n" for k
      using arg_cong [OF \<open>lo = NOT hi AND M'\<close>, of "\<lambda>w. bit w k"] k n unfolding lo_def hi_def M by (simp add: bit_simps add.commute)
  qed (use x n M in auto)
qed

lemma nec42ext_interpret:
  assumes m: "message_of InfraredProtocolNEC42ext 26 16 m" and ds: "length ds = 8"
    and h: "holds_bits infrared_protocol_nec d (bits_of (put_u32 (put_u32 ds 0 (nec42ext_word1 m)) 4 (nec42ext_word2 m)) 42)"
    and ext: "\<not> (command m = (command m AND 0xFF) OR shl (NOT (command m) AND 0xFF) 8 \<and>
           address m = (address m AND 0x1FFF) OR shl (NOT (address m) AND 0x1FFF) 13)"
  shows "infrared_decoder_nec_interpret d = Some (True, d \<lparr>d_message := m\<rparr>)"
proof -
  obtain w2 where w: "ld_u32 (d_data d) 0 = Some (nec42ext_word1 m)" "ld_u16 (d_data d) 4 = Some w2"
    and w2: "\<And>k. k < 10 \<Longrightarrow> bit w2 k = bit (nec42ext_word2 m) k" and n: "d_databit_cnt d = 42"
    by (rule nec42_words [OF h ds]) blast
  note z = message_of_bits_none [OF m]
  have a: "ucast (nec42ext_word1 m AND 0x1FFF) = (ucast (address m AND 0x1FFF) :: u16)"
    "ucast (shr (nec42ext_word1 m) 13 AND 0x1FFF) = (ucast (shr (address m) 13 AND 0x1FFF) :: u16)"
    by (rule bit_word_eqI, auto simp: bit_simps nec42ext_word1_def)+
  have c1: "ucast (shr (nec42ext_word1 m) 26 AND 0x3F) OR shl (w2 AND 0x3) 6 = (ucast (command m AND 0xFF) :: u16)"
  proof (rule bit_word_eqI)
    fix n assume "n < LENGTH(16)"
    consider "n < 6" | "n = 6 \<or> n = 7" | "8 \<le> n" by linarith
    then show "bit (ucast (shr (nec42ext_word1 m) 26 AND 0x3F) OR shl (w2 AND 0x3) 6 :: u16) n \<longleftrightarrow> bit (ucast (command m AND 0xFF) :: u16) n"
      using \<open>n < LENGTH(16)\<close> w2 [of 0] w2 [of 1] by cases (auto simp: bit_simps nec42ext_word1_def nec42ext_word2_def)
  qed
  have c2: "shr w2 2 AND 0xFF = (ucast (shr (command m) 8 AND 0xFF) :: u16)"
    by (rule bit_word_eqI) (use w2 in \<open>auto simp: bit_simps nec42ext_word2_def\<close>)
  have masks: "(0x1FFF :: u32) = mask 13" "(0x1FFF :: u16) = mask 13" "(0xFF :: u32) = mask 8" "(0xFF :: u16) = mask 8"
    by (simp_all add: mask_eq_exp_minus_1)
  have zz: "\<And>k. 13 + 13 \<le> k \<Longrightarrow> \<not> bit (address m) k" "\<And>k. 8 + 8 \<le> k \<Longrightarrow> \<not> bit (command m) k" "13 \<le> (16 :: nat)" "8 \<le> (16 :: nat)"
    using z by simp_all
  note A = two_halves [OF zz(1) zz(3) masks(1,2)] and C = two_halves [OF zz(2) zz(4) masks(3,4)]
  have no: "\<not> ((ucast (address m AND 0x1FFF) :: u16) = (NOT (ucast (shr (address m) 13 AND 0x1FFF)) AND 0x1FFF) \<and>
      (ucast (command m AND 0xFF) :: u16) = (NOT (ucast (shr (command m) 8 AND 0xFF)) AND 0xFF))"
    using ext A(2) C(2) by blast
  have "protocol m = InfraredProtocolNEC42ext" "\<not> repeat m" using m by (simp_all add: message_of_def)
  note eq = set_message_eq [OF this(1) A(1) C(1) this(2)]
  show ?thesis by (simp only: nec42_interpret_fields [OF n w a c1 c2] if_not_P [OF no] eq)
qed

section \<open>Properties\<close>

text \<open>
  C1. NEC round trip. For every message that NEC, NECext, NEC42 or NEC42ext can carry (address and
  command within their lengths, and an extended message not of the form that the short variant
  takes), the reset of any encoder succeeds; the encoder then sends the message and reports that it is
  done; and whatever an idle decoder receives of it, each duration off by less than 120 microseconds and
  a pause of more than 4 ms behind it, makes the decoder return this message and nothing else.
\<close>

theorem infrared_nec_roundtrip:
  assumes m: "nec_message m" and e: "length (e_data e0) = infrared_data_bytes (spec_data infrared_protocol_nec)"
    and d: "idle d True" "length (d_data d) = infrared_data_bytes (spec_data infrared_protocol_nec)"
  shows "\<exists>e. infrared_encoder_nec_reset e0 m = Some e \<and> delivers infrared_protocol_nec e d m"
proof -
  have l: "length (e_data e0) = 8" using e by simp
  note r = nec_reset [OF l]
  have send: "delivers infrared_protocol_nec (cleared e0 6 \<lparr>e_data := ds, bits_to_encode := n\<rparr>) d m"
    if "length ds = 8" "n = 32 \<or> n = 42"
      "\<And>d. holds_bits infrared_protocol_nec d (bits_of ds n) \<Longrightarrow> infrared_decoder_nec_interpret d = Some (True, d \<lparr>d_message := m\<rparr>)" for ds n
    by (rule nec.delivers_bits [OF cleared_ready d]) (use that in \<open>auto simp: bits_of_def\<close>)
  consider "message_of InfraredProtocolNEC 8 8 m" | "message_of InfraredProtocolNEC42 13 8 m"
    | "message_of InfraredProtocolNECext 16 16 m" "\<not> (command m = (command m AND 0xFF) OR shl (NOT (command m) AND 0xFF) 8 \<and>
           address m = (address m AND 0xFF) OR shl (NOT (address m) AND 0xFF) 8)"
    | "message_of InfraredProtocolNEC42ext 26 16 m" "\<not> (command m = (command m AND 0xFF) OR shl (NOT (command m) AND 0xFF) 8 \<and>
           address m = (address m AND 0x1FFF) OR shl (NOT (address m) AND 0x1FFF) 13)"
    using m unfolding nec_message_def by (cases "protocol m") simp_all
  then show ?thesis
  proof cases
    case 1
    show ?thesis by (intro exI conjI, rule r(1), use 1 in \<open>simp add: message_of_def\<close>, rule send)
      (use r(5) in \<open>auto intro: nec_interpret [OF 1, rotated]\<close>)
  next
    case 2
    show ?thesis by (intro exI conjI, rule r(3), use 2 in \<open>simp add: message_of_def\<close>, rule send)
      (use r(5) in \<open>auto intro: nec42_interpret [OF 2, rotated]\<close>)
  next
    case 3
    show ?thesis by (intro exI conjI, rule r(2), use 3(1) in \<open>simp add: message_of_def\<close>, rule send)
      (use r(5) in \<open>auto intro: necext_interpret [OF 3(1) _ _ 3(2), rotated]\<close>)
  next
    case 4
    show ?thesis by (intro exI conjI, rule r(4), use 4(1) in \<open>simp add: message_of_def\<close>, rule send)
      (use r(5) in \<open>auto intro: nec42ext_interpret [OF 4(1) _ _ 4(2), rotated]\<close>)
  qed
qed

text \<open>A valid message, and an encoder and a decoder as they are allocated.\<close>

lemma infrared_nec_roundtrip_witness:
  "\<exists>e. infrared_encoder_nec_reset (infrared_common_encoder_alloc infrared_protocol_nec)
      \<lparr>protocol = InfraredProtocolNECext, address = 0x1234, command = 0xABCD, repeat = False\<rparr> = Some e \<and>
     delivers infrared_protocol_nec e (infrared_common_decoder_alloc infrared_protocol_nec)
      \<lparr>protocol = InfraredProtocolNECext, address = 0x1234, command = 0xABCD, repeat = False\<rparr>"
proof (rule infrared_nec_roundtrip)
  show "nec_message \<lparr>protocol = InfraredProtocolNECext, address = 0x1234, command = 0xABCD, repeat = False\<rparr>"
    by (simp add: nec_message_def message_of_def)
qed (simp_all add: infrared_common_encoder_alloc_def)

text \<open>The protocols with a single length, by their table, the reset of their encoder and their variants.\<close>

definition fits_variant :: "InfraredProtocolVariant \<Rightarrow> InfraredMessage \<Rightarrow> bool" where
  "fits_variant v m \<longleftrightarrow> unat (address m) < 2 ^ address_length v \<and> unat (command m) < 2 ^ command_length v \<and> \<not> repeat m"

definition single_length_protocols where
  "single_length_protocols =
     [(infrared_protocol_samsung32, infrared_encoder_samsung32_reset, infrared_protocol_samsung32_get_variant),
      (infrared_protocol_rca, infrared_encoder_rca_reset, infrared_protocol_rca_get_variant),
      (infrared_protocol_kaseikyo, infrared_encoder_kaseikyo_reset, infrared_protocol_kaseikyo_get_variant)]"

lemma samsung32_delivers:
  assumes m: "message_of InfraredProtocolSamsung32 8 8 m" and l: "length (e_data e0) = 6" and d: "idle d True" "length (d_data d) = 6"
  shows "\<exists>e. infrared_encoder_samsung32_reset e0 m = Some e \<and> delivers infrared_protocol_samsung32 e d m"
  by (intro exI conjI, rule samsung32_reset [OF l], rule samsung32.delivers_bits [OF cleared_ready d(1)])
    (use l d in \<open>auto simp: bits_of_def [of _ 32] intro: samsung32_interpret [OF m, rotated]\<close>)

lemma rca_delivers:
  assumes m: "message_of InfraredProtocolRCA 4 8 m" and l: "length (e_data e0) = 5" and d: "idle d True" "length (d_data d) = 5"
  shows "\<exists>e. infrared_encoder_rca_reset e0 m = Some e \<and> delivers infrared_protocol_rca e d m"
  by (intro exI conjI, rule rca_reset [OF l], rule rca.delivers_bits [OF cleared_ready d(1)])
    (use l d in \<open>auto simp: bits_of_def [of _ 24] intro: rca_interpret [OF m, rotated]\<close>)

lemma kaseikyo_delivers:
  assumes m: "message_of InfraredProtocolKaseikyo 26 10 m" and l: "length (e_data e0) = 8" and d: "idle d True" "length (d_data d) = 8"
  shows "\<exists>e. infrared_encoder_kaseikyo_reset e0 m = Some e \<and> delivers infrared_protocol_kaseikyo e d m"
proof -
  obtain ds where ds: "infrared_encoder_kaseikyo_reset e0 m = Some (cleared e0 6 \<lparr>e_data := kaseikyo_bytes m @ ds, bits_to_encode := 48\<rparr>)" "length ds = 2"
    using kaseikyo_reset [OF l m] by blast
  have "length (kaseikyo_bytes m) = 6" by (simp add: kaseikyo_bytes_def Let_def)
  then have "delivers infrared_protocol_kaseikyo (cleared e0 6 \<lparr>e_data := kaseikyo_bytes m @ ds, bits_to_encode := 48\<rparr>) d m"
    by (intro kaseikyo.delivers_bits [OF cleared_ready d(1)])
      (use ds(2) d in \<open>auto simp: bits_of_def [of _ 48] intro: kaseikyo_interpret [OF m]\<close>)
  then show ?thesis using ds(1) by blast
qed

text \<open>
  C11. Samsung32, RCA and Kaseikyo round trips: as for NEC, for every message whose address and command are
  within the lengths that the table of variants gives for its protocol.
\<close>

theorem infrared_single_length_roundtrip:
  assumes p: "(spec, reset_fn, get_variant) \<in> set single_length_protocols" and v: "get_variant (protocol m) = Some v" "fits_variant v m"
    and e: "length (e_data e0) = infrared_data_bytes (spec_data spec)"
    and d: "idle d True" "length (d_data d) = infrared_data_bytes (spec_data spec)"
  shows "\<exists>e. reset_fn e0 m = Some e \<and> delivers spec e d m"
proof -
  from p v consider
      "spec = infrared_protocol_samsung32" "reset_fn = infrared_encoder_samsung32_reset" "message_of InfraredProtocolSamsung32 8 8 m"
    | "spec = infrared_protocol_rca" "reset_fn = infrared_encoder_rca_reset" "message_of InfraredProtocolRCA 4 8 m"
    | "spec = infrared_protocol_kaseikyo" "reset_fn = infrared_encoder_kaseikyo_reset" "message_of InfraredProtocolKaseikyo 26 10 m"
    by (auto simp: single_length_protocols_def infrared_protocol_samsung32_get_variant_def infrared_protocol_rca_get_variant_def
        infrared_protocol_kaseikyo_get_variant_def message_of_def fits_variant_def common_variant_def split: if_splits)
  then show ?thesis
    using e d by cases (simp_all add: samsung32_delivers rca_delivers kaseikyo_delivers)
qed

lemma infrared_single_length_roundtrip_witness:
  "\<exists>e. infrared_encoder_kaseikyo_reset (infrared_common_encoder_alloc infrared_protocol_kaseikyo)
      \<lparr>protocol = InfraredProtocolKaseikyo, address = 0x2AA5512, command = 0x1D3, repeat = False\<rparr> = Some e \<and>
     delivers infrared_protocol_kaseikyo e (infrared_common_decoder_alloc infrared_protocol_kaseikyo)
      \<lparr>protocol = InfraredProtocolKaseikyo, address = 0x2AA5512, command = 0x1D3, repeat = False\<rparr>"
proof (rule infrared_single_length_roundtrip [where v = "common_variant ''Kaseikyo'' 26 10"])
  show "(infrared_protocol_kaseikyo, infrared_encoder_kaseikyo_reset, infrared_protocol_kaseikyo_get_variant) \<in> set single_length_protocols"
    by (simp add: single_length_protocols_def)
qed (simp_all add: infrared_common_encoder_alloc_def infrared_protocol_kaseikyo_get_variant_def common_variant_def fits_variant_def)

end
