(* ===== verification/InfraredManchester.thy ===== *)
theory InfraredManchester
  imports InfraredProtocols
begin

text \<open>
  The Manchester-coded protocols of \<^verbatim>\<open>lib/infrared/encoder_decoder\<close>, RC5 with RC5X and RC6: their tables, the
  functions that read a message and lay one out, and the longer toggle bit of RC6. The locale
  \<open>manchester_protocol\<close> states what such a table has to satisfy; in it, the half bits that the encoder
  produces are computed, merged into the pulses that a receiver sees, and shown to be received.
\<close>

section \<open>RC5\<close>

text \<open>\<^verbatim>\<open>reverse\<close> of \<^verbatim>\<open>infrared_i.h\<close>.\<close>

definition reverse :: "u8 \<Rightarrow> u8" where
  "reverse v = for_loop 0 8 (\<lambda>i reverse_value. reverse_value OR (if v AND shl 0x01 i \<noteq> 0 then shl 1 (7 - i) else 0)) 0"

definition INFRARED_RC5_BIT :: nat where "INFRARED_RC5_BIT = 888"
definition INFRARED_RC5_BIT_TOLERANCE :: nat where "INFRARED_RC5_BIT_TOLERANCE = 120"
definition INFRARED_RC5_SILENCE :: nat where "INFRARED_RC5_SILENCE = 2700 * 10"
definition INFRARED_RC5_MIN_SPLIT_TIME :: nat where "INFRARED_RC5_MIN_SPLIT_TIME = 2700"

text \<open>The part that RC5 and RC6 share: a message equal to the last one with the same toggle bit is a repetition.\<close>

definition set_toggled_message :: "InfraredCommonDecoder \<Rightarrow> InfraredProtocol \<Rightarrow> u8 \<Rightarrow> u8 \<Rightarrow> bool \<Rightarrow> InfraredCommonDecoder" where
  "set_toggled_message decoder p a c toggle =
     (let message = d_message decoder;
          r = (if address message = ucast a \<and> command message = ucast c \<and> protocol message = p
               then toggle = d_toggle decoder else False)
      in decoder \<lparr>d_message := \<lparr>protocol = p, address = ucast a, command = ucast c, repeat = r\<rparr>, d_toggle := toggle\<rparr>)"

definition infrared_decoder_rc5_interpret :: infrared_interpret_fn where
  "infrared_decoder_rc5_interpret decoder = do {
     b0 \<leftarrow> rd (d_data decoder) 0;
     ds \<leftarrow> wr (d_data decoder) 0 (NOT b0);
     b1 \<leftarrow> rd ds 1;
     ds \<leftarrow> wr ds 1 (NOT b1);
     let decoder = decoder \<lparr>d_data := ds\<rparr>;
     b0 \<leftarrow> rd ds 0;
     b1 \<leftarrow> rd ds 1;
     let address = reverse b0 AND 0x1F;
     let command = shr (reverse b1) 2 AND 0x3F;
     data \<leftarrow> ld_u32 ds 0;
     let start_bit1 = (data AND 0x01 \<noteq> 0);
     let start_bit2 = (data AND 0x02 \<noteq> 0);
     let toggle = (data AND 0x04 \<noteq> 0);
     if start_bit1
     then Some (True, set_toggled_message decoder (if start_bit2 then InfraredProtocolRC5 else InfraredProtocolRC5X) address command toggle)
     else Some (False, decoder)
   }"

text \<open>The table leaves the marks and spaces of the other modulation at zero.\<close>

definition infrared_protocol_rc5 :: InfraredCommonProtocolSpec where
  "infrared_protocol_rc5 =
     \<lparr>timings = \<lparr>min_split_time = INFRARED_RC5_MIN_SPLIT_TIME, silence_time = INFRARED_RC5_SILENCE,
        preamble_mark = 0, preamble_space = 0, bit1_mark = INFRARED_RC5_BIT, bit1_space = 0,
        bit0_mark = 0, bit0_space = 0, preamble_tolerance = 0, bit_tolerance = INFRARED_RC5_BIT_TOLERANCE\<rparr>,
      manchester_start_from_space = True, databit_len = [1 + 1 + 1 + 5 + 6, 0, 0, 0],
      decode = infrared_common_decode_manchester, decode_repeat = None,
      interpret_bits = infrared_decoder_rc5_interpret, encode = infrared_common_encode_manchester,
      encode_repeat = None\<rparr>"

record InfraredEncoderRC =
  common_encoder :: InfraredCommonEncoder
  toggle_bit :: bool

definition infrared_encoder_rc5_reset :: "InfraredEncoderRC \<Rightarrow> InfraredMessage \<Rightarrow> InfraredEncoderRC option" where
  "infrared_encoder_rc5_reset encoder message = do {
     ce \<leftarrow> infrared_common_encoder_reset infrared_protocol_rc5 (common_encoder encoder);
     data \<leftarrow> or_u32 (e_data ce) 0 0x01;
     data \<leftarrow> (if protocol message = InfraredProtocolRC5 then or_u32 data 0 0x02 else Some data);
     data \<leftarrow> or_u32 data 0 (if toggle_bit encoder then 0x04 else 0);
     data \<leftarrow> or_u32 data 0 (shl (shr (ucast (reverse (ucast (address message)))) 3) 3);
     data \<leftarrow> or_u32 data 0 (shl (shr (ucast (reverse (ucast (command message)))) 2) 8);
     b0 \<leftarrow> rd data 0;
     data \<leftarrow> wr data 0 (NOT b0);
     b1 \<leftarrow> rd data 1;
     data \<leftarrow> wr data 1 (NOT b1);
     Some (encoder \<lparr>common_encoder := ce \<lparr>e_data := data, bits_to_encode := databit_len infrared_protocol_rc5 ! 0\<rparr>,
                    toggle_bit := \<not> toggle_bit encoder\<rparr>)
   }"

definition infrared_encoder_rc5_alloc :: InfraredEncoderRC where
  "infrared_encoder_rc5_alloc = \<lparr>common_encoder = infrared_common_encoder_alloc infrared_protocol_rc5, toggle_bit = False\<rparr>"

definition infrared_protocol_rc5_get_variant :: "InfraredProtocol \<Rightarrow> InfraredProtocolVariant option" where
  "infrared_protocol_rc5_get_variant p =
     (if p = InfraredProtocolRC5 then
        Some \<lparr>variant_name = ''RC5'', address_length = 5, command_length = 6, frequency = 36000, duty_cycle = 33, repeat_count = 1\<rparr>
      else if p = InfraredProtocolRC5X then
        Some \<lparr>variant_name = ''RC5X'', address_length = 5, command_length = 7, frequency = 36000, duty_cycle = 33, repeat_count = 1\<rparr>
      else None)"

section \<open>RC6\<close>

definition INFRARED_RC6_BIT :: nat where "INFRARED_RC6_BIT = 444"
definition INFRARED_RC6_SILENCE :: nat where "INFRARED_RC6_SILENCE = 2700 * 10"
definition INFRARED_RC6_MIN_SPLIT_TIME :: nat where "INFRARED_RC6_MIN_SPLIT_TIME = 2700"

definition infrared_decoder_rc6_interpret :: infrared_interpret_fn where
  "infrared_decoder_rc6_interpret decoder = do {
     data \<leftarrow> ld_u32 (d_data decoder) 0;
     let address = reverse (ucast (shr data 5));
     let command = reverse (ucast (shr data 13));
     let start_bit = (data AND 0x01 \<noteq> 0);
     let toggle = (data AND 0x10 \<noteq> 0);
     let mode = (ucast (shr data 1 AND 0x7) :: u8);
     if start_bit \<and> mode = 0
     then Some (True, set_toggled_message decoder InfraredProtocolRC6 address command toggle)
     else Some (False, decoder)
   }"

definition infrared_decoder_rc6_decode_manchester :: infrared_decode_fn where
  "infrared_decoder_rc6_decode_manchester pd decoder level timing =
     (let bit = bit1_mark (timings pd);
          tolerance = bit_tolerance (timings pd);
          single_timing = MATCH_TIMING timing bit tolerance;
          double_timing = MATCH_TIMING timing (2 * bit) tolerance;
          triple_timing = MATCH_TIMING timing (3 * bit) tolerance
      in if d_databit_cnt decoder = 4 then do {
           furi_check (d_switch_detect decoder);
           if single_timing \<noteq> triple_timing then do {
             old \<leftarrow> rd (d_data decoder) 0;
             ds \<leftarrow> wr (d_data decoder) 0 (old OR shl (of_bool (if single_timing then \<not> level else level)) 4);
             Some (InfraredStatusOk, decoder \<lparr>d_databit_cnt := d_databit_cnt decoder + 1, d_data := ds\<rparr>)
           } else Some (InfraredStatusError, decoder)
         } else if d_databit_cnt decoder = 5 then
           if single_timing \<or> triple_timing
           then infrared_common_decode_manchester pd (decoder \<lparr>d_switch_detect := False\<rparr>) level (if triple_timing then bit else timing)
           else if double_timing then Some (InfraredStatusOk, decoder)
           else Some (InfraredStatusError, decoder)
         else infrared_common_decode_manchester pd decoder level timing)"

definition infrared_encoder_rc6_encode_manchester :: infrared_encode_fn where
  "infrared_encoder_rc6_encode_manchester pd encoder = do {
     let toggle_bit = (bits_encoded encoder = 4);
     (status, duration, level, encoder) \<leftarrow> infrared_common_encode_manchester pd encoder;
     Some (status, if toggle_bit then duration * 2 else duration, level, encoder)
   }"

definition infrared_protocol_rc6 :: InfraredCommonProtocolSpec where
  "infrared_protocol_rc6 =
     \<lparr>timings = \<lparr>min_split_time = INFRARED_RC6_MIN_SPLIT_TIME, silence_time = INFRARED_RC6_SILENCE,
        preamble_mark = 2666, preamble_space = 889, bit1_mark = INFRARED_RC6_BIT, bit1_space = 0,
        bit0_mark = 0, bit0_space = 0, preamble_tolerance = 200, bit_tolerance = 120\<rparr>,
      manchester_start_from_space = False, databit_len = [1 + 3 + 1 + 8 + 8, 0, 0, 0],
      decode = infrared_decoder_rc6_decode_manchester, decode_repeat = None,
      interpret_bits = infrared_decoder_rc6_interpret, encode = infrared_encoder_rc6_encode_manchester,
      encode_repeat = None\<rparr>"

definition infrared_encoder_rc6_reset :: "InfraredEncoderRC \<Rightarrow> InfraredMessage \<Rightarrow> InfraredEncoderRC option" where
  "infrared_encoder_rc6_reset encoder message = do {
     ce \<leftarrow> infrared_common_encoder_reset infrared_protocol_rc6 (common_encoder encoder);
     data \<leftarrow> or_u32 (e_data ce) 0 0x01;
     data \<leftarrow> or_u32 data 0 (if toggle_bit encoder then 0x10 else 0);
     data \<leftarrow> or_u32 data 0 (shl (ucast (reverse (ucast (address message)))) 5);
     data \<leftarrow> or_u32 data 0 (shl (ucast (reverse (ucast (command message)))) 13);
     Some (encoder \<lparr>common_encoder := ce \<lparr>e_data := data, bits_to_encode := databit_len infrared_protocol_rc6 ! 0\<rparr>,
                    toggle_bit := \<not> toggle_bit encoder\<rparr>)
   }"

definition infrared_encoder_rc6_alloc :: InfraredEncoderRC where
  "infrared_encoder_rc6_alloc = \<lparr>common_encoder = infrared_common_encoder_alloc infrared_protocol_rc6, toggle_bit = False\<rparr>"

definition infrared_protocol_rc6_get_variant :: "InfraredProtocol \<Rightarrow> InfraredProtocolVariant option" where
  "infrared_protocol_rc6_get_variant p =
     (if p = InfraredProtocolRC6 then
        Some \<lparr>variant_name = ''RC6'', address_length = 8, command_length = 8, frequency = 36000, duty_cycle = 33, repeat_count = 1\<rparr>
      else None)"

section \<open>The line\<close>

text \<open>
  The encoder reports half bits; on the line, two of them with the same level are one pulse. What a
  receiver sees of a pulse is off by less than the tolerance.
\<close>

fun merge_levels :: "(bool \<times> nat) list \<Rightarrow> (bool \<times> nat) list" where
  "merge_levels ((l, t) # (l', t') # ss) =
     (if l = l' then merge_levels ((l, t + t') # ss) else (l, t) # merge_levels ((l', t') # ss))"
| "merge_levels ss = ss"

definition heard_as :: "nat \<Rightarrow> (bool \<times> nat) list \<Rightarrow> (bool \<times> nat) list \<Rightarrow> bool" where
  "heard_as tol ps ss \<longleftrightarrow> list_all2 (\<lambda>(lv, t) (lv', t'). lv' = lv \<and> t' < t + tol \<and> t < t' + tol) ps ss"

text \<open>
  The half bits from bit \<open>k\<close> on, where \<open>w k\<close> is the width of a half of bit \<open>k\<close>: the value, then its
  complement. The last one is left out if it is a space.
\<close>

fun halves :: "(nat \<Rightarrow> nat) \<Rightarrow> nat \<Rightarrow> bool list \<Rightarrow> (bool \<times> nat) list" where
  "halves w k [] = []"
| "halves w k [b] = (if b then [(True, w k)] else [(False, w k), (True, w k)])"
| "halves w k (b # c # bs) = (b, w k) # (\<not> b, w k) # halves w (Suc k) (c # bs)"

text \<open>The same as pulses, after the first half of a bit \<open>b\<close>: a pulse of the other level that has lasted for \<open>x\<close> is under way.\<close>

fun pulses :: "bool \<Rightarrow> nat \<Rightarrow> (nat \<Rightarrow> nat) \<Rightarrow> nat \<Rightarrow> bool list \<Rightarrow> (bool \<times> nat) list" where
  "pulses b x w k [] = (if b then [] else [(True, x)])"
| "pulses b x w k (c # cs) =
     (if c = b then (\<not> b, x) # (c, w k) # pulses c (w k) w (Suc k) cs
      else (\<not> b, x + w k) # pulses c (w k) w (Suc k) cs)"

lemma merge_halves:
  "cs \<noteq> [] \<Longrightarrow> merge_levels ((\<not> b, x) # halves w k cs) = pulses b x w k cs"
proof (induction w k cs arbitrary: b x rule: halves.induct)
  case (3 w k c d cs)
  note IH = 3(1) [of c "w k"]
  show ?case
  proof (cases "c = b")
    case True
    then show ?thesis using IH by (simp del: pulses.simps add: pulses.simps(2) [of _ _ _ _ _ "d # cs"])
  next
    case False
    then have "c = (\<not> b)" by blast
    then show ?thesis using IH by (simp del: pulses.simps add: pulses.simps(2) [of _ _ _ _ _ "d # cs"])
  qed
qed auto

text \<open>Two signals that meet with different levels are merged apart.\<close>

lemma merge_append:
  "xs \<noteq> [] \<Longrightarrow> ys \<noteq> [] \<Longrightarrow> fst (last xs) \<noteq> fst (hd ys) \<Longrightarrow> merge_levels (xs @ ys) = merge_levels xs @ merge_levels ys"
proof (induction xs rule: merge_levels.induct)
  case (1 l t l' t' ss)
  then show ?case by (cases "ss = []"; cases "l = l'") simp_all
qed (cases ys; auto)+

lemma halves_last: "cs \<noteq> [] \<Longrightarrow> halves w k cs \<noteq> [] \<and> fst (last (halves w k cs))"
  by (induction w k cs rule: halves.induct) (auto split: if_splits)

lemma heard_Nil [simp]: "heard_as tol [] ss \<longleftrightarrow> ss = []"
  by (simp add: heard_as_def)

lemma heard_Cons:
  "heard_as tol ((lv, t) # ps) ss \<longleftrightarrow> (\<exists>t' ss'. ss = (lv, t') # ss' \<and> t' < t + tol \<and> t < t' + tol \<and> heard_as tol ps ss')"
  by (auto simp: heard_as_def list_all2_Cons1)

lemma heard_append:
  assumes "heard_as tol (ps @ qs) ss"
  obtains us vs where "ss = us @ vs" "heard_as tol ps us" "heard_as tol qs vs"
  using assms unfolding heard_as_def list_all2_append1 by blast

section \<open>Receiving a Manchester signal\<close>

text \<open>
  The numbers of a Manchester protocol: pulses of one, two and three halves are told apart, and the space
  that ends a message is longer than two halves.
\<close>

definition manchester_times :: "InfraredTimings \<Rightarrow> bool" where
  "manchester_times ts \<longleftrightarrow> 0 < bit_tolerance ts \<and> 2 * bit_tolerance ts \<le> bit1_mark ts \<and>
     2 * bit1_mark ts + bit_tolerance ts \<le> min_split_time ts \<and> min_split_time ts + bit_tolerance ts < silence_time ts \<and>
     bit1_mark ts < 2 ^ 16 \<and> bit_tolerance ts < 2 ^ 16 \<and> preamble_mark ts < 2 ^ 16 \<and> preamble_space ts < 2 ^ 16 \<and>
     bit_tolerance ts \<le> preamble_tolerance ts + (if preamble_mark ts = 0 then bit_tolerance ts else 0)"

definition pulse_of :: "InfraredTimings \<Rightarrow> nat \<Rightarrow> nat \<Rightarrow> bool" where
  "pulse_of ts n t \<longleftrightarrow> t < n * bit1_mark ts + bit_tolerance ts \<and> n * bit1_mark ts < t + bit_tolerance ts"

lemma match_pulse:
  assumes ts: "manchester_times ts" and n: "1 \<le> n" "n \<le> 3"
  shows "MATCH_TIMING t (n * bit1_mark ts) (bit_tolerance ts) \<longleftrightarrow> pulse_of ts n t"
proof -
  have "1 * bit1_mark ts \<le> n * bit1_mark ts" "n * bit1_mark ts \<le> 3 * bit1_mark ts"
    using n by (simp_all only: mult_le_mono1)
  moreover have "bit1_mark ts < 65536" "bit_tolerance ts < 65536" "2 * bit_tolerance ts \<le> bit1_mark ts"
    using ts by (simp_all add: manchester_times_def)
  ultimately have "bit_tolerance ts \<le> n * bit1_mark ts" "n * bit1_mark ts + bit_tolerance ts < 4294967296" by linarith+
  then show ?thesis by (auto simp: match_timing_eq pulse_of_def)
qed

lemma pulse_unique:
  assumes ts: "manchester_times ts" and p: "pulse_of ts n t" "pulse_of ts m t"
  shows "n = m"
proof -
  have "\<not> i < j" if "pulse_of ts i t" "pulse_of ts j t" for i j
  proof
    assume "i < j"
    then have "(i + 1) * bit1_mark ts \<le> j * bit1_mark ts" by (intro mult_le_mono1) simp
    then show False using that ts by (simp add: pulse_of_def manchester_times_def)
  qed
  then show ?thesis using p by (meson linorder_neqE_nat)
qed

text \<open>The first half of the last of the received bits \<open>bs\<close> is behind.\<close>

abbreviation mid_bit :: "InfraredCommonDecoder \<Rightarrow> bool list \<Rightarrow> bool" where
  "mid_bit d bs \<equiv> receiving d (last bs) bs \<and> d_switch_detect d"

text \<open>What a sample does that the protocol's decoder accepts.\<close>

lemma feed_accepted:
  assumes d: "d_state d = InfraredCommonDecoderStateDecode" "d_timings_cnt d = 0" "length (d_timings d) = INFRARED_SAMPLES" "d_level d \<noteq> lv"
    and t: "lv \<or> t \<le> min_split_time (timings spec) \<and> d_databit_cnt d < databit_len spec ! 0" "min_split_time (timings spec) \<noteq> 0"
    and dec: "decode spec (spec_data spec) (with_sample d lv t) lv t = Some (InfraredStatusOk, d1)"
    and d1: "d_timings_cnt d1 = 1" "d_timings d1 = (d_timings d)[0 := t]" "d_state d1 = InfraredCommonDecoderStateDecode"
      "d_databit_cnt d1 \<le> databit_len spec ! 0"
  shows "infrared_common_decode spec d lv t = Some (None, d1 \<lparr>d_timings_cnt := 0\<rparr>)"
proof -
  let ?d = "with_sample d lv t"
  have s: "d_timings_cnt ?d = 1" "d_timings ?d ! 0 = t" "length (d_timings ?d) = 6" "d_level ?d = lv"
    "d_databit_cnt ?d = d_databit_cnt d" "d_state ?d = InfraredCommonDecoderStateDecode"
    using d by (simp_all add: with_sample_def INFRARED_SAMPLES_def)
  have c: "decoder_consume d1 1 = Some (d1 \<lparr>d_timings_cnt := 0\<rparr>)" using consume_all [of d1 1] d1 d(3) by (simp add: INFRARED_SAMPLES_def)
  have "decode_bits_step spec ?d = Some (Inr (d1 \<lparr>d_timings_cnt := 0\<rparr>))"
    using s t d1(4) c dec by (cases lv) (auto simp: decode_bits_step_def Let_def rd_def)
  then have "infrared_common_decode_bits spec ?d = Some (InfraredStatusOk, d1 \<lparr>d_timings_cnt := 0\<rparr>)"
    using s by (intro decode_bits_once) simp_all
  then have "common_decode_loop common_decode_fuel spec (False, ?d) = Some (False, d1 \<lparr>d_timings_cnt := 0\<rparr>)"
    using s by (intro decode_loop_left) (simp add: common_decode_step_def)
  then show ?thesis using common_decode_eq [of d lv spec t] d by (simp add: INFRARED_SAMPLES_def)
qed

definition same_context :: "InfraredCommonDecoder \<Rightarrow> InfraredCommonDecoder \<Rightarrow> bool" where
  "same_context d d' \<longleftrightarrow> d_message d' = d_message d \<and> d_toggle d' = d_toggle d \<and> length (d_data d') = length (d_data d)"

lemma same_context_trans: "same_context d d1 \<Longrightarrow> same_context d1 d2 \<Longrightarrow> same_context d d2"
  by (simp add: same_context_def)

lemma same_context_refl [simp]: "same_context d d"
  by (simp add: same_context_def)

text \<open>The three cases of the Manchester decoder behind the start of a message.\<close>

lemma manchester_cases:
  assumes "d_databit_cnt d \<noteq> 0 \<or> \<not> manchester_start_from_space pd" "d_databit_cnt d \<noteq> databit_len pd ! 0"
  shows "\<not> d_switch_detect d \<Longrightarrow> MATCH_TIMING t (bit1_mark (timings pd)) (bit_tolerance (timings pd)) \<Longrightarrow>
      \<not> MATCH_TIMING t (2 * bit1_mark (timings pd)) (bit_tolerance (timings pd)) \<Longrightarrow>
      infrared_common_decode_manchester pd d lv t = do { d \<leftarrow> accumulate_lsb (d \<lparr>d_switch_detect := True\<rparr>) lv; Some (InfraredStatusOk, d) }"
    and "d_switch_detect d \<Longrightarrow> \<not> MATCH_TIMING t (bit1_mark (timings pd)) (bit_tolerance (timings pd)) \<Longrightarrow>
      MATCH_TIMING t (2 * bit1_mark (timings pd)) (bit_tolerance (timings pd)) \<Longrightarrow>
      infrared_common_decode_manchester pd d lv t = do { d \<leftarrow> accumulate_lsb (d \<lparr>d_switch_detect := True\<rparr>) lv; Some (InfraredStatusOk, d) }"
proof -
  assume sw: "d_switch_detect d" and t: "\<not> MATCH_TIMING t (bit1_mark (timings pd)) (bit_tolerance (timings pd))"
    "MATCH_TIMING t (2 * bit1_mark (timings pd)) (bit_tolerance (timings pd))"
  have "d \<lparr>d_switch_detect := True\<rparr> = d" using sw by (cases d) simp
  then show "infrared_common_decode_manchester pd d lv t = do { d \<leftarrow> accumulate_lsb (d \<lparr>d_switch_detect := True\<rparr>) lv; Some (InfraredStatusOk, d) }"
    using assms sw t by (simp only:) (auto simp: infrared_common_decode_manchester_def Let_def)
qed (use assms in \<open>auto simp: infrared_common_decode_manchester_def Let_def\<close>)

lemma manchester_second_half:
  assumes "d_databit_cnt d \<noteq> 0" "d_switch_detect d" "MATCH_TIMING t (bit1_mark (timings pd)) (bit_tolerance (timings pd))"
  shows "infrared_common_decode_manchester pd d lv t = Some (InfraredStatusOk, d \<lparr>d_switch_detect := False\<rparr>)"
  using assms by (auto simp: infrared_common_decode_manchester_def Let_def)

text \<open>
  A decoder that has seen a space and waits for the first mark of a message: without a preamble it is
  already in the state in which it collects bits.
\<close>

definition waiting :: "InfraredCommonProtocolSpec \<Rightarrow> InfraredCommonDecoder \<Rightarrow> bool" where
  "waiting spec d \<longleftrightarrow> d_timings_cnt d = 0 \<and> length (d_timings d) = INFRARED_SAMPLES \<and> \<not> d_level d \<and>
     (if preamble_mark (timings spec) = 0
      then d_state d = InfraredCommonDecoderStateDecode \<and> d_databit_cnt d = 0 \<and> \<not> d_switch_detect d
      else d_state d = InfraredCommonDecoderStateWaitPreamble)"

lemma space_passed:
  assumes d: "d_state d = InfraredCommonDecoderStateWaitPreamble" "d_timings_cnt d = 1" "length (d_timings d) = INFRARED_SAMPLES" "\<not> d_level d"
  shows "\<exists>d'. common_decode_loop (Suc (Suc n)) spec (msg, d) = Some (msg, d') \<and> waiting spec d' \<and> same_context d d'"
proof -
  let ?d = "d \<lparr>d_timings_cnt := 0\<rparr>"
  let ?d' = "?d \<lparr>d_state := InfraredCommonDecoderStateDecode, d_databit_cnt := 0, d_switch_detect := False\<rparr>"
  have c: "decoder_consume d 1 = Some ?d" using consume_all [of d 1] d by (simp add: INFRARED_SAMPLES_def)
  show ?thesis
  proof (cases "preamble_mark (timings spec) = 0")
    case True
    then have "infrared_check_preamble (spec_data spec) d = Some (True, ?d)" using d c by (simp add: infrared_check_preamble_def)
    then have "common_decode_loop (Suc (Suc n)) spec (msg, d) = Some (msg, ?d')"
      using d(1) by (simp add: common_decode_step_def decode_bits_none)
    then show ?thesis using True d by (simp add: waiting_def same_context_def)
  next
    case False
    then have "infrared_check_preamble (spec_data spec) d = Some (False, ?d)" using d c by (simp add: infrared_check_preamble_def)
    then have "common_decode_loop (Suc (Suc n)) spec (msg, d) = Some (msg, ?d)" using d(1) by (simp add: common_decode_step_def)
    then show ?thesis using False d by (simp add: waiting_def same_context_def)
  qed
qed

lemma feed_first_space:
  assumes d: "idle d True"
  shows "\<exists>d'. infrared_common_decode spec d False t = Some (None, d') \<and> waiting spec d' \<and> same_context d d'"
proof -
  note r = d [unfolded idle_def]
  let ?d = "with_sample d False t"
  obtain n where n: "common_decode_fuel = Suc (Suc n)" using that [of 13] by (simp add: common_decode_fuel_def)
  obtain d' where d': "common_decode_loop common_decode_fuel spec (False, ?d) = Some (False, d')" "waiting spec d'" "same_context ?d d'"
    using space_passed [of ?d n spec False] r unfolding n by (auto simp: with_sample_def)
  then have "infrared_common_decode spec d False t = Some (None, d')"
    using common_decode_eq [of d False spec t] r by (simp add: INFRARED_SAMPLES_def)
  then show ?thesis using d'(2,3) by (auto simp: same_context_def with_sample_def)
qed

text \<open>The long space behind the last pulse.\<close>

lemma gap_reported:
  assumes d: "receiving d True bs" and gap: "min_split_time (timings spec) < t"
    and len: "length bs \<in> set (databit_lens (spec_data spec))" "length (d_data d) = infrared_data_bytes (spec_data spec)"
    and m0: "min_split_time (timings spec) \<noteq> 0" and no_repeat: "decode_repeat spec = None"
    and msg: "\<And>d. holds_bits spec d bs \<Longrightarrow> d_message d = m0 \<Longrightarrow> d_toggle d = t0 \<Longrightarrow>
        \<exists>ds. interpret_bits spec d = Some (True, d \<lparr>d_data := ds, d_message := m, d_toggle := tg\<rparr>) \<and> length ds = length (d_data d)"
      "d_message d = m0" "d_toggle d = t0"
  shows "\<exists>d'. infrared_common_decode spec d False t = Some (Some m, d') \<and> waiting spec d' \<and>
    d_message d' = m \<and> d_toggle d' = tg \<and> length (d_data d') = length (d_data d)"
proof -
  note r = d [unfolded receiving_def]
  let ?d = "with_sample d False t"
  have s: "d_timings_cnt ?d = 1" "d_timings ?d ! 0 = t" "length (d_timings ?d) = INFRARED_SAMPLES" "\<not> d_level ?d" "d_databit_cnt ?d = length bs"
    "d_state ?d = InfraredCommonDecoderStateDecode" "holds_bits spec ?d bs" "d_message ?d = m0" "d_toggle ?d = t0"
    using r len msg(2,3) by (simp_all add: with_sample_def INFRARED_SAMPLES_def holds_bits_def)
  obtain ds where ds: "interpret_bits spec ?d = Some (True, ?d \<lparr>d_data := ds, d_message := m, d_toggle := tg\<rparr>)" "length ds = length (d_data d)"
    using msg(1) [OF s(7-9)] by (auto simp: with_sample_def)
  let ?r = "?d \<lparr>d_data := ds, d_message := m, d_toggle := tg, d_databit_cnt := 0, d_state := InfraredCommonDecoderStateWaitPreamble\<rparr>"
  have found: "d_databit_cnt ?d \<in> set (databit_lens (spec_data spec))" using s(5) len(1) by simp
  have "decode_bits_step spec ?d = Some (Inl (InfraredStatusReady, ?d))"
    using s gap found m0 by (simp add: decode_bits_step_def Let_def rd_def INFRARED_SAMPLES_def)
  moreover have "infrared_common_decoder_check_ready spec ?d = Some (True, ?r)"
    using found ds(1) no_repeat by (simp add: infrared_common_decoder_check_ready_def)
  ultimately have a: "common_decode_step spec (False, ?d) = Some (Inr (True, ?r))"
    using s(1,6) by (simp add: common_decode_step_def decode_bits_left)
  obtain n where n: "common_decode_fuel = Suc (Suc (Suc n))" using that [of 12] by (simp add: common_decode_fuel_def)
  obtain d' where d': "common_decode_loop (Suc (Suc n)) spec (True, ?r) = Some (True, d')" "waiting spec d'" "same_context ?r d'"
    using space_passed [of ?r n spec True] s by auto
  have "common_decode_loop common_decode_fuel spec (False, ?d) = Some (True, d')" unfolding n using a d'(1) by simp
  then have "infrared_common_decode spec d False t = Some (Some (d_message d'), d')"
    using common_decode_eq [of d False spec t] r by (simp add: INFRARED_SAMPLES_def)
  then show ?thesis using d'(2,3) ds(2) by (auto simp: same_context_def)
qed

text \<open>The half bits with the status of each call.\<close>

definition finished :: "(bool \<times> nat) list \<Rightarrow> (InfraredStatus \<times> bool \<times> nat) list" where
  "finished xs = map (Pair InfraredStatusOk) (butlast xs) @ [(InfraredStatusDone, last xs)]"

lemma finished_Cons: "xs \<noteq> [] \<Longrightarrow> finished (x # xs) = (InfraredStatusOk, x) # finished xs"
  by (simp add: finished_def)

lemma finished_one [simp]: "finished [x] = [(InfraredStatusDone, x)]"
  by (simp add: finished_def)

definition sending_halves :: "InfraredCommonEncoder \<Rightarrow> bool list \<Rightarrow> nat \<Rightarrow> bool" where
  "sending_halves e bs k \<longleftrightarrow> encodes_bits e bs \<and> e_state e = InfraredCommonEncoderStateEncode \<and> bits_encoded e = k \<and>
     odd (timings_encoded e) \<and> timings_encoded e \<le> 3 + 2 * k"

text \<open>All that is sent for one message, where \<open>w k\<close> is the width of a half of bit \<open>k\<close>.\<close>

definition message_halves :: "InfraredCommonProtocolSpec \<Rightarrow> (nat \<Rightarrow> nat) \<Rightarrow> bool list \<Rightarrow> (bool \<times> nat) list" where
  "message_halves spec w bs = (False, silence_time (timings spec)) #
     (if preamble_mark (timings spec) = 0 then [] else [(True, preamble_mark (timings spec)), (False, preamble_space (timings spec))]) @
     halves w 0 bs"

lemma message_halves_ends:
  "bs \<noteq> [] \<Longrightarrow> message_halves spec w bs \<noteq> [] \<and> fst (last (message_halves spec w bs)) \<and> \<not> fst (hd (message_halves spec w bs))"
  using halves_last [of bs w 0] by (simp add: message_halves_def)

lemma snd_finished: "xs \<noteq> [] \<Longrightarrow> map snd (finished xs) = xs"
  by (simp add: finished_def comp_def)

lemma merge_not_Nil: "xs \<noteq> [] \<Longrightarrow> merge_levels xs \<noteq> []"
  by (induction xs rule: merge_levels.induct) auto

lemma merge_copies:
  assumes "xs \<noteq> []" "fst (last xs)" "\<not> fst (hd xs)"
  shows "merge_levels (concat (replicate k xs)) = concat (replicate k (merge_levels xs))"
proof (induction k)
  case (Suc k)
  have "concat (replicate k xs) \<noteq> [] \<Longrightarrow> hd (concat (replicate k xs)) = hd xs" using assms(1) by (cases k) auto
  then show ?case using Suc merge_append [of xs "concat (replicate k xs)"] assms by (cases "concat (replicate k xs) = []") auto
qed simp

text \<open>
  A decoder reports a repetition when the message is the one it has, with the toggle bit it has.
\<close>

definition repeats :: "InfraredCommonDecoder \<Rightarrow> InfraredMessage \<Rightarrow> bool \<Rightarrow> bool" where
  "repeats d m tg \<longleftrightarrow> address (d_message d) = address m \<and> command (d_message d) = command m \<and>
     protocol (d_message d) = protocol m \<and> tg = d_toggle d"

locale manchester_protocol =
  fixes spec :: InfraredCommonProtocolSpec and width :: "nat \<Rightarrow> nat" and special :: "nat set"
  assumes times: "manchester_times (timings spec)"
    and decode_fn: "d_databit_cnt d \<notin> special \<Longrightarrow>
      decode spec (spec_data spec) d lv t = infrared_common_decode_manchester (spec_data spec) d lv t"
    and encode_fn: "encode spec (spec_data spec) e = do {
      (s, _, l, e') \<leftarrow> infrared_common_encode_manchester (spec_data spec) e; Some (s, width (bits_encoded e), l, e') }"
    and lens: "databit_len spec \<noteq> []" "databit_len spec ! 0 < 2 ^ 8 - 1" "1 < databit_len spec ! 0"
      "databit_lens (spec_data spec) = [databit_len spec ! 0]"
    and no_repeat: "decode_repeat spec = None" "encode_repeat spec = None"
begin

lemma match_one: "MATCH_TIMING t (bit1_mark (timings spec)) (bit_tolerance (timings spec)) \<longleftrightarrow> pulse_of (timings spec) 1 t"
  using match_pulse [OF times, of 1] by simp

lemma match_two: "MATCH_TIMING t (2 * bit1_mark (timings spec)) (bit_tolerance (timings spec)) \<longleftrightarrow> pulse_of (timings spec) 2 t"
  using match_pulse [OF times, of 2] by simp

lemma pulse_short: "pulse_of (timings spec) n t \<Longrightarrow> n \<le> 2 \<Longrightarrow> t \<le> min_split_time (timings spec)"
proof -
  assume p: "pulse_of (timings spec) n t" and n: "n \<le> 2"
  have "n * bit1_mark (timings spec) \<le> 2 * bit1_mark (timings spec)" using n by (simp only: mult_le_mono1)
  then show ?thesis using p times unfolding pulse_of_def manchester_times_def by linarith
qed

text \<open>A pulse that ends the first half of a bit.\<close>

lemma feed_first_half:
  assumes d: "receiving d (\<not> lv) bs" and len: "length bs < databit_len spec ! 0" "databit_len spec ! 0 \<le> 8 * length (d_data d)"
    and t: "lv \<or> t \<le> min_split_time (timings spec)"
    and dec: "decode spec (spec_data spec) (with_sample d lv t) lv t =
      do { d \<leftarrow> accumulate_lsb (with_sample d lv t \<lparr>d_switch_detect := True\<rparr>) lv; Some (InfraredStatusOk, d) }"
  shows "\<exists>d'. infrared_common_decode spec d lv t = Some (None, d') \<and> mid_bit d' (bs @ [lv]) \<and> same_context d d'"
proof -
  note r = d [unfolded receiving_def]
  let ?d = "with_sample d lv t \<lparr>d_switch_detect := True\<rparr>"
  have s: "d_databit_cnt ?d = length bs" "d_data ?d = d_data d" "clean_from (d_data ?d) (length bs)"
    using r by (simp_all add: with_sample_def)
  obtain ds where ds: "accumulate_lsb ?d lv = Some (?d \<lparr>d_data := ds, d_databit_cnt := length bs + 1\<rparr>)"
    "length ds = length (d_data d)" "data_bit ds (length bs) = lv"
    "\<forall>i<length bs. data_bit ds i = data_bit (d_data d) i" "clean_from ds (length bs + 1)"
    using accumulate [of "length bs" ?d lv] s len lens(2) by auto
  let ?d1 = "?d \<lparr>d_data := ds, d_databit_cnt := length bs + 1\<rparr>"
  have m0: "min_split_time (timings spec) \<noteq> 0" using times by (auto simp: manchester_times_def)
  have "infrared_common_decode spec d lv t = Some (None, ?d1 \<lparr>d_timings_cnt := 0\<rparr>)"
    by (rule feed_accepted) (use r t m0 len dec ds(1) in \<open>auto simp: with_sample_def\<close>)
  moreover have "mid_bit (?d1 \<lparr>d_timings_cnt := 0\<rparr>) (bs @ [lv])"
    using r ds by (simp add: receiving_def with_sample_def nth_append less_Suc_eq)
  moreover have "same_context d (?d1 \<lparr>d_timings_cnt := 0\<rparr>)" using ds(2) by (simp add: same_context_def with_sample_def)
  ultimately show ?thesis by blast
qed

text \<open>A pulse of one half: the second half of a bit, then the first of the next.\<close>

lemma feed_second_half:
  assumes d: "receiving d (\<not> lv) bs" "d_switch_detect d" and bs: "bs \<noteq> []" "length bs \<le> databit_len spec ! 0" "length bs \<notin> special"
    and t: "pulse_of (timings spec) 1 t" "lv \<or> length bs < databit_len spec ! 0"
  shows "\<exists>d'. infrared_common_decode spec d lv t = Some (None, d') \<and> receiving d' lv bs \<and> \<not> d_switch_detect d' \<and> same_context d d'"
proof -
  note r = d(1) [unfolded receiving_def]
  let ?d = "with_sample d lv t"
  have s: "d_databit_cnt ?d = length bs" "d_switch_detect ?d" using r d(2) by (simp_all add: with_sample_def)
  have m0: "min_split_time (timings spec) \<noteq> 0" using times by (auto simp: manchester_times_def)
  have dec: "decode spec (spec_data spec) ?d lv t = Some (InfraredStatusOk, ?d \<lparr>d_switch_detect := False\<rparr>)"
    using s bs t match_one by (subst decode_fn) (auto intro!: manchester_second_half)
  have "infrared_common_decode spec d lv t = Some (None, ?d \<lparr>d_switch_detect := False, d_timings_cnt := 0\<rparr>)"
    by (rule feed_accepted [OF _ _ _ _ _ _ dec])
      (use r t pulse_short [OF t(1)] m0 bs in \<open>auto simp: with_sample_def\<close>)
  moreover have "receiving (?d \<lparr>d_switch_detect := False, d_timings_cnt := 0\<rparr>) lv bs"
    using r by (simp add: receiving_def with_sample_def)
  ultimately show ?thesis by (simp add: same_context_def with_sample_def)
qed

text \<open>The pulses of one more bit: two short ones for the value of the last bit, a long one for the other value.\<close>

lemma feed_next_bit:
  assumes d: "mid_bit d bs" and bs: "bs \<noteq> []" "length bs < databit_len spec ! 0" "length bs \<notin> special"
    and room: "databit_len spec ! 0 \<le> 8 * length (d_data d)"
    and ss: "heard_as (bit_tolerance (timings spec))
      (if c = last bs then [(\<not> c, bit1_mark (timings spec)), (c, bit1_mark (timings spec))] else [(c, 2 * bit1_mark (timings spec))]) ss"
  shows "\<exists>d'. infrared_feed spec d ss = Some ([], d') \<and> mid_bit d' (bs @ [c]) \<and> same_context d d'"
proof -
  have wf: "d_databit_cnt d1 \<noteq> 0 \<or> \<not> manchester_start_from_space spec" "d_databit_cnt d1 \<noteq> databit_len spec ! 0" "d_databit_cnt d1 \<notin> special"
    if "receiving d1 lv bs" for d1 lv
    using that bs by (auto simp: receiving_def)
  show ?thesis
  proof (cases "c = last bs")
    case True
    obtain t u where ss: "ss = [(\<not> c, t), (c, u)]" "pulse_of (timings spec) 1 t" "pulse_of (timings spec) 1 u"
      using ss True by (auto simp: heard_Cons pulse_of_def)
    obtain d1 where d1: "infrared_common_decode spec d (\<not> c) t = Some (None, d1)" "receiving d1 (\<not> c) bs" "\<not> d_switch_detect d1" "same_context d d1"
      using feed_second_half [of d "\<not> c" bs t] d bs True ss(2) by auto
    have "\<not> pulse_of (timings spec) 2 u" using pulse_unique [OF times ss(3), of 2] by auto
    then have "decode spec (spec_data spec) (with_sample d1 c u) c u =
        do { d \<leftarrow> accumulate_lsb (with_sample d1 c u \<lparr>d_switch_detect := True\<rparr>) c; Some (InfraredStatusOk, d) }"
      using wf [OF d1(2)] d1(3) ss(3) match_one match_two
      by (subst decode_fn) (auto simp: with_sample_def intro!: manchester_cases(1))
    then obtain d2 where d2: "infrared_common_decode spec d1 c u = Some (None, d2)" "mid_bit d2 (bs @ [c])" "same_context d1 d2"
      using feed_first_half [of d1 c bs u] d1 bs room pulse_short [OF ss(3)] by (auto simp: same_context_def)
    show ?thesis using ss(1) d1(1) d2 same_context_trans [OF d1(4) d2(3)] by simp
  next
    case False
    then have c: "(\<not> last bs) = c" by blast
    obtain t where ss: "ss = [(c, t)]" "pulse_of (timings spec) 2 t" using ss False by (auto simp: heard_Cons pulse_of_def)
    have "\<not> pulse_of (timings spec) 1 t" using pulse_unique [OF times ss(2), of 1] by auto
    then have "decode spec (spec_data spec) (with_sample d c t) c t =
        do { d \<leftarrow> accumulate_lsb (with_sample d c t \<lparr>d_switch_detect := True\<rparr>) c; Some (InfraredStatusOk, d) }"
      using wf [OF conjunct1 [OF d]] d ss(2) match_one match_two
      by (subst decode_fn) (auto simp: with_sample_def intro!: manchester_cases(2))
    moreover have "receiving d (\<not> c) bs" using d c by auto
    ultimately show ?thesis using feed_first_half [of d c bs t] bs room pulse_short [OF ss(2)] ss(1) by auto
  qed
qed

lemma feed_pulses:
  assumes "mid_bit d bs" "bs \<noteq> []" "heard_as (bit_tolerance (timings spec)) (pulses (last bs) (bit1_mark (timings spec)) w (length bs) cs) ss"
    "length bs + length cs \<le> databit_len spec ! 0" "databit_len spec ! 0 \<le> 8 * length (d_data d)"
    "\<forall>k\<ge>length bs. w k = bit1_mark (timings spec) \<and> k \<notin> special"
  shows "\<exists>d'. infrared_feed spec d ss = Some ([], d') \<and> receiving d' True (bs @ cs) \<and> same_context d d'"
  using assms
proof (induction cs arbitrary: d bs ss)
  case Nil
  show ?case
  proof (cases "last bs")
    case True
    then show ?thesis using Nil.prems by simp
  next
    case False
    then obtain t where ss: "ss = [(True, t)]" "pulse_of (timings spec) 1 t" using Nil.prems(3) by (auto simp: heard_Cons pulse_of_def)
    obtain d' where "infrared_common_decode spec d True t = Some (None, d')" "receiving d' True bs" "same_context d d'"
      using feed_second_half [of d True bs t] Nil.prems False ss(2) by auto
    then show ?thesis using ss by simp
  qed
next
  case (Cons c cs)
  let ?h = "bit1_mark (timings spec)"
  let ?ps = "if c = last bs then [(\<not> c, ?h), (c, ?h)] else [(c, 2 * ?h)]"
  have w: "w (length bs) = ?h" "length bs \<notin> special" using Cons.prems(6) by auto
  have "pulses (last bs) ?h w (length bs) (c # cs) = ?ps @ pulses c ?h w (Suc (length bs)) cs"
    using w(1) by (cases c; cases "last bs") (simp_all add: mult_2)
  then obtain us vs where ss: "ss = us @ vs" "heard_as (bit_tolerance (timings spec)) ?ps us"
    "heard_as (bit_tolerance (timings spec)) (pulses c ?h w (Suc (length bs)) cs) vs"
    using Cons.prems(3) by (metis heard_append)
  obtain d1 where d1: "infrared_feed spec d us = Some ([], d1)" "mid_bit d1 (bs @ [c])" "same_context d d1"
    using feed_next_bit [OF Cons.prems(1,2) _ w(2) Cons.prems(5) ss(2)] Cons.prems(4) by auto
  obtain d2 where d2: "infrared_feed spec d1 vs = Some ([], d2)" "receiving d2 True (bs @ c # cs)" "same_context d1 d2"
    using Cons.IH [of d1 "bs @ [c]" vs] d1 ss(3) Cons.prems(4-6) by (auto simp: same_context_def)
  have "infrared_feed spec d ss = Some ([], d2)" using ss(1) d2(1) infrared_feed_then [OF d1(1)] by simp
  then show ?case using d2(2) same_context_trans [OF d1(3) d2(3)] by blast
qed

lemma feed_gap:
  assumes "receiving d True bs" "min_split_time (timings spec) < t" "length bs = databit_len spec ! 0" "length (d_data d) = infrared_data_bytes (spec_data spec)"
    and "\<And>d. holds_bits spec d bs \<Longrightarrow> d_message d = m0 \<Longrightarrow> d_toggle d = t0 \<Longrightarrow>
        \<exists>ds. interpret_bits spec d = Some (True, d \<lparr>d_data := ds, d_message := m, d_toggle := tg\<rparr>) \<and> length ds = length (d_data d)"
    and "d_message d = m0" "d_toggle d = t0"
  shows "\<exists>d'. infrared_common_decode spec d False t = Some (Some m, d') \<and> waiting spec d' \<and>
    d_message d' = m \<and> d_toggle d' = tg \<and> length (d_data d') = length (d_data d)"
proof (rule gap_reported [OF assms(1,2) _ assms(4) _ no_repeat(1) assms(5-7)])
  show "length bs \<in> set (databit_lens (spec_data spec))" using assms(3) lens(4) by simp
  show "min_split_time (timings spec) \<noteq> 0" using times unfolding manchester_times_def by linarith
qed

text \<open>The encoder: the calls for one bit, and for a message.\<close>

lemma send_half:
  assumes e: "encodes_bits e bs" "e_state e = InfraredCommonEncoderStateEncode" "bits_encoded e = k" "k < length bs"
    "timings_encoded e + 1 < 2 ^ 32"
  defines "lv \<equiv> (even (timings_encoded e) \<noteq> bs ! k)"
  defines "k' \<equiv> if even (timings_encoded e) \<or> lv \<and> Suc k = length bs then Suc k else k"
  shows "\<exists>e'. infrared_common_encode spec e = Some (if k' = length bs \<and> lv then InfraredStatusDone else InfraredStatusOk, width k, lv, e') \<and>
    (if k' = length bs \<and> lv then encoder_ready e' bs
     else encodes_bits e' bs \<and> e_state e' = InfraredCommonEncoderStateEncode \<and> bits_encoded e' = k' \<and> timings_encoded e' = Suc (timings_encoded e))"
proof -
  have v: "encoder_logic_value e = Some (bs ! k)" using logic_value [of e] e by (simp add: encodes_bits_def)
  have b: "bits_to_encode e = length bs" "(k + 1) mod 2 ^ 8 = Suc k" "k \<noteq> length bs" using e(1,4) by (auto simp: encodes_bits_def)
  have "infrared_common_encode_manchester (spec_data spec) e = Some (InfraredStatusOk, bit1_mark (timings spec), lv, e \<lparr>bits_encoded := k'\<rparr>)"
    using v b e(3) unfolding infrared_common_encode_manchester_def lv_def k'_def
    by (cases "even (timings_encoded e)") (auto simp: Let_def even_iff_mod_2_eq_zero)
  then have enc: "encode spec (spec_data spec) e = Some (InfraredStatusOk, width k, lv, e \<lparr>bits_encoded := k'\<rparr>)"
    using encode_fn [of e] e(3) by simp
  show ?thesis using e(1,2,5) b(1) enc no_repeat(2)
    by (auto simp: infrared_common_encode_def common_encode_payload_def infrared_common_encode_bits_def encoder_ready_def encodes_bits_def)
qed

lemma send_halves:
  "sending_halves e bs k \<Longrightarrow> k < length bs \<Longrightarrow>
   \<exists>n e'. infrared_transmit spec (Suc n) e = Some (finished (halves width k (drop k bs)), e') \<and> encoder_ready e' bs"
proof (induction "length bs - k" arbitrary: e k)
  case (Suc m)
  note e = Suc.prems(1) [unfolded sending_halves_def]
  have len: "length bs < 255" using e by (simp add: encodes_bits_def)
  have t: "timings_encoded e + 1 < 2 ^ 32" "Suc (timings_encoded e) + 1 < 2 ^ 32" "odd (timings_encoded e)"
    using e len Suc.prems(2) by auto
  have drop: "drop k bs = bs ! k # drop (Suc k) bs" using Suc.prems(2) by (simp add: Cons_nth_drop_Suc)
  show ?case
  proof (cases "Suc k = length bs \<and> bs ! k")
    case True
    then obtain e' where "infrared_common_encode spec e = Some (InfraredStatusDone, width k, True, e')" "encoder_ready e' bs"
      using send_half [of e bs k] e Suc.prems(2) t(1) by auto
    then show ?thesis using True drop by (intro exI [of _ 0] exI [of _ e']) simp
  next
    case False
    then obtain e1 where e1: "infrared_common_encode spec e = Some (InfraredStatusOk, width k, bs ! k, e1)"
      "encodes_bits e1 bs" "e_state e1 = InfraredCommonEncoderStateEncode" "bits_encoded e1 = k" "timings_encoded e1 = Suc (timings_encoded e)"
      using send_half [of e bs k] e Suc.prems(2) t(1,3) by (auto split: if_splits)
    obtain e2 where e2: "infrared_common_encode spec e1 =
        Some (if Suc k = length bs then InfraredStatusDone else InfraredStatusOk, width k, \<not> bs ! k, e2)"
      "if Suc k = length bs then encoder_ready e2 bs else encodes_bits e2 bs \<and> e_state e2 = InfraredCommonEncoderStateEncode \<and>
        bits_encoded e2 = Suc k \<and> timings_encoded e2 = Suc (Suc (timings_encoded e))"
      using send_half [of e1 bs k] e1 Suc.prems(2) t False by (auto split: if_splits)
    show ?thesis
    proof (cases "Suc k = length bs")
      case True
      then show ?thesis using e1(1) e2 False drop by (intro exI [of _ 1] exI [of _ e2]) (simp add: finished_Cons)
    next
      case no: False
      then have "sending_halves e2 bs (Suc k)" "Suc k < length bs" "m = length bs - Suc k"
        using e2(2) e Suc.prems(2) Suc.hyps(2) by (auto simp: sending_halves_def)
      then obtain n e' where n: "infrared_transmit spec (Suc n) e2 = Some (finished (halves width (Suc k) (drop (Suc k) bs)), e')" "encoder_ready e' bs"
        using Suc.hyps(1) by blast
      obtain c cs where cs: "drop (Suc k) bs = c # cs" using \<open>Suc k < length bs\<close> by (simp add: Cons_nth_drop_Suc [symmetric])
      have "infrared_transmit spec (Suc (Suc (Suc n))) e = Some (finished (halves width k (drop k bs)), e')"
        using e1(1) e2(1) n(1) no halves_last [of "c # cs" width "Suc k"] unfolding drop cs
        by (simp del: infrared_transmit.simps(2) add: infrared_transmit.simps(2) [of spec "Suc (Suc n)"] infrared_transmit.simps(2) [of spec "Suc n"] finished_Cons)
      then show ?thesis using n(2) by blast
    qed
  qed
qed simp

lemma send_message:
  assumes e: "encoder_ready e bs"
  shows "\<exists>n e'. infrared_transmit spec n e = Some (finished (message_halves spec width bs), e') \<and> encoder_ready e' bs"
proof -
  note r = e [unfolded encoder_ready_def]
  let ?ts = "timings spec"
  have bs: "bs \<noteq> []" using r by (auto simp: encodes_bits_def)
  note h = halves_last [OF bs, of width 0]
  let ?e1 = "e \<lparr>e_state := InfraredCommonEncoderStatePreamble, timings_encoded := 1, timings_sum := 0\<rparr>"
  have e1: "infrared_common_encode spec e = Some (InfraredStatusOk, silence_time ?ts, False, ?e1)"
    using r by (simp add: infrared_common_encode_def)
  show ?thesis
  proof (cases "preamble_mark ?ts = 0")
    case True
    let ?e2 = "?e1 \<lparr>e_state := InfraredCommonEncoderStateEncode\<rparr>"
    have "infrared_common_encode spec ?e1 = infrared_common_encode spec ?e2" using True by (simp add: infrared_common_encode_def)
    then have same: "infrared_transmit spec (Suc n) ?e1 = infrared_transmit spec (Suc n) ?e2" for n by simp
    have "sending_halves ?e2 bs 0" using r by (simp add: sending_halves_def encodes_bits_def)
    then obtain n e' where n: "infrared_transmit spec (Suc n) ?e2 = Some (finished (halves width 0 bs), e')" "encoder_ready e' bs"
      using send_halves [of ?e2 bs 0] bs by auto
    have "infrared_transmit spec (Suc (Suc n)) e = Some (finished (message_halves spec width bs), e')"
      using e1 n(1) True h unfolding same [symmetric] by (simp add: message_halves_def finished_Cons del: infrared_transmit.simps(2) add: infrared_transmit.simps(2) [of spec "Suc n"])
    then show ?thesis using n(2) by blast
  next
    case False
    have p: "preamble_mark ?ts < 2 ^ 16" "preamble_space ?ts < 2 ^ 16" using times by (auto simp: manchester_times_def)
    let ?e2 = "?e1 \<lparr>timings_encoded := 2, timings_sum := preamble_mark ?ts\<rparr>"
    let ?e3 = "?e1 \<lparr>e_state := InfraredCommonEncoderStateEncode, timings_encoded := 3, timings_sum := preamble_mark ?ts + preamble_space ?ts\<rparr>"
    have e23: "infrared_common_encode spec ?e1 = Some (InfraredStatusOk, preamble_mark ?ts, True, ?e2)"
      "infrared_common_encode spec ?e2 = Some (InfraredStatusOk, preamble_space ?ts, False, ?e3)"
      using False p by (simp_all add: infrared_common_encode_def)
    have "sending_halves ?e3 bs 0" using r by (simp add: sending_halves_def encodes_bits_def)
    then obtain n e' where n: "infrared_transmit spec (Suc n) ?e3 = Some (finished (halves width 0 bs), e')" "encoder_ready e' bs"
      using send_halves [of ?e3 bs 0] bs by auto
    have "infrared_transmit spec (3 + Suc n) e = Some (finished (message_halves spec width bs), e')"
      unfolding infrared_transmit_add numeral_3_eq_3 using e1 e23 n(1) False h
      by (simp add: message_halves_def finished_Cons del: infrared_transmit.simps(2) add: infrared_transmit.simps(2) [of spec "Suc (Suc 0)"]
          infrared_transmit.simps(2) [of spec "Suc 0"] infrared_transmit.simps(2) [of spec "0"])
    then show ?thesis using n(2) by blast
  qed
qed

lemma encode_keeps_data: "infrared_common_encode spec e = Some (s, t, l, e') \<Longrightarrow> e_data e' = e_data e"
proof -
  have m: "infrared_common_encode_manchester pd e = Some (s, t, l, e') \<Longrightarrow> e_data e' = e_data e" for pd e s t l e'
    by (auto simp: infrared_common_encode_manchester_def Let_def split: bind_splits if_splits)
  have "encode spec (spec_data spec) e = Some (s, t, l, e') \<Longrightarrow> e_data e' = e_data e" for e s t l e'
    unfolding encode_fn by (auto dest: m split: bind_splits)
  then have "common_encode_payload spec e = Some (s, t, l, e') \<Longrightarrow> e_data e' = e_data e" for e s t l e'
    by (fastforce simp: common_encode_payload_def infrared_common_encode_bits_def split: bind_splits if_splits)
  then show "infrared_common_encode spec e = Some (s, t, l, e') \<Longrightarrow> e_data e' = e_data e"
    using no_repeat(2) by (fastforce simp: infrared_common_encode_def split: InfraredCommonStateEncoder.splits if_splits)
qed

lemma transmit_keeps_data: "infrared_transmit spec n e = Some (ss, e') \<Longrightarrow> e_data e' = e_data e"
proof (induction n arbitrary: e ss)
  case (Suc n)
  then obtain s t l e1 ss' where "infrared_common_encode spec e = Some (s, t, l, e1)" "infrared_transmit spec n e1 = Some (ss', e')"
    by (auto split: bind_splits)
  then show ?case using Suc.IH encode_keeps_data by metis
qed simp

text \<open>A message again and again, as long as a key is held.\<close>

lemma send_messages:
  assumes e: "encoder_ready e bs"
  shows "\<exists>n e'. infrared_transmit spec n e = Some (concat (replicate k (finished (message_halves spec width bs))), e') \<and> encoder_ready e' bs"
proof (induction k)
  case 0
  then show ?case using e by (intro exI [of _ 0]) simp
next
  case (Suc k)
  then obtain n e1 where n: "infrared_transmit spec n e = Some (concat (replicate k (finished (message_halves spec width bs))), e1)" "encoder_ready e1 bs"
    by blast
  obtain n' e2 where n': "infrared_transmit spec n' e1 = Some (finished (message_halves spec width bs), e2)" "encoder_ready e2 bs"
    using send_message [OF n(2)] by blast
  have "concat (replicate (Suc k) (finished (message_halves spec width bs))) =
      concat (replicate k (finished (message_halves spec width bs))) @ finished (message_halves spec width bs)"
    by (metis append_Nil2 concat.simps concat_append replicate_Suc replicate_append_same)
  then have "infrared_transmit spec (n + n') e = Some (concat (replicate (Suc k) (finished (message_halves spec width bs))), e2)"
    using n(1) n'(1) by (simp only: infrared_transmit_add) simp
  then show ?case using n'(2) by blast
qed

end

text \<open>
  Keys that are pressed: each press resets the encoder to a message and sends it, and then \<open>k\<close> times more.
\<close>

fun presses_sent :: "(InfraredEncoderRC \<Rightarrow> InfraredMessage \<Rightarrow> InfraredEncoderRC option) \<Rightarrow> InfraredCommonProtocolSpec \<Rightarrow> InfraredEncoderRC \<Rightarrow>
   (InfraredMessage \<times> nat) list \<Rightarrow> (InfraredStatus \<times> bool \<times> nat) list \<Rightarrow> bool" where
  "presses_sent reset_fn spec e [] sent \<longleftrightarrow> sent = []"
| "presses_sent reset_fn spec e ((m, k) # ps) sent \<longleftrightarrow> (\<exists>e1 n s1 ce s2. reset_fn e m = Some e1 \<and>
     infrared_transmit spec n (common_encoder e1) = Some (s1, ce) \<and>
     fst (last s1) = InfraredStatusDone \<and> length (filter (\<lambda>s. fst s = InfraredStatusDone) s1) = Suc k \<and>
     presses_sent reset_fn spec (e1 \<lparr>common_encoder := ce\<rparr>) ps s2 \<and> sent = s1 @ s2)"

text \<open>The signal of the presses, where \<open>sig m tg\<close> is that of a message with a toggle bit.\<close>

fun press_signal :: "(InfraredMessage \<Rightarrow> bool \<Rightarrow> (bool \<times> nat) list) \<Rightarrow> bool \<Rightarrow> (InfraredMessage \<times> nat) list \<Rightarrow> (bool \<times> nat) list" where
  "press_signal sig tg [] = []"
| "press_signal sig tg ((m, k) # ps) = concat (replicate (Suc k) (sig m tg)) @ press_signal sig (\<not> tg) ps"

text \<open>The messages that a receiver is to report.\<close>

definition presses_reported :: "(InfraredMessage \<times> nat) list \<Rightarrow> InfraredMessage list" where
  "presses_reported ps = concat (map (\<lambda>(m, k). m \<lparr>repeat := False\<rparr> # replicate k (m \<lparr>repeat := True\<rparr>)) ps)"

text \<open>
  A Manchester protocol with a toggle bit: its messages, the bits of a message, and what the start of a
  message looks like to a decoder.
\<close>

locale toggle_protocol = manchester_protocol spec width special
  for spec :: InfraredCommonProtocolSpec and width :: "nat \<Rightarrow> nat" and special :: "nat set" +
  fixes carried :: "InfraredMessage \<Rightarrow> bool" and message_bits :: "InfraredMessage \<Rightarrow> bool \<Rightarrow> bool list"
    and reset_fn :: "InfraredEncoderRC \<Rightarrow> InfraredMessage \<Rightarrow> InfraredEncoderRC option"
  assumes length_bits: "length (message_bits m tg) = databit_len spec ! 0"
    and first_space: "\<exists>s ps. merge_levels (message_halves spec width (message_bits m tg)) = (False, s) # ps \<and> silence_time (timings spec) \<le> s"
    and receive: "waiting spec d \<Longrightarrow> length (d_data d) = infrared_data_bytes (spec_data spec) \<Longrightarrow>
      heard_as (bit_tolerance (timings spec)) (tl (merge_levels (message_halves spec width (message_bits m tg)))) ss \<Longrightarrow>
      \<exists>d'. infrared_feed spec d ss = Some ([], d') \<and> receiving d' True (message_bits m tg) \<and> same_context d d'"
    and interpret_message: "carried m \<Longrightarrow> holds_bits spec d (message_bits m tg) \<Longrightarrow>
      \<exists>ds. interpret_bits spec d = Some (True, d \<lparr>d_data := ds, d_message := m \<lparr>repeat := repeats d m tg\<rparr>, d_toggle := tg\<rparr>) \<and>
        length ds = length (d_data d)"
    and reset_ready: "carried m \<Longrightarrow> length (e_data (common_encoder e)) = infrared_data_bytes (spec_data spec) \<Longrightarrow>
      \<exists>ce. reset_fn e m = Some (e \<lparr>common_encoder := ce, toggle_bit := \<not> toggle_bit e\<rparr>) \<and>
        encoder_ready ce (message_bits m (toggle_bit e)) \<and> length (e_data ce) = length (e_data (common_encoder e))"
begin

lemma feed_one:
  assumes m: "carried m" and d: "waiting spec d" "length (d_data d) = infrared_data_bytes (spec_data spec)"
    and ss: "heard_as (bit_tolerance (timings spec)) (tl (merge_levels (message_halves spec width (message_bits m tg)))) ss"
    and gap: "min_split_time (timings spec) < gap"
  shows "\<exists>d'. infrared_feed spec d (ss @ [(False, gap)]) = Some ([m \<lparr>repeat := repeats d m tg\<rparr>], d') \<and> waiting spec d' \<and>
    d_message d' = m \<lparr>repeat := repeats d m tg\<rparr> \<and> d_toggle d' = tg \<and> length (d_data d') = length (d_data d)"
proof -
  obtain d1 where d1: "infrared_feed spec d ss = Some ([], d1)" "receiving d1 True (message_bits m tg)" "same_context d d1"
    using receive [OF d ss] by blast
  have "\<exists>d'. infrared_common_decode spec d1 False gap = Some (Some (m \<lparr>repeat := repeats d m tg\<rparr>), d') \<and> waiting spec d' \<and>
    d_message d' = m \<lparr>repeat := repeats d m tg\<rparr> \<and> d_toggle d' = tg \<and> length (d_data d') = length (d_data d1)"
  proof (rule feed_gap [OF d1(2) gap length_bits])
    fix d2 assume "holds_bits spec d2 (message_bits m tg)" "d_message d2 = d_message d1" "d_toggle d2 = d_toggle d1"
    then show "\<exists>ds. interpret_bits spec d2 = Some (True, d2 \<lparr>d_data := ds, d_message := m \<lparr>repeat := repeats d m tg\<rparr>, d_toggle := tg\<rparr>) \<and>
        length ds = length (d_data d2)"
      using interpret_message [OF m, of d2 tg] d1(3) by (simp add: repeats_def same_context_def)
  qed (use d1(3) d(2) in \<open>simp_all add: same_context_def\<close>)
  then show ?thesis using infrared_feed_then [OF d1(1)] d1(3) by (auto simp: same_context_def)
qed

text \<open>A held key: the message, then repetitions of it.\<close>

lemma feed_held:
  assumes m: "carried m"
  shows "waiting spec d \<Longrightarrow> length (d_data d) = infrared_data_bytes (spec_data spec) \<Longrightarrow>
    heard_as (bit_tolerance (timings spec)) (tl (concat (replicate (Suc k) (merge_levels (message_halves spec width (message_bits m tg)))))) ss \<Longrightarrow>
    min_split_time (timings spec) < gap \<Longrightarrow>
    \<exists>d'. infrared_feed spec d (ss @ [(False, gap)]) = Some (m \<lparr>repeat := repeats d m tg\<rparr> # replicate k (m \<lparr>repeat := True\<rparr>), d') \<and>
      waiting spec d' \<and> repeats d' m tg \<and> length (d_data d') = length (d_data d)"
proof (induction k arbitrary: d ss)
  case 0
  then show ?case using feed_one [OF m, of d tg ss gap] by (auto simp: repeats_def)
next
  case (Suc k)
  let ?M = "merge_levels (message_halves spec width (message_bits m tg))"
  let ?tol = "bit_tolerance (timings spec)"
  obtain s ps where M: "?M = (False, s) # ps" "silence_time (timings spec) \<le> s" using first_space by blast
  have "tl (concat (replicate (Suc (Suc k)) ?M)) = ps @ (False, s) # tl (concat (replicate (Suc k) ?M))" using M(1) by simp
  then obtain us t vs where ss: "ss = us @ (False, t) # vs" "heard_as ?tol ps us" "s < t + ?tol" "heard_as ?tol (tl (concat (replicate (Suc k) ?M))) vs"
    using Suc.prems(3) by (auto elim!: heard_append simp: heard_Cons)
  have t: "min_split_time (timings spec) < t" using ss(3) M(2) times by (auto simp: manchester_times_def)
  obtain d1 where d1: "infrared_feed spec d (us @ [(False, t)]) = Some ([m \<lparr>repeat := repeats d m tg\<rparr>], d1)" "waiting spec d1"
    "d_message d1 = m \<lparr>repeat := repeats d m tg\<rparr>" "d_toggle d1 = tg" "length (d_data d1) = length (d_data d)"
    using feed_one [OF m Suc.prems(1,2), of tg us t] ss(2) t M(1) by auto
  have r: "repeats d1 m tg" using d1(3,4) by (simp add: repeats_def)
  obtain d2 where d2: "infrared_feed spec d1 (vs @ [(False, gap)]) = Some (m \<lparr>repeat := True\<rparr> # replicate k (m \<lparr>repeat := True\<rparr>), d2)"
    "waiting spec d2" "repeats d2 m tg" "length (d_data d2) = length (d_data d)"
    using Suc.IH [OF d1(2) _ ss(4) Suc.prems(4)] d1(5) Suc.prems(2) r by auto
  have "ss @ [(False, gap)] = (us @ [(False, t)]) @ vs @ [(False, gap)]" using ss(1) by simp
  then have "infrared_feed spec d (ss @ [(False, gap)]) =
      Some (m \<lparr>repeat := repeats d m tg\<rparr> # replicate (Suc k) (m \<lparr>repeat := True\<rparr>), d2)"
    using infrared_feed_then [OF d1(1)] d2(1) by simp
  then show ?case using d2 by blast
qed

text \<open>One press, as it is sent.\<close>

lemma press_sent:
  assumes m: "carried m" and e: "length (e_data (common_encoder e)) = infrared_data_bytes (spec_data spec)"
  obtains ce n ce' where "reset_fn e m = Some (e \<lparr>common_encoder := ce, toggle_bit := \<not> toggle_bit e\<rparr>)"
    "infrared_transmit spec n ce = Some (concat (replicate (Suc k) (finished (message_halves spec width (message_bits m (toggle_bit e))))), ce')"
    "length (e_data ce') = infrared_data_bytes (spec_data spec)"
proof -
  obtain ce where ce: "reset_fn e m = Some (e \<lparr>common_encoder := ce, toggle_bit := \<not> toggle_bit e\<rparr>)"
    "encoder_ready ce (message_bits m (toggle_bit e))" "length (e_data ce) = length (e_data (common_encoder e))"
    using reset_ready [OF m e] by blast
  obtain n ce' where n: "infrared_transmit spec n ce = Some (concat (replicate (Suc k) (finished (message_halves spec width (message_bits m (toggle_bit e))))), ce')"
    using send_messages [OF ce(2)] by blast
  show thesis using ce(3) e transmit_keeps_data [OF n] by (intro that [OF ce(1) n]) simp
qed

lemma copies_done:
  assumes "xs \<noteq> []"
  shows "fst (last (concat (replicate (Suc k) (finished xs)))) = InfraredStatusDone"
    and "length (filter (\<lambda>s. fst s = InfraredStatusDone) (concat (replicate k (finished xs)))) = k"
    and "map snd (concat (replicate k (finished xs))) = concat (replicate k xs)"
proof -
  have "concat (replicate (Suc k) (finished xs)) = concat (replicate k (finished xs)) @ finished xs"
    by (metis append_Nil2 concat.simps concat_append replicate_Suc replicate_append_same)
  then show "fst (last (concat (replicate (Suc k) (finished xs)))) = InfraredStatusDone" by (simp add: finished_def)
  have "filter (\<lambda>s. fst s = InfraredStatusDone) (finished xs) = [(InfraredStatusDone, last xs)]"
    by (simp add: finished_def filter_map comp_def)
  then show "length (filter (\<lambda>s. fst s = InfraredStatusDone) (concat (replicate k (finished xs)))) = k"
    by (induction k) simp_all
  show "map snd (concat (replicate k (finished xs))) = concat (replicate k xs)"
    using snd_finished [OF assms] by (induction k) simp_all
qed

abbreviation message_signal_of :: "InfraredMessage \<Rightarrow> bool \<Rightarrow> (bool \<times> nat) list" where
  "message_signal_of m tg \<equiv> message_halves spec width (message_bits m tg)"

lemma message_signal_ends:
  "message_signal_of m tg \<noteq> [] \<and> fst (last (message_signal_of m tg)) \<and> \<not> fst (hd (message_signal_of m tg))"
proof (rule message_halves_ends)
  show "message_bits m tg \<noteq> []" using length_bits [of m tg] lens(3) by auto
qed

lemma presses_are_sent:
  "\<forall>p\<in>set ps. carried (fst p) \<Longrightarrow> length (e_data (common_encoder e)) = infrared_data_bytes (spec_data spec) \<Longrightarrow>
   \<exists>sent. presses_sent reset_fn spec e ps sent \<and> map snd sent = press_signal message_signal_of (toggle_bit e) ps"
proof (induction ps arbitrary: e)
  case (Cons p ps)
  obtain m k where p: "p = (m, k)" by (cases p)
  have m: "carried m" using Cons.prems(1) p by simp
  let ?xs = "message_signal_of m (toggle_bit e)"
  have xs: "?xs \<noteq> []" using message_signal_ends by blast
  obtain ce n ce' where ce: "reset_fn e m = Some (e \<lparr>common_encoder := ce, toggle_bit := \<not> toggle_bit e\<rparr>)"
    "infrared_transmit spec n ce = Some (concat (replicate (Suc k) (finished ?xs)), ce')" "length (e_data ce') = infrared_data_bytes (spec_data spec)"
    by (rule press_sent [OF m Cons.prems(2)])
  let ?e1 = "e \<lparr>common_encoder := ce, toggle_bit := \<not> toggle_bit e\<rparr>"
  obtain s2 where s2: "presses_sent reset_fn spec (?e1 \<lparr>common_encoder := ce'\<rparr>) ps s2" "map snd s2 = press_signal message_signal_of (\<not> toggle_bit e) ps"
    using Cons.IH [of "?e1 \<lparr>common_encoder := ce'\<rparr>"] Cons.prems(1) ce(3) by auto
  let ?s1 = "concat (replicate (Suc k) (finished ?xs))"
  have tr: "infrared_transmit spec n (common_encoder ?e1) = Some (?s1, ce')" using ce(2) by simp
  have "presses_sent reset_fn spec e ((m, k) # ps) (?s1 @ s2)" unfolding presses_sent.simps
    by (intro exI [of _ ?e1] exI [of _ n] exI [of _ ?s1] exI [of _ ce'] exI [of _ s2] conjI, rule ce(1), rule tr, rule copies_done(1) [OF xs], rule copies_done(2) [OF xs], rule s2(1), rule refl)
  moreover have "map snd (?s1 @ s2) = press_signal message_signal_of (toggle_bit e) ((m, k) # ps)"
    unfolding map_append copies_done(3) [OF xs] s2(2) press_signal.simps by (rule refl)
  ultimately show ?case unfolding p by blast
qed simp

text \<open>The signal of the presses starts with a silence.\<close>

lemma press_signal_ends:
  assumes "ps \<noteq> []"
  shows "press_signal message_signal_of tg ps \<noteq> []" "\<not> fst (hd (press_signal message_signal_of tg ps))"
proof -
  obtain m k ps' where ps: "ps = (m, k) # ps'" using assms by (cases ps) auto
  then show "press_signal message_signal_of tg ps \<noteq> []" "\<not> fst (hd (press_signal message_signal_of tg ps))"
    using message_signal_ends [of m tg] by simp_all
qed

lemma merge_presses:
  "merge_levels (press_signal message_signal_of tg ((m, k) # ps)) =
     concat (replicate (Suc k) (merge_levels (message_signal_of m tg))) @ merge_levels (press_signal message_signal_of (\<not> tg) ps)"
proof -
  note e = message_signal_ends [of m tg]
  let ?s1 = "concat (replicate (Suc k) (message_signal_of m tg))"
  have "?s1 = concat (replicate k (message_signal_of m tg)) @ message_signal_of m tg"
    by (metis append_Nil2 concat.simps concat_append replicate_Suc replicate_append_same)
  then have l: "?s1 \<noteq> []" "fst (last ?s1)" using e by simp_all
  have c: "merge_levels ?s1 = concat (replicate (Suc k) (merge_levels (message_signal_of m tg)))" using merge_copies e by blast
  show ?thesis
  proof (cases "ps = []")
    case True
    then show ?thesis using c by simp
  next
    case False
    show ?thesis using merge_append [OF l(1) press_signal_ends(1) [OF False, of "\<not> tg"]] l(2) press_signal_ends(2) [OF False, of "\<not> tg"] c
      unfolding press_signal.simps by metis
  qed
qed

text \<open>A receiver that listens reports each press once as new and then as repeated.\<close>

lemma presses_heard:
  "ps \<noteq> [] \<Longrightarrow> \<forall>p\<in>set ps. carried (fst p) \<Longrightarrow> waiting spec d \<Longrightarrow> length (d_data d) = infrared_data_bytes (spec_data spec) \<Longrightarrow>
   \<not> repeats d (fst (hd ps)) tg \<Longrightarrow> min_split_time (timings spec) < gap \<Longrightarrow>
   heard_as (bit_tolerance (timings spec)) (tl (merge_levels (press_signal message_signal_of tg ps))) ss \<Longrightarrow>
   \<exists>d'. infrared_feed spec d (ss @ [(False, gap)]) = Some (presses_reported ps, d')"
proof (induction ps arbitrary: d tg ss)
  case (Cons p ps)
  obtain m k where p: "p = (m, k)" by (cases p)
  have m: "carried m" using Cons.prems(2) p by simp
  let ?M = "merge_levels (message_signal_of m tg)" and ?tol = "bit_tolerance (timings spec)"
  have M: "concat (replicate (Suc k) ?M) \<noteq> []" using merge_not_Nil message_signal_ends by auto
  have nr: "repeats d m tg = False" using Cons.prems(5) p by simp
  show ?case
  proof (cases "ps = []")
    case True
    then have h: "heard_as ?tol (tl (concat (replicate (Suc k) ?M))) ss"
      using Cons.prems(7) unfolding p merge_presses by simp
    then show ?thesis using feed_held [OF m Cons.prems(3,4) h Cons.prems(6)] True p nr by (auto simp: presses_reported_def)
  next
    case False
    obtain m' k' ps' where ps': "ps = (m', k') # ps'" using False by (cases ps) auto
    obtain s qs where "merge_levels (message_signal_of m' (\<not> tg)) = (False, s) # qs" "silence_time (timings spec) \<le> s" using first_space by blast
    then obtain s qs where s: "merge_levels (press_signal message_signal_of (\<not> tg) ps) = (False, s) # qs" "silence_time (timings spec) \<le> s"
      unfolding ps' merge_presses by auto
    have "heard_as ?tol (tl (concat (replicate (Suc k) ?M)) @ (False, s) # qs) ss"
      using Cons.prems(7) M unfolding p merge_presses s(1) by simp
    then obtain us t vs where ss: "ss = us @ (False, t) # vs" "heard_as ?tol (tl (concat (replicate (Suc k) ?M))) us" "s < t + ?tol" "heard_as ?tol qs vs"
      by (auto elim!: heard_append simp: heard_Cons)
    have t: "min_split_time (timings spec) < t" using ss(3) s(2) times by (auto simp: manchester_times_def)
    obtain d1 where d1: "infrared_feed spec d (us @ [(False, t)]) = Some (m \<lparr>repeat := False\<rparr> # replicate k (m \<lparr>repeat := True\<rparr>), d1)"
      "waiting spec d1" "repeats d1 m tg" "length (d_data d1) = length (d_data d)"
      using feed_held [OF m Cons.prems(3,4) ss(2) t] nr by auto
    have "\<not> repeats d1 (fst (hd ps)) (\<not> tg)" using d1(3) by (simp add: repeats_def)
    then obtain d2 where d2: "infrared_feed spec d1 (vs @ [(False, gap)]) = Some (presses_reported ps, d2)"
      using Cons.IH [OF False _ d1(2), of "\<not> tg" vs] Cons.prems(2,4,6) d1(4) ss(4) s(1) by auto
    have "ss @ [(False, gap)] = (us @ [(False, t)]) @ vs @ [(False, gap)]" using ss(1) by simp
    then have "infrared_feed spec d (ss @ [(False, gap)]) = Some (presses_reported (p # ps), d2)"
      using infrared_feed_then [OF d1(1)] d2 p by (simp add: presses_reported_def)
    then show ?thesis by blast
  qed
qed simp

lemma presses_delivered:
  assumes ps: "\<forall>p\<in>set ps. carried (fst p)" and e: "length (e_data (common_encoder e)) = infrared_data_bytes (spec_data spec)"
    and d: "idle d True" "length (d_data d) = infrared_data_bytes (spec_data spec)" "\<And>m. carried m \<Longrightarrow> protocol m \<noteq> protocol (d_message d)"
  shows "\<exists>sent. presses_sent reset_fn spec e ps sent \<and> (\<forall>received gap.
    heard_as (bit_tolerance (timings spec)) (merge_levels (map snd sent)) received \<longrightarrow> min_split_time (timings spec) < gap \<longrightarrow>
    (\<exists>d'. infrared_feed spec d (received @ [(False, gap)]) = Some (presses_reported ps, d')))"
proof -
  obtain sent where sent: "presses_sent reset_fn spec e ps sent" "map snd sent = press_signal message_signal_of (toggle_bit e) ps"
    using presses_are_sent [OF ps e] by blast
  have "\<exists>d'. infrared_feed spec d (received @ [(False, gap)]) = Some (presses_reported ps, d')"
    if h: "heard_as (bit_tolerance (timings spec)) (merge_levels (map snd sent)) received" and gap: "min_split_time (timings spec) < gap" for received gap
  proof (cases ps)
    case Nil
    then show ?thesis using h sent(2) feed_first_space [OF d(1), of spec gap] by (auto simp: presses_reported_def)
  next
    case (Cons p ps')
    obtain m k where p: "p = (m, k)" by (cases p)
    obtain s qs where s: "merge_levels (press_signal message_signal_of (toggle_bit e) ps) = (False, s) # qs"
      using first_space [of m "toggle_bit e"] unfolding Cons p merge_presses by auto
    then obtain t rest where rec: "received = (False, t) # rest" "heard_as (bit_tolerance (timings spec)) qs rest"
      using h sent(2) by (auto simp: heard_Cons)
    obtain d1 where d1: "infrared_common_decode spec d False t = Some (None, d1)" "waiting spec d1" "same_context d d1"
      using feed_first_space [OF d(1)] by blast
    have "\<not> repeats d1 (fst (hd ps)) (toggle_bit e)"
      using d(3) [of m] ps Cons p d1(3) by (auto simp: repeats_def same_context_def)
    then obtain d2 where "infrared_feed spec d1 (rest @ [(False, gap)]) = Some (presses_reported ps, d2)"
      using presses_heard [OF _ ps d1(2) _ _ gap, of "toggle_bit e" rest] rec(2) s d1(3) d(2) Cons by (auto simp: same_context_def)
    then show ?thesis using rec(1) d1(1) by simp
  qed
  then show ?thesis using sent(1) by blast
qed

end

end
