(* ===== verification/InfraredToggle.thy ===== *)
theory InfraredToggle
  imports InfraredManchester
begin

text \<open>
  RC5 and RC6 as instances of \<open>toggle_protocol\<close>: the bits of their messages, the start of a message for
  a decoder, and the toggle bit of RC6, whose halves are twice as long as the others.
\<close>

section \<open>Bits\<close>

lemma bit_reverse: "bit (reverse v) k \<longleftrightarrow> k < 8 \<and> bit v (7 - k)"
proof -
  have t: "(v AND shl 1 r \<noteq> 0) = bit v r" for v :: u8 and r by (simp add: bit_iff_and_push_bit_not_eq_0)
  have u: "[0..<8] = [0, 1, 2, 3, 4, 5, 6, 7 :: nat]" by code_simp
  have "\<forall>k<8. bit (reverse v) k \<longleftrightarrow> bit v (7 - k)"
    unfolding all_less_8 reverse_def for_loop_def u by (simp add: t [simplified] bit_simps)
  then show ?thesis using bit_imp_le_length [of "reverse v" k] by auto
qed

definition rc5_word :: "InfraredMessage \<Rightarrow> bool \<Rightarrow> u32" where
  "rc5_word m tg = 1 OR (if protocol m = InfraredProtocolRC5 then 2 else 0) OR (if tg then 4 else 0) OR
     shl (shr (ucast (reverse (ucast (address m)))) 3) 3 OR shl (shr (ucast (reverse (ucast (command m)))) 2) 8"

definition rc5_bits :: "InfraredMessage \<Rightarrow> bool \<Rightarrow> bool list" where
  "rc5_bits m tg = map (\<lambda>k. \<not> bit (rc5_word m tg) k) [0..<14]"

definition rc6_word :: "InfraredMessage \<Rightarrow> bool \<Rightarrow> u32" where
  "rc6_word m tg = 1 OR (if tg then 0x10 else 0) OR shl (ucast (reverse (ucast (address m)))) 5 OR
     shl (ucast (reverse (ucast (command m)))) 13"

definition rc6_bits :: "InfraredMessage \<Rightarrow> bool \<Rightarrow> bool list" where
  "rc6_bits m tg = map (bit (rc6_word m tg)) [0..<21]"

lemma bit_powers [bit_simps]: "bit (2 :: int) k \<longleftrightarrow> k = 1" "bit (4 :: int) k \<longleftrightarrow> k = 2" "bit (0x10 :: int) k \<longleftrightarrow> k = 4"
proof -
  have "(2 :: int) = push_bit 1 1" "(4 :: int) = push_bit 2 1" "(0x10 :: int) = push_bit 4 1" by (simp_all add: push_bit_eq_mult)
  then show "bit (2 :: int) k \<longleftrightarrow> k = 1" "bit (4 :: int) k \<longleftrightarrow> k = 2" "bit (0x10 :: int) k \<longleftrightarrow> k = 4"
    by (auto simp only: bit_push_bit_iff bit_1_iff possible_bit_int)
qed

lemma rc5_word_bit:
  assumes "k < 14"
  shows "bit (rc5_word m tg) k \<longleftrightarrow> k = 0 \<or> k = 1 \<and> protocol m = InfraredProtocolRC5 \<or> k = 2 \<and> tg \<or>
    3 \<le> k \<and> k < 8 \<and> bit (address m) (7 - k) \<or> 8 \<le> k \<and> bit (command m) (13 - k)"
  using assms by (auto simp: rc5_word_def bit_simps bit_reverse)

lemma rc6_word_bit:
  assumes "k < 21"
  shows "bit (rc6_word m tg) k \<longleftrightarrow> k = 0 \<or> k = 4 \<and> tg \<or>
    5 \<le> k \<and> k < 13 \<and> bit (address m) (12 - k) \<or> 13 \<le> k \<and> bit (command m) (20 - k)"
  using assms by (auto simp: rc6_word_def bit_simps bit_reverse)

section \<open>From a message to bits and back\<close>

lemmas rc_numbers = INFRARED_RC5_BIT_def INFRARED_RC5_BIT_TOLERANCE_def INFRARED_RC5_SILENCE_def INFRARED_RC5_MIN_SPLIT_TIME_def
  INFRARED_RC6_BIT_def INFRARED_RC6_SILENCE_def INFRARED_RC6_MIN_SPLIT_TIME_def

lemma rc5_table [simp]:
  "decode infrared_protocol_rc5 = infrared_common_decode_manchester" "encode infrared_protocol_rc5 = infrared_common_encode_manchester"
  "decode_repeat infrared_protocol_rc5 = None" "encode_repeat infrared_protocol_rc5 = None"
  "interpret_bits infrared_protocol_rc5 = infrared_decoder_rc5_interpret" "databit_len infrared_protocol_rc5 = [14, 0, 0, 0]"
  "databit_lens (spec_data infrared_protocol_rc5) = [14]" "infrared_data_bytes (spec_data infrared_protocol_rc5) = 4"
  "manchester_start_from_space infrared_protocol_rc5"
  by (simp_all add: infrared_protocol_rc5_def databit_lens_def infrared_data_bytes_def spec_data_def InfraredProtocolData.truncate_def)

lemma rc6_table [simp]:
  "decode infrared_protocol_rc6 = infrared_decoder_rc6_decode_manchester" "encode infrared_protocol_rc6 = infrared_encoder_rc6_encode_manchester"
  "decode_repeat infrared_protocol_rc6 = None" "encode_repeat infrared_protocol_rc6 = None"
  "interpret_bits infrared_protocol_rc6 = infrared_decoder_rc6_interpret" "databit_len infrared_protocol_rc6 = [21, 0, 0, 0]"
  "databit_lens (spec_data infrared_protocol_rc6) = [21]" "infrared_data_bytes (spec_data infrared_protocol_rc6) = 5"
  "\<not> manchester_start_from_space infrared_protocol_rc6"
  by (simp_all add: infrared_protocol_rc6_def databit_lens_def infrared_data_bytes_def spec_data_def InfraredProtocolData.truncate_def)

lemma rc5_times [simp]:
  "bit1_mark (timings infrared_protocol_rc5) = 888" "bit_tolerance (timings infrared_protocol_rc5) = 120"
  "min_split_time (timings infrared_protocol_rc5) = 2700" "silence_time (timings infrared_protocol_rc5) = 27000"
  "preamble_mark (timings infrared_protocol_rc5) = 0"
  by (simp_all add: infrared_protocol_rc5_def rc_numbers)

lemma rc6_times [simp]:
  "bit1_mark (timings infrared_protocol_rc6) = 444" "bit_tolerance (timings infrared_protocol_rc6) = 120"
  "min_split_time (timings infrared_protocol_rc6) = 2700" "silence_time (timings infrared_protocol_rc6) = 27000"
  "preamble_mark (timings infrared_protocol_rc6) = 2666" "preamble_space (timings infrared_protocol_rc6) = 889"
  "preamble_tolerance (timings infrared_protocol_rc6) = 200"
  by (simp_all add: infrared_protocol_rc6_def rc_numbers)

lemma rc_manchester_times:
  "manchester_times (timings infrared_protocol_rc5)" "manchester_times (timings infrared_protocol_rc6)"
  by (simp_all add: manchester_times_def infrared_protocol_rc5_def infrared_protocol_rc6_def rc_numbers)

lemma rc_common_reset:
  "length (e_data e) = 4 \<Longrightarrow> infrared_common_encoder_reset infrared_protocol_rc5 e = Some (cleared e 2)"
  "length (e_data e) = 5 \<Longrightarrow> infrared_common_encoder_reset infrared_protocol_rc6 e = Some (cleared e 3)"
  by (simp_all add: infrared_common_encoder_reset_def Let_def memset_def cleared_def numeral_2_eq_2 numeral_3_eq_3)

text \<open>The bytes behind the cleared ones keep what they had; it stays above the bits of a message.\<close>

lemma or_cleared:
  assumes "4 \<le> length (e_data e)" "n \<le> 4"
  obtains w where "\<And>v. or_u32 (e_data (cleared e n)) 0 v = Some (put_u32 (e_data (cleared e n)) 0 (w OR v))" "\<And>k. k < 8 * n \<Longrightarrow> \<not> bit w k"
proof -
  have l: "length (e_data (cleared e n)) = length (e_data e)" using assms by simp
  obtain w where w: "ld_u32 (e_data (cleared e n)) 0 = Some w" "\<And>k. k < 32 \<Longrightarrow> bit w k = data_bit (e_data (cleared e n)) (8 * 0 + k)"
    using ld_u32_bits [of 0 "e_data (cleared e n)"] assms(1) l by auto
  have "\<not> bit w k" if "k < 8 * n" for k
  proof -
    have "k div 8 < n" "k < 32" using that assms(2) by auto
    then show ?thesis using w(2) [of k] by (simp add: data_bit_def cleared_def nth_append)
  qed
  then show thesis using assms(1) l w(1) by (intro that [of w]) (simp_all add: or_u32_def st_u32_eq)
qed

lemma rc5_reset:
  assumes e: "length (e_data (common_encoder e)) = 4"
  shows "\<exists>ce. infrared_encoder_rc5_reset e m = Some (e \<lparr>common_encoder := ce, toggle_bit := \<not> toggle_bit e\<rparr>) \<and>
    encoder_ready ce (rc5_bits m (toggle_bit e)) \<and> length (e_data ce) = 4"
proof -
  let ?c = "cleared (common_encoder e) 2"
  obtain w where w: "\<And>v. or_u32 (e_data ?c) 0 v = Some (put_u32 (e_data ?c) 0 (w OR v))" "\<And>k. k < 8 * 2 \<Longrightarrow> \<not> bit w k"
    using or_cleared [of "common_encoder e" 2] e by auto
  have l: "length (e_data ?c) = 4" using e by simp
  let ?W = "w OR rc5_word m (toggle_bit e)"
  let ?p = "put_u32 (e_data ?c) 0 ?W"
  let ?ds = "?p[0 := NOT (?p ! 0), 1 := NOT (?p ! 1)]"
  have zero: "put_u32 (e_data ?c) 0 x = put_u32 (e_data ?c) 0 (x OR 0)" for x by simp
  have rw: "or_u32 (put_u32 (e_data ?c) 0 x) 0 v = Some (put_u32 (e_data ?c) 0 (x OR v))" for x v using l by (simp add: or_u32_put)
  have opt: "(if b then or_u32 (put_u32 (e_data ?c) 0 x) 0 2 else Some (put_u32 (e_data ?c) 0 x)) = Some (put_u32 (e_data ?c) 0 (x OR (if b then 2 else 0)))" for b x
    using rw by simp
  have fl: "length p = 4 \<Longrightarrow> rd p 0 = Some (p ! 0)" "length p = 4 \<Longrightarrow> rd p (Suc 0) = Some (p ! Suc 0)"
    "length p = 4 \<Longrightarrow> wr p 0 x = Some (p[0 := x])" "length p = 4 \<Longrightarrow> wr p (Suc 0) x = Some (p[Suc 0 := x])" for p :: "u8 list" and x
    by (simp_all add: rd_def wr_def)
  have "infrared_encoder_rc5_reset e m = Some (e \<lparr>common_encoder := ?c \<lparr>e_data := ?ds, bits_to_encode := 14\<rparr>, toggle_bit := \<not> toggle_bit e\<rparr>)"
    unfolding infrared_encoder_rc5_reset_def using e l w(1)
    by (simp add: rc_common_reset rw opt rc5_word_def or.assoc fl)
  moreover have "bits_of ?ds 14 = rc5_bits m (toggle_bit e)"
  proof -
    have "data_bit ?ds k = (\<not> bit (rc5_word m (toggle_bit e)) k)" if k: "k < 14" for k
    proof -
      have "data_bit ?ds k = (\<not> data_bit ?p k)"
      proof -
        have "k div 8 = 0 \<or> k div 8 = 1" using k by (cases "k < 8") (auto simp: div_nat_eqI)
        then show ?thesis using l by (auto simp: data_bit_def bit_simps)
      qed
      also have "data_bit ?p k = bit ?W k" using l k by (simp add: data_bit_put)
      also have "bit ?W k = bit (rc5_word m (toggle_bit e)) k" using w(2) [of k] k by (simp add: bit_simps)
      finally show ?thesis .
    qed
    then show ?thesis by (simp add: bits_of_def rc5_bits_def)
  qed
  moreover have "encoder_ready (?c \<lparr>e_data := ?ds, bits_to_encode := 14\<rparr>) (bits_of ?ds 14)"
    by (rule cleared_ready) (use l in simp_all)
  ultimately show ?thesis using l by (intro exI [of _ "?c \<lparr>e_data := ?ds, bits_to_encode := 14\<rparr>"]) simp
qed

lemma rc6_reset:
  assumes e: "length (e_data (common_encoder e)) = 5"
  shows "\<exists>ce. infrared_encoder_rc6_reset e m = Some (e \<lparr>common_encoder := ce, toggle_bit := \<not> toggle_bit e\<rparr>) \<and>
    encoder_ready ce (rc6_bits m (toggle_bit e)) \<and> length (e_data ce) = 5"
proof -
  let ?c = "cleared (common_encoder e) 3"
  obtain w where w: "\<And>v. or_u32 (e_data ?c) 0 v = Some (put_u32 (e_data ?c) 0 (w OR v))" "\<And>k. k < 8 * 3 \<Longrightarrow> \<not> bit w k"
    using or_cleared [of "common_encoder e" 3] e by auto
  have l: "length (e_data ?c) = 5" using e by simp
  let ?W = "w OR rc6_word m (toggle_bit e)"
  let ?ds = "put_u32 (e_data ?c) 0 ?W"
  have rw: "or_u32 (put_u32 (e_data ?c) 0 x) 0 v = Some (put_u32 (e_data ?c) 0 (x OR v))" for x v using l by (simp add: or_u32_put)
  have "infrared_encoder_rc6_reset e m = Some (e \<lparr>common_encoder := ?c \<lparr>e_data := ?ds, bits_to_encode := 21\<rparr>, toggle_bit := \<not> toggle_bit e\<rparr>)"
    unfolding infrared_encoder_rc6_reset_def using e l w(1) by (simp add: rc_common_reset rw rc6_word_def or.assoc)
  moreover have "bits_of ?ds 21 = rc6_bits m (toggle_bit e)"
    using l w(2) by (simp add: bits_of_def rc6_bits_def data_bit_put bit_simps)
  moreover have "encoder_ready (?c \<lparr>e_data := ?ds, bits_to_encode := 21\<rparr>) (bits_of ?ds 21)"
    by (rule cleared_ready) (use l in simp_all)
  ultimately show ?thesis using l by (intro exI [of _ "?c \<lparr>e_data := ?ds, bits_to_encode := 21\<rparr>"]) simp
qed

text \<open>The messages that the code carries: commands of RC5X too have six bits.\<close>

definition rc5_message :: "InfraredMessage \<Rightarrow> bool" where
  "rc5_message m \<longleftrightarrow> (protocol m = InfraredProtocolRC5 \<or> protocol m = InfraredProtocolRC5X) \<and>
     unat (address m) < 2 ^ 5 \<and> unat (command m) < 2 ^ 6"

definition rc6_message :: "InfraredMessage \<Rightarrow> bool" where
  "rc6_message m \<longleftrightarrow> protocol m = InfraredProtocolRC6 \<and> unat (address m) < 2 ^ 8 \<and> unat (command m) < 2 ^ 8"

lemma bit_masks_5_3 [bit_simps]: "bit (0x1F :: int) k \<longleftrightarrow> k < 5" "bit (0x7 :: int) k \<longleftrightarrow> k < 3"
  using bit_mask_iff [of 5 k, where ?'a = int] bit_mask_iff [of 3 k, where ?'a = int] by (simp_all add: mask_eq_exp_minus_1)

lemma test_bits:
  fixes w :: u32
  shows "w AND 0x01 \<noteq> 0 \<longleftrightarrow> bit w 0" "w AND 0x02 \<noteq> 0 \<longleftrightarrow> bit w 1" "w AND 0x04 \<noteq> 0 \<longleftrightarrow> bit w 2" "w AND 0x10 \<noteq> 0 \<longleftrightarrow> bit w 4"
proof -
  have t: "w AND push_bit n 1 \<noteq> 0 \<longleftrightarrow> bit w n" for n by (simp add: bit_iff_and_push_bit_not_eq_0)
  have "push_bit 0 1 = (0x01 :: u32)" "push_bit 1 1 = (0x02 :: u32)" "push_bit 2 1 = (0x04 :: u32)" "push_bit 4 1 = (0x10 :: u32)"
    by (simp_all add: push_bit_eq_mult)
  then show "w AND 0x01 \<noteq> 0 \<longleftrightarrow> bit w 0" "w AND 0x02 \<noteq> 0 \<longleftrightarrow> bit w 1" "w AND 0x04 \<noteq> 0 \<longleftrightarrow> bit w 2" "w AND 0x10 \<noteq> 0 \<longleftrightarrow> bit w 4"
    using t [of 0] t [of 1] t [of 2] t [of 4] by simp_all
qed

lemma toggled_message:
  assumes "protocol m = p" "address m = ucast a" "command m = ucast c"
  shows "set_toggled_message d p a c tg = d \<lparr>d_message := m \<lparr>repeat := repeats d m tg\<rparr>, d_toggle := tg\<rparr>"
  using assms by (cases m) (auto simp: set_toggled_message_def repeats_def Let_def)

lemma narrow:
  fixes w :: u32
  assumes "unat w < 2 ^ n" "n \<le> 8"
  shows "bit w k \<Longrightarrow> k < n" "ucast (ucast w :: u8) = w"
proof -
  have b: "bit w k \<Longrightarrow> k < n" for k using unat_less_bitD [OF assms(1)] by (auto simp: not_less [symmetric])
  then show "bit w k \<Longrightarrow> k < n" .
  show "ucast (ucast w :: u8) = w" using b assms(2) by (intro ucast_back) (meson less_le_trans)
qed

lemma rc5_interpret:
  assumes m: "rc5_message m" and h: "holds_bits infrared_protocol_rc5 d (rc5_bits m tg)"
  shows "\<exists>ds. infrared_decoder_rc5_interpret d = Some (True, d \<lparr>d_data := ds, d_message := m \<lparr>repeat := repeats d m tg\<rparr>, d_toggle := tg\<rparr>) \<and>
    length ds = length (d_data d)"
proof -
  have bits: "data_bit (d_data d) k = (\<not> bit (rc5_word m tg) k)" if "k < 14" for k
    using h that by (simp add: holds_bits_def rc5_bits_def)
  have l: "length (d_data d) = 4" using h by (simp add: holds_bits_def)
  let ?ds = "(d_data d)[0 := NOT (d_data d ! 0), 1 := NOT (d_data d ! 1)]"
  have inv: "data_bit ?ds k = bit (rc5_word m tg) k" if k: "k < 14" for k
  proof -
    have "k div 8 = 0 \<or> k div 8 = 1" using k by (cases "k < 8") (auto simp: div_nat_eqI)
    then have "data_bit ?ds k = (\<not> data_bit (d_data d) k)" using l by (auto simp: data_bit_def bit_simps)
    then show ?thesis using bits [OF k] by simp
  qed
  obtain w where w: "ld_u32 ?ds 0 = Some w" "\<And>k. k < 32 \<Longrightarrow> bit w k = data_bit ?ds (8 * 0 + k)"
    using ld_u32_bits [of 0 ?ds] l by auto
  have w': "bit w k = bit (rc5_word m tg) k" if "k < 14" for k using w(2) [of k] inv [OF that] that by simp
  have b0: "bit (?ds ! 0) k = bit (rc5_word m tg) k" if "k < 8" for k using inv [of k] that by (simp add: data_bit_def)
  have b1: "bit (?ds ! 1) k = bit (rc5_word m tg) (8 + k)" if "k < 6" for k
  proof -
    have "(8 + k) div 8 = 1" "(8 + k) mod 8 = k" using that by auto
    then show ?thesis using inv [of "8 + k"] that unfolding data_bit_def by simp
  qed
  note r = m [unfolded rc5_message_def]
  have aw: "bit (address m) k \<Longrightarrow> k < 5" "bit (command m) k \<Longrightarrow> k < 6" for k using narrow(1) [of "address m" 5] narrow(1) [of "command m" 6] r by auto
  have a: "reverse (?ds ! 0) AND 0x1F = ucast (address m)"
  proof (rule bit_word_eqI)
    fix k assume "k < LENGTH(8)"
    show "bit (reverse (?ds ! 0) AND 0x1F) k = bit (ucast (address m) :: u8) k"
      using aw(1) [of k] b0 [of "7 - k"] by (cases "k < 5") (auto simp: bit_simps bit_reverse rc5_word_bit)
  qed
  have c: "shr (reverse (?ds ! 1)) 2 AND 0x3F = ucast (command m)"
  proof (rule bit_word_eqI)
    fix k assume "k < LENGTH(8)"
    show "bit (shr (reverse (?ds ! 1)) 2 AND 0x3F) k = bit (ucast (command m) :: u8) k"
      using aw(2) [of k] b1 [of "5 - k"] by (cases "k < 6") (auto simp: bit_simps bit_reverse rc5_word_bit)
  qed
  have fl: "rd p 0 = Some (p ! 0)" "rd p (Suc 0) = Some (p ! Suc 0)" "wr p 0 x = Some (p[0 := x])" "wr p (Suc 0) x = Some (p[Suc 0 := x])"
    if "length p = 4" for p :: "u8 list" and x
    using that by (simp_all add: rd_def wr_def)
  have "infrared_decoder_rc5_interpret d = Some (True, set_toggled_message (d \<lparr>d_data := ?ds\<rparr>) (protocol m) (ucast (address m)) (ucast (command m)) tg)"
    unfolding infrared_decoder_rc5_interpret_def Let_def test_bits using l fl [OF l] w(1) a c w' r by (auto simp: fl rc5_word_bit)
  also have "set_toggled_message (d \<lparr>d_data := ?ds\<rparr>) (protocol m) (ucast (address m)) (ucast (command m)) tg =
      d \<lparr>d_data := ?ds, d_message := m \<lparr>repeat := repeats d m tg\<rparr>, d_toggle := tg\<rparr>"
    using toggled_message [of m "protocol m" "ucast (address m)" "ucast (command m)" "d \<lparr>d_data := ?ds\<rparr>" tg]
      narrow(2) [of "address m" 5] narrow(2) [of "command m" 6] r by (simp add: repeats_def)
  finally show ?thesis by (intro exI [of _ ?ds]) simp
qed

lemma rc6_interpret:
  assumes m: "rc6_message m" and h: "holds_bits infrared_protocol_rc6 d (rc6_bits m tg)"
  shows "\<exists>ds. infrared_decoder_rc6_interpret d = Some (True, d \<lparr>d_data := ds, d_message := m \<lparr>repeat := repeats d m tg\<rparr>, d_toggle := tg\<rparr>) \<and>
    length ds = length (d_data d)"
proof -
  have l: "length (d_data d) = 5" using h by (simp add: holds_bits_def)
  obtain w where w: "ld_u32 (d_data d) 0 = Some w" "\<And>k. k < 32 \<Longrightarrow> bit w k = data_bit (d_data d) (8 * 0 + k)"
    using ld_u32_bits [of 0 "d_data d"] l by auto
  have b: "bit w k = bit (rc6_word m tg) k" if "k < 21" for k
    using w(2) [of k] h that by (simp add: holds_bits_def rc6_bits_def)
  note r = m [unfolded rc6_message_def]
  have a: "reverse (ucast (shr w 5)) = ucast (address m)" "reverse (ucast (shr w 13)) = ucast (command m)"
    by (rule bit_word_eqI, use b in \<open>auto simp: bit_simps bit_reverse rc6_word_bit\<close>)+
  have mode: "(ucast (shr w 1 AND 0x7) :: u8) = 0"
  proof (rule bit_word_eqI)
    fix k assume "k < LENGTH(8)"
    show "bit (ucast (shr w 1 AND 0x7) :: u8) k = bit (0 :: u8) k"
      using b [of "Suc k"] by (cases "k < 3") (auto simp: bit_simps rc6_word_bit)
  qed
  have "infrared_decoder_rc6_interpret d = Some (True, set_toggled_message d (protocol m) (ucast (address m)) (ucast (command m)) tg)"
    unfolding infrared_decoder_rc6_interpret_def Let_def test_bits using w(1) a mode r b by (simp add: rc6_word_bit)
  also have "set_toggled_message d (protocol m) (ucast (address m)) (ucast (command m)) tg =
      d \<lparr>d_data := d_data d, d_message := m \<lparr>repeat := repeats d m tg\<rparr>, d_toggle := tg\<rparr>"
    using toggled_message [of m "protocol m" "ucast (address m)" "ucast (command m)" d tg]
      narrow(2) [of "address m" 8] narrow(2) [of "command m" 8] r by simp
  finally show ?thesis by blast
qed

section \<open>The start of a message\<close>

definition rc6_width :: "nat \<Rightarrow> nat" where
  "rc6_width k = (if k = 4 then 888 else 444)"

interpretation rc5_code: manchester_protocol infrared_protocol_rc5 "\<lambda>_. 888" "{}"
  using rc_manchester_times(1)
  by unfold_locales (auto simp: infrared_common_encode_manchester_def Let_def split: bind_splits)

interpretation rc6_code: manchester_protocol infrared_protocol_rc6 rc6_width "{4, 5}"
proof
  show "encode infrared_protocol_rc6 (spec_data infrared_protocol_rc6) e = do {
      (s, _, l, e') \<leftarrow> infrared_common_encode_manchester (spec_data infrared_protocol_rc6) e; Some (s, rc6_width (bits_encoded e), l, e') }" for e
    by (auto simp: infrared_encoder_rc6_encode_manchester_def infrared_common_encode_manchester_def rc6_width_def Let_def split: bind_splits)
qed (use rc_manchester_times(2) in \<open>auto simp: infrared_decoder_rc6_decode_manchester_def Let_def\<close>)

lemma rc5_bits_Cons: "rc5_bits m tg = False # map (\<lambda>k. \<not> bit (rc5_word m tg) k) [1..<14]"
  by (simp add: rc5_bits_def upt_rec [of 0] rc5_word_bit)

lemma rc5_pulses:
  assumes "cs \<noteq> []"
  shows "merge_levels (message_halves infrared_protocol_rc5 (\<lambda>_. 888) (False # cs)) = (False, 27888) # pulses False 888 (\<lambda>_. 888) 1 cs"
proof -
  obtain c cs' where cs: "cs = c # cs'" using assms by (cases cs) auto
  show ?thesis using merge_halves [of cs False 888 "\<lambda>_. 888" 1] unfolding cs by (simp add: message_halves_def)
qed

text \<open>
  RC5 has no preamble, and the first half of a message disappears in the silence: the first mark is
  decoded as if the first bit, a zero, had been received.
\<close>

lemma rc5_first_mark:
  assumes d: "waiting infrared_protocol_rc5 d" "length (d_data d) = 4"
    and t: "pulse_of (timings infrared_protocol_rc5) 1 t \<or> pulse_of (timings infrared_protocol_rc5) 2 t"
  defines "d0 \<equiv> d \<lparr>d_switch_detect := True, d_data := (d_data d)[0 := 0], d_databit_cnt := 1\<rparr>"
  shows "infrared_common_decode infrared_protocol_rc5 d True t = infrared_common_decode infrared_protocol_rc5 d0 True t"
proof -
  let ?spec = infrared_protocol_rc5
  note r = d(1) [unfolded waiting_def, simplified]
  let ?d = "with_sample d True t" and ?e = "with_sample d0 True t"
  have acc: "accumulate_lsb (?d \<lparr>d_switch_detect := True\<rparr>) False = Some ?e"
    using r d(2) by (cases "d_data d") (simp_all add: accumulate_lsb_def wr_def rd_def with_sample_def d0_def)
  have t': "MATCH_TIMING t 888 120 \<or> MATCH_TIMING t 1776 120"
    using t match_pulse [OF rc_manchester_times(1), of 1 t] match_pulse [OF rc_manchester_times(1), of 2 t] by auto
  have "infrared_common_decode_manchester (spec_data ?spec) ?d True t = infrared_common_decode_manchester (spec_data ?spec) ?e True t"
    using acc t' r by (auto simp: infrared_common_decode_manchester_def Let_def with_sample_def d0_def)
  then have step: "decode_bits_step ?spec ?d = decode_bits_step ?spec ?e"
    using r by (simp add: decode_bits_step_def Let_def with_sample_def d0_def rd_def INFRARED_SAMPLES_def)
  have c: "d_timings_cnt ?d = 1" "d_timings_cnt ?e = 1" "d_state ?d = InfraredCommonDecoderStateDecode" "d_state ?e = InfraredCommonDecoderStateDecode"
    using r by (simp_all add: with_sample_def d0_def)
  then have "infrared_common_decode_bits ?spec ?d = infrared_common_decode_bits ?spec ?e"
    using step by (simp add: infrared_common_decode_bits_def)
  then have "common_decode_step ?spec (False, ?d) = common_decode_step ?spec (False, ?e)" using c by (simp add: common_decode_step_def)
  then have "common_decode_loop (Suc n) ?spec (False, ?d) = common_decode_loop (Suc n) ?spec (False, ?e)" for n by simp
  moreover obtain n where n: "common_decode_fuel = Suc n" by (simp add: common_decode_fuel_def)
  ultimately have "common_decode_loop common_decode_fuel ?spec (False, ?d) = common_decode_loop common_decode_fuel ?spec (False, ?e)" by metis
  then show ?thesis using common_decode_eq [of d True ?spec t] common_decode_eq [of d0 True ?spec t] r
    by (simp add: d0_def INFRARED_SAMPLES_def)
qed

lemma rc5_receive:
  assumes d: "waiting infrared_protocol_rc5 d" "length (d_data d) = 4" and cs: "length cs = 13"
    and ss: "heard_as 120 (pulses False 888 (\<lambda>_. 888) 1 cs) ss"
  shows "\<exists>d'. infrared_feed infrared_protocol_rc5 d ss = Some ([], d') \<and> receiving d' True (False # cs) \<and> same_context d d'"
proof -
  note r = d(1) [unfolded waiting_def, simplified]
  let ?e = "d \<lparr>d_switch_detect := True, d_data := (d_data d)[0 := 0], d_databit_cnt := 1\<rparr>"
  have mid: "mid_bit ?e [False]" using r d(2) by (simp add: receiving_def data_bit_def clean_from_def)
  obtain d' where d': "infrared_feed infrared_protocol_rc5 ?e ss = Some ([], d')" "receiving d' True (False # cs)" "same_context ?e d'"
    using rc5_code.feed_pulses [OF mid, of "\<lambda>_. 888" cs ss] ss cs d(2) by auto
  obtain c cs' where c: "cs = c # cs'" using cs by (cases cs) auto
  obtain t ss' where t: "ss = (True, t) # ss'" "pulse_of (timings infrared_protocol_rc5) 1 t \<or> pulse_of (timings infrared_protocol_rc5) 2 t"
    using ss unfolding c by (cases c) (auto simp: heard_Cons pulse_of_def)
  have "infrared_feed infrared_protocol_rc5 d ss = infrared_feed infrared_protocol_rc5 ?e ss"
    unfolding t(1) infrared_feed.simps rc5_first_mark [OF d t(2)] by (rule refl)
  then show ?thesis using d' by (auto simp: same_context_def)
qed

text \<open>The toggle bit of RC6: its first pulse has one or three widths, and ends in the middle of the bit.\<close>

lemma rc6_match: "MATCH_TIMING t 444 120 \<longleftrightarrow> pulse_of (timings infrared_protocol_rc6) 1 t"
  "MATCH_TIMING t 888 120 \<longleftrightarrow> pulse_of (timings infrared_protocol_rc6) 2 t"
  "MATCH_TIMING t 1332 120 \<longleftrightarrow> pulse_of (timings infrared_protocol_rc6) 3 t"
  using match_pulse [OF rc_manchester_times(2), of 1 t] match_pulse [OF rc_manchester_times(2), of 2 t]
    match_pulse [OF rc_manchester_times(2), of 3 t] by simp_all

lemma rc6_pulse_less: "pulse_of (timings infrared_protocol_rc6) n t \<Longrightarrow> n \<le> 3 \<Longrightarrow> t \<le> 2700"
proof -
  assume p: "pulse_of (timings infrared_protocol_rc6) n t" "n \<le> 3"
  then have "n * 444 \<le> 3 * 444" by simp
  then show ?thesis using p(1) by (simp add: pulse_of_def)
qed

lemma rc6_toggle_half:
  assumes d: "mid_bit d bs" "length bs = 4" "\<not> last bs" "5 \<le> length (d_data d)" and t: "pulse_of (timings infrared_protocol_rc6) (if tg then 3 else 1) t"
  shows "\<exists>d'. infrared_common_decode infrared_protocol_rc6 d True t = Some (None, d') \<and> receiving d' True (bs @ [tg]) \<and> same_context d d'"
proof -
  note r = d(1) [unfolded receiving_def]
  let ?d = "with_sample d True t"
  let ?b = "d_data d ! 0 OR shl (of_bool tg) 4"
  let ?d1 = "?d \<lparr>d_databit_cnt := 5, d_data := (d_data d)[0 := ?b]\<rparr>"
  have u: "\<not> (pulse_of (timings infrared_protocol_rc6) 1 t \<and> pulse_of (timings infrared_protocol_rc6) 3 t)"
    using pulse_unique [OF rc_manchester_times(2), of 1 t 3] by auto
  have ne: "d_data d \<noteq> []" using d(4) by auto
  have dec: "decode infrared_protocol_rc6 (spec_data infrared_protocol_rc6) ?d True t = Some (InfraredStatusOk, ?d1)"
    using r d(2) t u ne by (cases tg) (simp_all add: infrared_decoder_rc6_decode_manchester_def Let_def rc6_match with_sample_def rd_def wr_def)
  have "infrared_common_decode infrared_protocol_rc6 d True t = Some (None, ?d1 \<lparr>d_timings_cnt := 0\<rparr>)"
    by (rule feed_accepted [OF _ _ _ _ _ _ dec]) (use r d(2,3) in \<open>auto simp: with_sample_def\<close>)
  moreover have "receiving (?d1 \<lparr>d_timings_cnt := 0\<rparr>) True (bs @ [tg])"
  proof -
    have old: "bit (d_data d ! 0) i = bs ! i" if "i < 4" for i
    proof -
      have "data_bit (d_data d) i = bs ! i" using r d(2) that by auto
      then show ?thesis using that by (simp add: data_bit_def)
    qed
    have clean: "\<not> bit (d_data d ! 0) k" if "4 \<le> k" for k using r d(2) that by (simp add: clean_from_def)
    have b: "bit ?b k \<longleftrightarrow> (if k < 4 then bs ! k else k = 4 \<and> tg)" for k
      using old [of k] clean [of k] by (cases tg) (auto simp: bit_simps)
    have "data_bit ((d_data d)[0 := ?b]) i = (bs @ [tg]) ! i" if "i < 5" for i
    proof -
      have "i div 8 = 0" "i mod 8 = i" using that by auto
      then show ?thesis using that ne b [of i] d(2) by (auto simp: data_bit_def nth_append less_Suc_eq)
    qed
    moreover have "clean_from ((d_data d)[0 := ?b]) 5" using ne b by (simp add: clean_from_def)
    ultimately show ?thesis using r d(2) by (simp add: receiving_def with_sample_def)
  qed
  ultimately show ?thesis by (auto simp: same_context_def with_sample_def)
qed

lemma rc6_toggle_ignored:
  assumes d: "receiving d (\<not> lv) bs" "length bs = 5" and t: "pulse_of (timings infrared_protocol_rc6) 2 t"
  shows "\<exists>d'. infrared_common_decode infrared_protocol_rc6 d lv t = Some (None, d') \<and> receiving d' lv bs \<and> same_context d d'"
proof -
  note r = d(1) [unfolded receiving_def]
  let ?d = "with_sample d lv t"
  have u: "\<not> pulse_of (timings infrared_protocol_rc6) 1 t" "\<not> pulse_of (timings infrared_protocol_rc6) 3 t"
    using pulse_unique [OF rc_manchester_times(2) t, of 1] pulse_unique [OF rc_manchester_times(2) t, of 3] by auto
  have dec: "decode infrared_protocol_rc6 (spec_data infrared_protocol_rc6) ?d lv t = Some (InfraredStatusOk, ?d)"
    using r d(2) t u by (simp add: infrared_decoder_rc6_decode_manchester_def Let_def rc6_match with_sample_def)
  have "infrared_common_decode infrared_protocol_rc6 d lv t = Some (None, ?d \<lparr>d_timings_cnt := 0\<rparr>)"
    by (rule feed_accepted [OF _ _ _ _ _ _ dec]) (use r d(2) rc6_pulse_less [OF t] in \<open>auto simp: with_sample_def\<close>)
  moreover have "receiving (?d \<lparr>d_timings_cnt := 0\<rparr>) lv bs" using r by (simp add: receiving_def with_sample_def)
  ultimately show ?thesis by (auto simp: same_context_def with_sample_def)
qed

lemma rc6_after_toggle:
  assumes d: "receiving d (\<not> lv) bs" "length bs = 5" "length (d_data d) = 5" and t: "pulse_of (timings infrared_protocol_rc6) n t" "n = 1 \<or> n = 3"
  shows "\<exists>d'. infrared_common_decode infrared_protocol_rc6 d lv t = Some (None, d') \<and> mid_bit d' (bs @ [lv]) \<and> same_context d d'"
proof (rule rc6_code.feed_first_half [OF d(1)])
  note r = d(1) [unfolded receiving_def]
  let ?d = "with_sample d lv t" and ?pd = "spec_data infrared_protocol_rc6"
  define u where "u = (if pulse_of (timings infrared_protocol_rc6) 3 t then 444 else t)"
  have p: "pulse_of (timings infrared_protocol_rc6) 1 u" using t by (auto simp: u_def pulse_of_def)
  then have not2: "\<not> pulse_of (timings infrared_protocol_rc6) 2 u" using pulse_unique [OF rc_manchester_times(2), of 1 u 2] by auto
  have "decode infrared_protocol_rc6 ?pd ?d lv t = infrared_common_decode_manchester ?pd (?d \<lparr>d_switch_detect := False\<rparr>) lv u"
    using r d(2) t unfolding u_def by (auto simp: infrared_decoder_rc6_decode_manchester_def Let_def rc6_match with_sample_def)
  also have "\<dots> = do { d \<leftarrow> accumulate_lsb (?d \<lparr>d_switch_detect := False, d_switch_detect := True\<rparr>) lv; Some (InfraredStatusOk, d) }"
    by (rule manchester_cases(1)) (use r d(2) p not2 in \<open>simp_all add: with_sample_def rc6_match\<close>)
  finally show "decode infrared_protocol_rc6 ?pd ?d lv t = do { d \<leftarrow> accumulate_lsb (?d \<lparr>d_switch_detect := True\<rparr>) lv; Some (InfraredStatusOk, d) }"
    by simp
qed (use d t rc6_pulse_less [OF t(1)] in auto)

text \<open>The pulses of the toggle bit and of the bit \<open>c\<close> behind it.\<close>

definition toggle_pulses :: "bool \<Rightarrow> bool \<Rightarrow> (bool \<times> nat) list" where
  "toggle_pulses tg c =
     (if tg then (if c then [(True, 1332), (False, 888), (True, 444)] else [(True, 1332), (False, 1332)])
      else (if c then [(True, 444), (False, 888), (True, 1332)] else [(True, 444), (False, 888), (True, 888), (False, 444)]))"

lemma rc6_toggle:
  assumes d: "mid_bit d bs" "length bs = 4" "\<not> last bs" "length (d_data d) = 5" and ss: "heard_as 120 (toggle_pulses tg c) ss"
  shows "\<exists>d'. infrared_feed infrared_protocol_rc6 d ss = Some ([], d') \<and> mid_bit d' (bs @ [tg, c]) \<and> same_context d d'"
proof -
  let ?P = "pulse_of (timings infrared_protocol_rc6)"
  obtain t ts where t: "ss = (True, t) # ts" "?P (if tg then 3 else 1) t" "heard_as 120 (tl (toggle_pulses tg c)) ts"
    using ss by (cases tg; cases c) (auto simp: toggle_pulses_def heard_Cons pulse_of_def)
  obtain d1 where d1: "infrared_common_decode infrared_protocol_rc6 d True t = Some (None, d1)" "receiving d1 True (bs @ [tg])" "same_context d d1"
    using rc6_toggle_half [OF d(1-3) _ t(2)] d(4) by auto
  have c1: "length (d_data d1) = 5" using d1(3) d(4) by (simp add: same_context_def)
  have len: "length (bs @ [tg]) = 5" using d(2) by simp
  have rest: "\<exists>d'. infrared_feed infrared_protocol_rc6 d1 ts = Some ([], d') \<and> mid_bit d' (bs @ [tg, c]) \<and> same_context d1 d'"
  proof (cases "tg \<and> \<not> c")
    case True
    then obtain u where u: "ts = [(False, u)]" "?P 3 u" using t(3) by (auto simp: toggle_pulses_def heard_Cons pulse_of_def)
    then show ?thesis using rc6_after_toggle [of d1 False "bs @ [tg]" 3 u] d1(2) len c1 True by auto
  next
    case False
    then obtain u us where u: "ts = (False, u) # us" "?P 2 u"
      "heard_as 120 (if c then [(True, if tg then 444 else 1332)] else [(True, 888), (False, 444)]) us"
      using t(3) by (cases tg; cases c) (auto simp: toggle_pulses_def heard_Cons pulse_of_def)
    obtain d2 where d2: "infrared_common_decode infrared_protocol_rc6 d1 False u = Some (None, d2)" "receiving d2 False (bs @ [tg])" "same_context d1 d2"
      using rc6_toggle_ignored [of d1 False "bs @ [tg]" u] d1(2) len u(2) by auto
    have c2: "length (d_data d2) = 5" using d2(3) c1 by (simp add: same_context_def)
    show ?thesis
    proof (cases c)
      case True
      then obtain v where v: "us = [(True, v)]" "?P (if tg then 1 else 3) v" using u(3) by (cases tg) (auto simp: heard_Cons pulse_of_def)
      obtain d3 where "infrared_common_decode infrared_protocol_rc6 d2 True v = Some (None, d3)" "mid_bit d3 ((bs @ [tg]) @ [True])" "same_context d2 d3"
        using rc6_after_toggle [of d2 True "bs @ [tg]" "if tg then 1 else 3" v] d2(2) len c2 v by (cases tg) auto
      then show ?thesis using u(1) v(1) d2 True by (auto simp: same_context_def)
    next
      case no: False
      then obtain v w where v: "us = [(True, v), (False, w)]" "?P 2 v" "?P 1 w" using u(3) by (auto simp: heard_Cons pulse_of_def)
      obtain d3 where d3: "infrared_common_decode infrared_protocol_rc6 d2 True v = Some (None, d3)" "receiving d3 True (bs @ [tg])" "same_context d2 d3"
        using rc6_toggle_ignored [of d2 True "bs @ [tg]" v] d2(2) len v(2) by auto
      have c3: "length (d_data d3) = 5" using d3(3) c2 by (simp add: same_context_def)
      obtain d4 where "infrared_common_decode infrared_protocol_rc6 d3 False w = Some (None, d4)" "mid_bit d4 ((bs @ [tg]) @ [False])" "same_context d3 d4"
        using rc6_after_toggle [of d3 False "bs @ [tg]" 1 w] d3(2) len c3 v(3) by auto
      then show ?thesis using u(1) v(1) d2 d3 no by (auto simp: same_context_def)
    qed
  qed
  then obtain d' where "infrared_feed infrared_protocol_rc6 d1 ts = Some ([], d')" "mid_bit d' (bs @ [tg, c])" "same_context d1 d'" by blast
  then show ?thesis using t(1) d1(1) same_context_trans [OF d1(3)] by auto
qed

lemma rc6_bits_Cons:
  "rc6_bits m tg = [True, False, False, False, tg, bit (rc6_word m tg) 5] @ map (bit (rc6_word m tg)) [6..<21]"
proof -
  have "[0..<21] = [0, 1, 2, 3, 4, 5] @ [6..<21 :: nat]" by code_simp
  then show ?thesis by (simp add: rc6_bits_def rc6_word_bit)
qed

lemma rc6_pulses:
  "merge_levels (message_halves infrared_protocol_rc6 rc6_width ([True, False, False, False, tg, c] @ cs)) =
     (False, 27000) # [(True, 2666), (False, 889), (True, 444)] @ [(False, 888)] @ [(True, 444), (False, 444)] @ [(True, 444), (False, 444)] @
     toggle_pulses tg c @ pulses c 444 rc6_width 6 cs"
proof -
  have h: "halves rc6_width 0 ([True, False, False, False, tg, c] @ cs) = (True, 444) # (False, 444) # halves rc6_width 1 (False # False # False # tg # c # cs)"
    by (simp add: rc6_width_def)
  have "merge_levels ((False, 444) # halves rc6_width 1 (False # False # False # tg # c # cs)) = pulses True 444 rc6_width 1 (False # False # False # tg # c # cs)"
    using merge_halves [of "False # False # False # tg # c # cs" True 444 rc6_width 1] by simp
  also have "\<dots> = [(False, 888)] @ [(True, 444), (False, 444)] @ [(True, 444), (False, 444)] @ toggle_pulses tg c @ pulses c 444 rc6_width 6 cs"
    by (cases tg; cases c) (simp_all add: toggle_pulses_def rc6_width_def eval_nat_numeral)
  finally show ?thesis unfolding message_halves_def h by (simp del: halves.simps pulses.simps)
qed

text \<open>The preamble and the first bits, which are the same in every message.\<close>

lemma rc6_start:
  assumes d: "waiting infrared_protocol_rc6 d" "length (d_data d) = 5"
    and ss: "heard_as 120 [(True, 2666), (False, 889), (True, 444)] ss"
  shows "\<exists>d'. infrared_feed infrared_protocol_rc6 d ss = Some ([], d') \<and> mid_bit d' [True] \<and> same_context d d'"
proof -
  let ?spec = infrared_protocol_rc6
  obtain pm ps t where ss: "ss = [(True, pm), (False, ps), (True, t)]"
    "pm < 2786" "2666 < pm + 120" "ps < 1009" "889 < ps + 120" "pulse_of (timings ?spec) 1 t"
    using ss by (auto simp: heard_Cons pulse_of_def)
  have idle: "idle d False" using d(1) by (simp add: waiting_def idle_def)
  have "preamble_ok (timings ?spec) pm ps" using ss(2-5) by (simp add: preamble_ok_def MATCH_TIMING_float_def)
  then obtain d1 where d1: "infrared_common_decode ?spec (with_sample d True pm) False ps = Some (None, d1)" "receiving d1 False []"
    "\<not> d_switch_detect d1" "same_context d d1"
    using preamble_found [OF idle, of ?spec pm ps] by (auto simp: same_context_def receiving_def)
  have "\<not> pulse_of (timings ?spec) 2 t" using pulse_unique [OF rc_manchester_times(2) ss(6), of 2] by auto
  then have "decode ?spec (spec_data ?spec) (with_sample d1 True t) True t =
      do { d \<leftarrow> accumulate_lsb (with_sample d1 True t \<lparr>d_switch_detect := True\<rparr>) True; Some (InfraredStatusOk, d) }"
    using d1(2,3) ss(6) rc6_code.match_one rc6_code.match_two
    by (subst rc6_code.decode_fn) (auto simp: with_sample_def receiving_def intro!: manchester_cases(1))
  then obtain d2 where d2: "infrared_common_decode ?spec d1 True t = Some (None, d2)" "mid_bit d2 ([] @ [True])" "same_context d1 d2"
    using rc6_code.feed_first_half [of d1 True "[]" t] d1 d(2) by (auto simp: same_context_def)
  have "infrared_feed ?spec d ss = Some ([], d2)"
    using preamble_mark_kept [OF idle, of ?spec pm] d1(1) d2(1) ss(1) by simp
  then show ?thesis using d2(2) same_context_trans [OF d1(4) d2(3)] by auto
qed

lemma rc6_receive:
  assumes d: "waiting infrared_protocol_rc6 d" "length (d_data d) = 5" and cs: "length cs = 15"
    and ss: "heard_as 120 (tl (merge_levels (message_halves infrared_protocol_rc6 rc6_width ([True, False, False, False, tg, c] @ cs)))) ss"
  shows "\<exists>d'. infrared_feed infrared_protocol_rc6 d ss = Some ([], d') \<and> receiving d' True ([True, False, False, False, tg, c] @ cs) \<and> same_context d d'"
proof -
  let ?spec = infrared_protocol_rc6
  obtain s0 s1 s2 s3 s4 s5 where ss: "ss = s0 @ s1 @ s2 @ s3 @ s4 @ s5"
    and h: "heard_as 120 [(True, 2666), (False, 889), (True, 444)] s0" "heard_as 120 [(False, 888)] s1"
    "heard_as 120 [(True, 444), (False, 444)] s2" "heard_as 120 [(True, 444), (False, 444)] s3"
    "heard_as 120 (toggle_pulses tg c) s4" "heard_as 120 (pulses c 444 rc6_width 6 cs) s5"
    using ss unfolding rc6_pulses list.sel by (elim heard_append) blast
  obtain d0 where d0: "infrared_feed ?spec d s0 = Some ([], d0)" "mid_bit d0 [True]" "same_context d d0"
    using rc6_start [OF d h(1)] by blast
  have next_bit: "\<exists>d'. infrared_feed ?spec d2 us = Some ([], d') \<and> mid_bit d' (bs @ [False]) \<and> same_context d d'"
    if "mid_bit d2 bs" "bs \<noteq> []" "length bs < 4" "same_context d d2"
      "heard_as 120 (if \<not> last bs then [(True, 444), (False, 444)] else [(False, 888)]) us" for d2 bs us
    using rc6_code.feed_next_bit [of d2 bs False us] that d(2) by (cases "last bs") (auto simp: same_context_def)
  obtain d1 where d1: "infrared_feed ?spec d0 s1 = Some ([], d1)" "mid_bit d1 [True, False]" "same_context d d1"
    using next_bit [OF d0(2) _ _ d0(3), of s1] h(2) by auto
  obtain d2 where d2: "infrared_feed ?spec d1 s2 = Some ([], d2)" "mid_bit d2 [True, False, False]" "same_context d d2"
    using next_bit [OF d1(2) _ _ d1(3), of s2] h(3) by auto
  obtain d3 where d3: "infrared_feed ?spec d2 s3 = Some ([], d3)" "mid_bit d3 [True, False, False, False]" "same_context d d3"
    using next_bit [OF d2(2) _ _ d2(3), of s3] h(4) by auto
  obtain d4 where d4: "infrared_feed ?spec d3 s4 = Some ([], d4)" "mid_bit d4 [True, False, False, False, tg, c]" "same_context d d4"
    using rc6_toggle [OF d3(2) _ _ _ h(5)] d3(3) d(2) by (auto simp: same_context_def)
  have "heard_as 120 (pulses c 444 rc6_width (Suc (Suc (Suc (Suc (Suc (Suc 0)))))) cs) s5" using h(6) by (simp add: eval_nat_numeral)
  then obtain d5 where d5: "infrared_feed ?spec d4 s5 = Some ([], d5)" "receiving d5 True ([True, False, False, False, tg, c] @ cs)" "same_context d4 d5"
    using rc6_code.feed_pulses [OF d4(2), of rc6_width cs s5] cs d4(3) d(2) by (auto simp: same_context_def rc6_width_def)
  have "infrared_feed ?spec d ss = Some ([], d5)" unfolding ss
    by (simp add: infrared_feed_append d0(1) d1(1) d2(1) d3(1) d4(1) d5(1))
  then show ?thesis using d5(2) same_context_trans [OF d4(3) d5(3)] by blast
qed

interpretation rc5: toggle_protocol infrared_protocol_rc5 "\<lambda>_. 888" "{}" rc5_message rc5_bits infrared_encoder_rc5_reset
proof
  note p = rc5_pulses [of "map (\<lambda>k. \<not> bit (rc5_word m tg) k) [1..<14]" for m tg, folded rc5_bits_Cons]
  show "\<exists>s ps. merge_levels (message_halves infrared_protocol_rc5 (\<lambda>_. 888) (rc5_bits m tg)) = (False, s) # ps \<and>
      silence_time (timings infrared_protocol_rc5) \<le> s" for m tg
    using p [of m tg] by auto
  show "\<exists>d'. infrared_feed infrared_protocol_rc5 d ss = Some ([], d') \<and> receiving d' True (rc5_bits m tg) \<and> same_context d d'"
    if "waiting infrared_protocol_rc5 d" "length (d_data d) = infrared_data_bytes (spec_data infrared_protocol_rc5)"
      "heard_as (bit_tolerance (timings infrared_protocol_rc5)) (tl (merge_levels (message_halves infrared_protocol_rc5 (\<lambda>_. 888) (rc5_bits m tg)))) ss"
    for d m tg ss
    using rc5_receive [of d "map (\<lambda>k. \<not> bit (rc5_word m tg) k) [1..<14]" ss] that p [of m tg] by (simp add: rc5_bits_Cons)
qed (use rc5_interpret rc5_reset in \<open>auto simp: rc5_bits_def\<close>)

interpretation rc6: toggle_protocol infrared_protocol_rc6 rc6_width "{4, 5}" rc6_message rc6_bits infrared_encoder_rc6_reset
proof
  show "\<exists>s ps. merge_levels (message_halves infrared_protocol_rc6 rc6_width (rc6_bits m tg)) = (False, s) # ps \<and>
      silence_time (timings infrared_protocol_rc6) \<le> s" for m tg
    unfolding rc6_bits_Cons rc6_pulses by simp
  show "\<exists>d'. infrared_feed infrared_protocol_rc6 d ss = Some ([], d') \<and> receiving d' True (rc6_bits m tg) \<and> same_context d d'"
    if "waiting infrared_protocol_rc6 d" "length (d_data d) = infrared_data_bytes (spec_data infrared_protocol_rc6)"
      "heard_as (bit_tolerance (timings infrared_protocol_rc6)) (tl (merge_levels (message_halves infrared_protocol_rc6 rc6_width (rc6_bits m tg)))) ss"
    for d m tg ss
    using rc6_receive [of d "map (bit (rc6_word m tg)) [6..<21]" tg "bit (rc6_word m tg) 5" ss] that unfolding rc6_bits_Cons by simp
qed (use rc6_interpret rc6_reset in \<open>auto simp: rc6_bits_def\<close>)

section \<open>Properties\<close>

definition toggle_protocols where
  "toggle_protocols = [(infrared_protocol_rc5, infrared_encoder_rc5_reset, rc5_message), (infrared_protocol_rc6, infrared_encoder_rc6_reset, rc6_message)]"

text \<open>
  C9. RC5, RC5X and RC6 keys. An encoder is reset to a message, sends it and goes on sending it for as long as
  the key is held, and is then reset to the next one; the half bits it reports are merged into pulses on
  the line. Whatever a decoder hears of this, each pulse off by less than 120 microseconds and a
  pause at the end, it reports every press exactly once as a new message and each further transmission
  as a repetition: equal messages that follow each other are told apart by the toggle bit. It holds for
  addresses of 5 and commands of 6 bits with RC5 and RC5X, and of 8 and 8 bits with RC6.
\<close>

theorem infrared_rc_presses:
  assumes p: "(spec, reset_fn, carried) \<in> set toggle_protocols" and m: "\<forall>(m, k)\<in>set presses. carried m"
    and e: "length (e_data (common_encoder e)) = infrared_data_bytes (spec_data spec)"
  shows "\<exists>sent. presses_sent reset_fn spec e presses sent \<and> (\<forall>received gap.
    heard_as (bit_tolerance (timings spec)) (merge_levels (map snd sent)) received \<longrightarrow> min_split_time (timings spec) < gap \<longrightarrow>
    (\<exists>d. infrared_feed spec (infrared_common_decoder_alloc spec) (received @ [(False, gap)]) = Some (presses_reported presses, d)))"
proof -
  have m': "\<forall>p\<in>set presses. carried (fst p)" using m by auto
  consider "spec = infrared_protocol_rc5" "reset_fn = infrared_encoder_rc5_reset" "carried = rc5_message"
    | "spec = infrared_protocol_rc6" "reset_fn = infrared_encoder_rc6_reset" "carried = rc6_message"
    using p by (auto simp: toggle_protocols_def)
  then show ?thesis
  proof cases
    case 1
    show ?thesis using m' e unfolding 1 by (intro rc5.presses_delivered) (auto simp: rc5_message_def)
  next
    case 2
    show ?thesis using m' e unfolding 2 by (intro rc6.presses_delivered) (auto simp: rc6_message_def)
  qed
qed

lemma infrared_rc_presses_witness:
  "\<exists>sent. presses_sent infrared_encoder_rc5_reset infrared_protocol_rc5 infrared_encoder_rc5_alloc
      (replicate 2 (\<lparr>protocol = InfraredProtocolRC5, address = 5, command = 53, repeat = False\<rparr>, 1)) sent \<and> (\<forall>received gap.
    heard_as (bit_tolerance (timings infrared_protocol_rc5)) (merge_levels (map snd sent)) received \<longrightarrow> min_split_time (timings infrared_protocol_rc5) < gap \<longrightarrow>
    (\<exists>d. infrared_feed infrared_protocol_rc5 (infrared_common_decoder_alloc infrared_protocol_rc5) (received @ [(False, gap)]) =
      Some (presses_reported (replicate 2 (\<lparr>protocol = InfraredProtocolRC5, address = 5, command = 53, repeat = False\<rparr>, 1)), d)))"
  by (rule infrared_rc_presses [where carried = rc5_message])
    (simp_all add: toggle_protocols_def rc5_message_def infrared_encoder_rc5_alloc_def infrared_common_encoder_alloc_def)



end
