(* ===== verification/InfraredSirc.thy ===== *)
theory InfraredSirc
  imports InfraredToggle
begin

text \<open>
  SIRC, the pulse-width protocol of \<^verbatim>\<open>lib/infrared/encoder_decoder/sirc\<close>, with its three lengths: the table, the
  functions that read a message and lay one out, and the repetitions, which are whole messages one
  period apart. A message with many long marks leaves so little of the period that the decoder does not see its end.
\<close>

section \<open>The protocol\<close>

definition INFRARED_SIRC_SILENCE :: nat where "INFRARED_SIRC_SILENCE = 10000"
definition INFRARED_SIRC_MIN_SPLIT_TIME :: nat where "INFRARED_SIRC_MIN_SPLIT_TIME = INFRARED_SIRC_SILENCE - 1000"
definition INFRARED_SIRC_REPEAT_PERIOD :: nat where "INFRARED_SIRC_REPEAT_PERIOD = 45000"

definition infrared_decoder_sirc_interpret :: infrared_interpret_fn where
  "infrared_decoder_sirc_interpret decoder = do {
     data \<leftarrow> ld_u32 (d_data decoder) 0;
     let command = (ucast (data AND 0x7F) :: u8);
     if d_databit_cnt decoder = 12 then
       Some (True, set_message decoder InfraredProtocolSIRC (ucast (ucast (shr data 7 AND 0x1F) :: u16)) (ucast command))
     else if d_databit_cnt decoder = 15 then
       Some (True, set_message decoder InfraredProtocolSIRC15 (ucast (ucast (shr data 7 AND 0xFF) :: u16)) (ucast command))
     else if d_databit_cnt decoder = 20 then
       Some (True, set_message decoder InfraredProtocolSIRC20 (ucast (ucast (shr data 7 AND 0x1FFF) :: u16)) (ucast command))
     else Some (False, decoder)
   }"

definition infrared_encoder_sirc_encode_repeat :: infrared_encode_fn where
  "infrared_encoder_sirc_encode_repeat pd encoder = do {
     furi_check (timings_encoded encoder = 1 + 2 + bits_to_encode encoder * 2 - 1);
     furi_check (timings_sum encoder < INFRARED_SIRC_REPEAT_PERIOD);
     Some (InfraredStatusOk, INFRARED_SIRC_REPEAT_PERIOD - timings_sum encoder, False,
       encoder \<lparr>timings_sum := 0, timings_encoded := 1, bits_encoded := 0, e_state := InfraredCommonEncoderStatePreamble\<rparr>)
   }"

definition infrared_protocol_sirc :: InfraredCommonProtocolSpec where
  "infrared_protocol_sirc =
     \<lparr>timings = \<lparr>min_split_time = INFRARED_SIRC_MIN_SPLIT_TIME, silence_time = INFRARED_SIRC_SILENCE,
        preamble_mark = 2400, preamble_space = 600, bit1_mark = 1200, bit1_space = 600,
        bit0_mark = 600, bit0_space = 600, preamble_tolerance = 200, bit_tolerance = 120\<rparr>,
      manchester_start_from_space = False, databit_len = [20, 15, 12, 0],
      decode = infrared_common_decode_pdwm, decode_repeat = None,
      interpret_bits = infrared_decoder_sirc_interpret, encode = infrared_common_encode_pdwm,
      encode_repeat = Some infrared_encoder_sirc_encode_repeat\<rparr>"

definition infrared_encoder_sirc_reset :: "InfraredCommonEncoder \<Rightarrow> InfraredMessage \<Rightarrow> InfraredCommonEncoder option" where
  "infrared_encoder_sirc_reset encoder message = do {
     encoder \<leftarrow> infrared_common_encoder_reset infrared_protocol_sirc encoder;
     if protocol message = InfraredProtocolSIRC then do {
       data \<leftarrow> st_u32 (e_data encoder) 0 (command message AND 0x7F);
       data \<leftarrow> or_u32 data 0 (shl (address message AND 0x1F) 7);
       Some (encoder \<lparr>e_data := data, bits_to_encode := 12\<rparr>)
     } else if protocol message = InfraredProtocolSIRC15 then do {
       data \<leftarrow> st_u32 (e_data encoder) 0 (command message AND 0x7F);
       data \<leftarrow> or_u32 data 0 (shl (address message AND 0xFF) 7);
       Some (encoder \<lparr>e_data := data, bits_to_encode := 15\<rparr>)
     } else if protocol message = InfraredProtocolSIRC20 then do {
       data \<leftarrow> st_u32 (e_data encoder) 0 (command message AND 0x7F);
       data \<leftarrow> or_u32 data 0 (shl (address message AND 0x1FFF) 7);
       Some (encoder \<lparr>e_data := data, bits_to_encode := 20\<rparr>)
     } else None
   }"

definition infrared_encoder_sirc_encode :: "InfraredCommonEncoder \<Rightarrow> (InfraredStatus \<times> nat \<times> bool \<times> InfraredCommonEncoder) option" where
  "infrared_encoder_sirc_encode encoder = do {
     (status, duration, level, encoder) \<leftarrow> infrared_common_encode infrared_protocol_sirc encoder;
     if status = InfraredStatusOk \<and> bits_encoded encoder = bits_to_encode encoder then do {
       furi_check (\<not> level);
       Some (InfraredStatusDone, duration, level, encoder \<lparr>e_state := InfraredCommonEncoderStateEncodeRepeat\<rparr>)
     } else Some (status, duration, level, encoder)
   }"

definition infrared_protocol_sirc_get_variant :: "InfraredProtocol \<Rightarrow> InfraredProtocolVariant option" where
  "infrared_protocol_sirc_get_variant p =
     (if p = InfraredProtocolSIRC then
        Some \<lparr>variant_name = ''SIRC'', address_length = 5, command_length = 7, frequency = 40000, duty_cycle = 33, repeat_count = 3\<rparr>
      else if p = InfraredProtocolSIRC15 then
        Some \<lparr>variant_name = ''SIRC15'', address_length = 8, command_length = 7, frequency = 40000, duty_cycle = 33, repeat_count = 3\<rparr>
      else if p = InfraredProtocolSIRC20 then
        Some \<lparr>variant_name = ''SIRC20'', address_length = 13, command_length = 7, frequency = 40000, duty_cycle = 33, repeat_count = 3\<rparr>
      else None)"

lemma sirc_table [simp]:
  "decode infrared_protocol_sirc = infrared_common_decode_pdwm" "encode infrared_protocol_sirc = infrared_common_encode_pdwm"
  "decode_repeat infrared_protocol_sirc = None" "encode_repeat infrared_protocol_sirc = Some infrared_encoder_sirc_encode_repeat"
  "interpret_bits infrared_protocol_sirc = infrared_decoder_sirc_interpret" "databit_len infrared_protocol_sirc = [20, 15, 12, 0]"
  "databit_lens (spec_data infrared_protocol_sirc) = [20, 15, 12]" "infrared_data_bytes (spec_data infrared_protocol_sirc) = 5"
  by (simp_all add: infrared_protocol_sirc_def databit_lens_def infrared_data_bytes_def spec_data_def InfraredProtocolData.truncate_def)

lemma sirc_times [simp]:
  "min_split_time (timings infrared_protocol_sirc) = 9000" "silence_time (timings infrared_protocol_sirc) = 10000"
  "preamble_mark (timings infrared_protocol_sirc) = 2400" "preamble_space (timings infrared_protocol_sirc) = 600"
  "bit1_mark (timings infrared_protocol_sirc) = 1200" "bit1_space (timings infrared_protocol_sirc) = 600"
  "bit0_mark (timings infrared_protocol_sirc) = 600" "bit0_space (timings infrared_protocol_sirc) = 600"
  "preamble_tolerance (timings infrared_protocol_sirc) = 200" "bit_tolerance (timings infrared_protocol_sirc) = 120"
  by (simp_all add: infrared_protocol_sirc_def INFRARED_SIRC_MIN_SPLIT_TIME_def INFRARED_SIRC_SILENCE_def)

section \<open>The signal\<close>

text \<open>The marks of the bits with the spaces between them, a whole message, and the bits that a message is sent as.\<close>

definition mark_of :: "bool \<Rightarrow> nat" where
  "mark_of b = (if b then 1200 else 600)"

fun marks :: "bool list \<Rightarrow> (bool \<times> nat) list" where
  "marks [] = []"
| "marks [b] = [(True, mark_of b)]"
| "marks (b # c # bs) = (True, mark_of b) # (False, 600) # marks (c # bs)"

definition frame :: "bool list \<Rightarrow> (bool \<times> nat) list" where
  "frame bs = (True, 2400) # (False, 600) # marks bs"

definition time_of :: "(bool \<times> nat) list \<Rightarrow> nat" where
  "time_of ss = sum_list (map snd ss)"

definition ones :: "bool list \<Rightarrow> nat" where
  "ones bs = length (filter id bs)"

definition pause :: "bool list \<Rightarrow> nat" where
  "pause bs = INFRARED_SIRC_REPEAT_PERIOD - time_of (frame bs)"

lemma marks_time: "bs \<noteq> [] \<Longrightarrow> time_of (marks bs) + 600 = 1200 * length bs + 600 * ones bs"
  by (induction bs rule: marks.induct) (auto simp: time_of_def ones_def mark_of_def)

lemma frame_time: "bs \<noteq> [] \<Longrightarrow> time_of (frame bs) = 2400 + 1200 * length bs + 600 * ones bs"
  using marks_time [of bs] by (simp add: frame_def time_of_def)

lemma marks_not_Nil [simp]: "marks bs = [] \<longleftrightarrow> bs = []"
  by (cases bs rule: marks.cases) auto

text \<open>What the encoder reports for a message that is sent and then repeated \<open>k\<close> times.\<close>

definition held_signal :: "bool list \<Rightarrow> nat \<Rightarrow> (InfraredStatus \<times> bool \<times> nat) list" where
  "held_signal bs k = finished ((False, 10000) # frame bs) @ concat (replicate k (finished ((False, pause bs) # frame bs)))"

text \<open>The samples of \<open>n\<close> calls, with the status of each.\<close>

fun sirc_calls :: "nat \<Rightarrow> InfraredCommonEncoder \<Rightarrow> ((InfraredStatus \<times> bool \<times> nat) list \<times> InfraredCommonEncoder) option" where
  "sirc_calls 0 e = Some ([], e)"
| "sirc_calls (Suc n) e = do {
     (status, duration, level, e) \<leftarrow> infrared_encoder_sirc_encode e;
     (ss, e) \<leftarrow> sirc_calls n e;
     Some ((status, level, duration) # ss, e)
   }"

lemma sirc_calls_add:
  "sirc_calls (n + k) e = do { (ss, e) \<leftarrow> sirc_calls n e; (ss', e) \<leftarrow> sirc_calls k e; Some (ss @ ss', e) }"
  by (induction n arbitrary: e) (auto split: option.splits bind_splits)

section \<open>Sending\<close>

text \<open>An encoder that has sent the preamble and \<open>k\<close> bits, in the time \<open>s\<close>.\<close>

definition sending_marks :: "InfraredCommonEncoder \<Rightarrow> bool list \<Rightarrow> nat \<Rightarrow> nat \<Rightarrow> bool" where
  "sending_marks e bs k s \<longleftrightarrow> encodes_bits e bs \<and> e_state e = InfraredCommonEncoderStateEncode \<and> timings_encoded e = 3 + 2 * k \<and>
     bits_encoded e = k \<and> timings_sum e = s \<and> s \<le> 3000 + 1800 * k"

text \<open>An encoder that has sent a whole message.\<close>

definition sent_frame :: "InfraredCommonEncoder \<Rightarrow> bool list \<Rightarrow> nat \<Rightarrow> bool" where
  "sent_frame e bs s \<longleftrightarrow> encodes_bits e bs \<and> e_state e = InfraredCommonEncoderStateEncodeRepeat \<and>
     timings_encoded e = 2 + 2 * length bs \<and> timings_sum e = s"

lemma sirc_send_mark:
  assumes e: "sending_marks e bs k s" and k: "k < length bs"
  defines "e' \<equiv> e \<lparr>bits_encoded := Suc k, timings_encoded := 4 + 2 * k, timings_sum := s + mark_of (bs ! k)\<rparr>"
  shows "infrared_encoder_sirc_encode e = Some (if Suc k = length bs then InfraredStatusDone else InfraredStatusOk, mark_of (bs ! k), True,
    if Suc k = length bs then e' \<lparr>e_state := InfraredCommonEncoderStateEncodeRepeat\<rparr> else e')"
proof -
  note i = e [unfolded sending_marks_def encodes_bits_def]
  have lv: "encoder_logic_value e = Some (bs ! k)" using logic_value [of e] i k by simp
  have odd: "(3 + 2 * k) mod 2 = 1" by presburger
  have b: "s + mark_of (bs ! k) < 2 ^ 32" "Suc k < 2 ^ 8" "4 + 2 * k < 2 ^ 32" using i k by (auto simp: mark_of_def)
  have "infrared_common_encode_pdwm (spec_data infrared_protocol_sirc) e =
      Some (InfraredStatusOk, mark_of (bs ! k), True, e \<lparr>bits_encoded := Suc k\<rparr>)"
    using i lv odd b(2) by (simp add: infrared_common_encode_pdwm_def Let_def mark_of_def)
  then show ?thesis using i b k
    by (auto simp: infrared_encoder_sirc_encode_def infrared_common_encode_def common_encode_payload_def infrared_common_encode_bits_def e'_def)
qed

lemma sirc_send_space:
  assumes e: "sending_marks e bs k s" and k: "Suc k < length bs"
    and e': "e' = e \<lparr>bits_encoded := Suc k, timings_encoded := 4 + 2 * k, timings_sum := s + mark_of (bs ! k)\<rparr>"
  shows "\<exists>e''. infrared_encoder_sirc_encode e' = Some (InfraredStatusOk, 600, False, e'') \<and> sending_marks e'' bs (Suc k) (s + mark_of (bs ! k) + 600)"
proof -
  note i = e [unfolded sending_marks_def encodes_bits_def]
  let ?e = "e' \<lparr>timings_encoded := 5 + 2 * k, timings_sum := s + mark_of (bs ! k) + 600\<rparr>"
  have lv: "encoder_logic_value e' = Some (bs ! Suc k)" using logic_value [of e'] i k e' by simp
  have even: "(4 + 2 * k) mod 2 = 0" by presburger
  have b: "s + mark_of (bs ! k) + 600 < 2 ^ 32" "5 + 2 * k < 2 ^ 32" using i k by (auto simp: mark_of_def)
  have "infrared_common_encode_pdwm (spec_data infrared_protocol_sirc) e' = Some (InfraredStatusOk, 600, False, e')"
    using lv even e' by (simp add: infrared_common_encode_pdwm_def Let_def)
  then have "infrared_encoder_sirc_encode e' = Some (InfraredStatusOk, 600, False, ?e)" using i b k e'
    by (simp add: infrared_encoder_sirc_encode_def infrared_common_encode_def common_encode_payload_def infrared_common_encode_bits_def)
  moreover have "sending_marks ?e bs (Suc k) (s + mark_of (bs ! k) + 600)"
    using i k e' by (simp add: sending_marks_def encodes_bits_def mark_of_def)
  ultimately show ?thesis by blast
qed

lemma sirc_send_marks:
  "sending_marks e bs k s \<Longrightarrow> k < length bs \<Longrightarrow>
   \<exists>n e'. sirc_calls n e = Some (finished (marks (drop k bs)), e') \<and> sent_frame e' bs (s + time_of (marks (drop k bs)))"
proof (induction "length bs - k" arbitrary: e k s)
  case (Suc m)
  note i = Suc.prems(1) [unfolded sending_marks_def encodes_bits_def]
  note mark = sirc_send_mark [OF Suc.prems]
  show ?case
  proof (cases "Suc k = length bs")
    case True
    then have "drop k bs = [bs ! k]" using Suc.prems(2) by (simp add: Cons_nth_drop_Suc [symmetric])
    then show ?thesis using mark True i
      by (intro exI [of _ 1]) (auto simp: sent_frame_def encodes_bits_def time_of_def)
  next
    case False
    then have k: "Suc k < length bs" using Suc.prems(2) by simp
    let ?e = "e \<lparr>bits_encoded := Suc k, timings_encoded := 4 + 2 * k, timings_sum := s + mark_of (bs ! k)\<rparr>"
    obtain e1 where e1: "infrared_encoder_sirc_encode ?e = Some (InfraredStatusOk, 600, False, e1)" "sending_marks e1 bs (Suc k) (s + mark_of (bs ! k) + 600)"
      using sirc_send_space [OF Suc.prems(1) k refl] by blast
    have "m = length bs - Suc k" using Suc.hyps(2) by simp
    then obtain n e' where e': "sirc_calls n e1 = Some (finished (marks (drop (Suc k) bs)), e')"
      "sent_frame e' bs (s + mark_of (bs ! k) + 600 + time_of (marks (drop (Suc k) bs)))"
      using Suc.hyps(1) [OF _ e1(2) k] by blast
    have "drop k bs = bs ! k # bs ! Suc k # drop (Suc (Suc k)) bs" "drop (Suc k) bs = bs ! Suc k # drop (Suc (Suc k)) bs"
      using k by (simp_all add: Cons_nth_drop_Suc)
    then have d: "marks (drop k bs) = (True, mark_of (bs ! k)) # (False, 600) # marks (drop (Suc k) bs)" "marks (drop (Suc k) bs) \<noteq> []" by simp_all
    have "sirc_calls (Suc (Suc n)) e = Some (finished (marks (drop k bs)), e')"
      using mark False e1(1) e'(1) d by (simp add: finished_Cons)
    moreover have "sent_frame e' bs (s + time_of (marks (drop k bs)))" using e'(2) d(1) by (simp add: time_of_def add.assoc)
    ultimately show ?thesis by blast
  qed
qed simp

text \<open>The preamble, behind a pause of any length.\<close>

lemma sirc_send_frame:
  assumes e: "encodes_bits e bs" "e_state e = InfraredCommonEncoderStatePreamble" "timings_encoded e = 1" "timings_sum e = 0" "bits_encoded e = 0"
  shows "\<exists>n e'. sirc_calls n e = Some (finished (frame bs), e') \<and> sent_frame e' bs (time_of (frame bs))"
proof -
  note b = e(1) [unfolded encodes_bits_def]
  let ?e1 = "e \<lparr>timings_encoded := 2, timings_sum := 2400\<rparr>"
  let ?e2 = "?e1 \<lparr>e_state := InfraredCommonEncoderStateEncode, timings_encoded := 3, timings_sum := 3000\<rparr>"
  have "infrared_encoder_sirc_encode e = Some (InfraredStatusOk, 2400, True, ?e1)"
    using e b by (cases e) (simp add: infrared_encoder_sirc_encode_def infrared_common_encode_def)
  moreover have "infrared_encoder_sirc_encode ?e1 = Some (InfraredStatusOk, 600, False, ?e2)"
    using e b by (simp add: infrared_encoder_sirc_encode_def infrared_common_encode_def)
  moreover obtain n e' where e': "sirc_calls n ?e2 = Some (finished (marks bs), e')" "sent_frame e' bs (3000 + time_of (marks bs))"
    using sirc_send_marks [of ?e2 bs 0 3000] e b by (auto simp: sending_marks_def encodes_bits_def)
  ultimately have "sirc_calls (Suc (Suc n)) e = Some (finished (frame bs), e')"
    using b by (auto simp: frame_def finished_Cons)
  moreover have "sent_frame e' bs (time_of (frame bs))" using e'(2) by (simp add: frame_def time_of_def)
  ultimately show ?thesis by blast
qed

lemma sirc_send_repeats:
  assumes "sent_frame e bs (time_of (frame bs))" "time_of (frame bs) < 45000"
  shows "\<exists>n e'. sirc_calls n e = Some (concat (replicate k (finished ((False, pause bs) # frame bs))), e')"
  using assms(1)
proof (induction k arbitrary: e)
  case 0
  then show ?case by (intro exI [of _ 0]) simp
next
  case (Suc k)
  note i = Suc.prems [unfolded sent_frame_def]
  let ?e = "e \<lparr>timings_sum := 0, timings_encoded := 1, bits_encoded := 0, e_state := InfraredCommonEncoderStatePreamble\<rparr>"
  have len: "0 < length bs" "bits_to_encode e = length bs" using i by (simp_all add: encodes_bits_def)
  then have a: "infrared_encoder_sirc_encode e = Some (InfraredStatusOk, pause bs, False, ?e)"
    using i assms(2)
    by (simp add: infrared_encoder_sirc_encode_def infrared_common_encode_def infrared_encoder_sirc_encode_repeat_def pause_def INFRARED_SIRC_REPEAT_PERIOD_def)
  obtain n e1 where e1: "sirc_calls n ?e = Some (finished (frame bs), e1)" "sent_frame e1 bs (time_of (frame bs))"
    using sirc_send_frame [of ?e bs] i by (auto simp: encodes_bits_def)
  obtain n' e' where e': "sirc_calls n' e1 = Some (concat (replicate k (finished ((False, pause bs) # frame bs))), e')"
    using Suc.IH [OF e1(2)] by blast
  have "sirc_calls (Suc n + n') e = Some (concat (replicate (Suc k) (finished ((False, pause bs) # frame bs))), e')"
    unfolding sirc_calls_add using a e1(1) e' by (simp add: finished_Cons frame_def)
  then show ?case by blast
qed

lemma sirc_send_held:
  assumes e: "encoder_ready e bs" and t: "time_of (frame bs) < 45000"
  shows "\<exists>n e'. sirc_calls n e = Some (held_signal bs k, e')"
proof -
  note i = e [unfolded encoder_ready_def]
  let ?e = "e \<lparr>e_state := InfraredCommonEncoderStatePreamble, timings_encoded := 1, timings_sum := 0\<rparr>"
  have "bits_to_encode e = length bs" "0 < length bs" using i by (simp_all add: encodes_bits_def)
  then have a: "infrared_encoder_sirc_encode e = Some (InfraredStatusOk, 10000, False, ?e)"
    using i by (simp add: infrared_encoder_sirc_encode_def infrared_common_encode_def)
  obtain n e1 where e1: "sirc_calls n ?e = Some (finished (frame bs), e1)" "sent_frame e1 bs (time_of (frame bs))"
    using sirc_send_frame [of ?e bs] i by (auto simp: encodes_bits_def)
  obtain n' e' where e': "sirc_calls n' e1 = Some (concat (replicate k (finished ((False, pause bs) # frame bs))), e')"
    using sirc_send_repeats [OF e1(2) t] by blast
  have "sirc_calls (Suc n + n') e = Some (held_signal bs k, e')"
    unfolding sirc_calls_add held_signal_def using a e1(1) e' by (simp add: finished_Cons frame_def)
  then show ?thesis by blast
qed


section \<open>Receiving\<close>

lemma sirc_match:
  "MATCH_TIMING t 1200 120 \<longleftrightarrow> 1080 < t \<and> t < 1320" "MATCH_TIMING t 600 120 \<longleftrightarrow> 480 < t \<and> t < 720"
  by (auto simp: match_timing_eq)

lemma sirc_feed_mark:
  assumes d: "receiving d False bs" "length bs < 20" "length (d_data d) = 5" and t: "t < mark_of b + 120" "mark_of b < t + 120"
  shows "\<exists>d'. infrared_common_decode infrared_protocol_sirc d True t = Some (None, d') \<and> receiving d' True (bs @ [b]) \<and> same_context d d'"
proof -
  note r = d(1) [unfolded receiving_def]
  let ?d = "with_sample d True t"
  have s: "d_databit_cnt ?d = length bs" "d_data ?d = d_data d" using r by (simp_all add: with_sample_def)
  obtain ds where ds: "accumulate_lsb ?d b = Some (?d \<lparr>d_data := ds, d_databit_cnt := length bs + 1\<rparr>)"
    "length ds = length (d_data d)" "data_bit ds (length bs) = b"
    "\<forall>i<length bs. data_bit ds i = data_bit (d_data d) i" "clean_from ds (length bs + 1)"
    using accumulate [of "length bs" ?d b] s r d by auto
  let ?d1 = "?d \<lparr>d_data := ds, d_databit_cnt := length bs + 1\<rparr>"
  have "infrared_common_decode_pdwm (spec_data infrared_protocol_sirc) ?d True t = Some (InfraredStatusOk, ?d1)"
    using t ds(1) by (cases b) (simp_all add: infrared_common_decode_pdwm_def Let_def sirc_match mark_of_def)
  then have "infrared_common_decode infrared_protocol_sirc d True t = Some (None, ?d1 \<lparr>d_timings_cnt := 0\<rparr>)"
    using r d(2) by (intro feed_accepted) (simp_all add: with_sample_def)
  moreover have "receiving (?d1 \<lparr>d_timings_cnt := 0\<rparr>) True (bs @ [b])"
    using r ds by (simp add: receiving_def with_sample_def nth_append less_Suc_eq)
  ultimately show ?thesis using ds(2) by (auto simp: same_context_def with_sample_def)
qed

lemma sirc_feed_space:
  assumes d: "receiving d True bs" "length bs < 20" and t: "480 < t" "t < 720"
  shows "\<exists>d'. infrared_common_decode infrared_protocol_sirc d False t = Some (None, d') \<and> receiving d' False bs \<and> same_context d d'"
proof -
  note r = d(1) [unfolded receiving_def]
  let ?d = "with_sample d False t"
  have "infrared_common_decode_pdwm (spec_data infrared_protocol_sirc) ?d False t = Some (InfraredStatusOk, ?d)"
    using t by (simp add: infrared_common_decode_pdwm_def Let_def sirc_match)
  then have "infrared_common_decode infrared_protocol_sirc d False t = Some (None, ?d \<lparr>d_timings_cnt := 0\<rparr>)"
    using r d(2) t by (intro feed_accepted) (simp_all add: with_sample_def)
  moreover have "receiving (?d \<lparr>d_timings_cnt := 0\<rparr>) False bs" using r by (simp add: receiving_def with_sample_def)
  ultimately show ?thesis by (auto simp: same_context_def with_sample_def)
qed

lemma sirc_feed_marks:
  "receiving d False bs0 \<Longrightarrow> length (d_data d) = 5 \<Longrightarrow> heard_as 120 (marks bs) ss \<Longrightarrow> bs \<noteq> [] \<Longrightarrow> length bs0 + length bs \<le> 20 \<Longrightarrow>
   \<exists>d'. infrared_feed infrared_protocol_sirc d ss = Some ([], d') \<and> receiving d' True (bs0 @ bs) \<and> same_context d d'"
proof (induction bs arbitrary: d bs0 ss rule: marks.induct)
  case (2 b)
  obtain t where t: "ss = [(True, t)]" "t < mark_of b + 120" "mark_of b < t + 120" using "2.prems"(3) by (auto simp: heard_Cons)
  then show ?case using sirc_feed_mark [OF "2.prems"(1) _ "2.prems"(2) t(2,3)] "2.prems"(5) by auto
next
  case (3 b c bs)
  obtain t u ss' where s: "ss = (True, t) # (False, u) # ss'" "t < mark_of b + 120" "mark_of b < t + 120" "480 < u" "u < 720"
    "heard_as 120 (marks (c # bs)) ss'"
    using "3.prems"(3) by (auto simp: heard_Cons)
  obtain d1 where d1: "infrared_common_decode infrared_protocol_sirc d True t = Some (None, d1)" "receiving d1 True (bs0 @ [b])" "same_context d d1"
    using sirc_feed_mark [OF "3.prems"(1) _ "3.prems"(2) s(2,3)] "3.prems"(5) by auto
  obtain d2 where d2: "infrared_common_decode infrared_protocol_sirc d1 False u = Some (None, d2)" "receiving d2 False (bs0 @ [b])" "same_context d1 d2"
    using sirc_feed_space [OF d1(2) _ s(4,5)] "3.prems"(5) by auto
  have l: "length (d_data d2) = 5" using "3.prems"(2) d1(3) d2(3) by (simp add: same_context_def)
  obtain d' where d': "infrared_feed infrared_protocol_sirc d2 ss' = Some ([], d')" "receiving d' True ((bs0 @ [b]) @ c # bs)" "same_context d2 d'"
    using "3.IH" [OF d2(2) l s(6)] "3.prems"(5) by auto
  show ?case using s(1) d1 d2(1,3) d' by (auto intro: same_context_trans)
qed simp

text \<open>A message up to its last mark, received by a decoder that has seen a space.\<close>

lemma sirc_feed_frame:
  assumes d: "idle d False" "length (d_data d) = 5" and bs: "bs \<noteq> []" "length bs \<le> 20" and ss: "heard_as 120 (frame bs) ss"
  shows "\<exists>d'. infrared_feed infrared_protocol_sirc d ss = Some ([], d') \<and> receiving d' True bs \<and> same_context d d'"
proof -
  let ?spec = infrared_protocol_sirc
  obtain pm ps ss' where s: "ss = (True, pm) # (False, ps) # ss'" "pm < 2520" "2400 < pm + 120" "ps < 720" "600 < ps + 120" "heard_as 120 (marks bs) ss'"
    using ss by (auto simp: frame_def heard_Cons)
  have "preamble_ok (timings ?spec) pm ps" using s(2-5) by (simp add: preamble_ok_def MATCH_TIMING_float_def)
  then obtain d1 where d1: "infrared_common_decode ?spec (with_sample d True pm) False ps = Some (None, d1)" "receiving d1 False []" "same_context d d1"
    using preamble_found [OF d(1), of ?spec pm ps] by (auto simp: same_context_def)
  have "length (d_data d1) = 5" using d(2) d1(3) by (simp add: same_context_def)
  then obtain d' where d': "infrared_feed ?spec d1 ss' = Some ([], d')" "receiving d' True bs" "same_context d1 d'"
    using sirc_feed_marks [OF d1(2) _ s(6) bs(1)] bs(2) by auto
  have "infrared_feed ?spec d ss = Some ([], d')" using s(1) preamble_mark_kept [OF d(1), of ?spec pm] d1(1) d'(1) by simp
  then show ?thesis using d'(2) same_context_trans [OF d1(3) d'(3)] by blast
qed

text \<open>A message and the pause behind it, which ends it or is too short to do so.\<close>

lemma sirc_feed_frame_gap:
  assumes d: "idle d False" "length (d_data d) = 5" and bs: "length bs \<in> {12, 15, 20}" and ss: "heard_as 120 (frame bs) ss"
    and msg: "\<And>d. holds_bits infrared_protocol_sirc d bs \<Longrightarrow> interpret_bits infrared_protocol_sirc d = Some (True, d \<lparr>d_message := m\<rparr>)"
    and gap: "gap \<le> 9000 \<Longrightarrow> length bs = 20"
  shows "\<exists>d'. infrared_feed infrared_protocol_sirc d (ss @ [(False, gap)]) = Some (if gap \<le> 9000 then [] else [m], d') \<and>
    idle d' False \<and> length (d_data d') = 5"
proof -
  let ?spec = infrared_protocol_sirc
  have ne: "bs \<noteq> []" "length bs \<le> 20" using bs by auto
  obtain d1 where d1: "infrared_feed ?spec d ss = Some ([], d1)" "receiving d1 True bs" "same_context d d1"
    using sirc_feed_frame [OF d ne ss] by blast
  have l: "length (d_data d1) = 5" using d(2) d1(3) by (simp add: same_context_def)
  show ?thesis
  proof (cases "gap \<le> 9000")
    case True
    then obtain d' where "infrared_common_decode ?spec d1 False gap = Some (None, d')" "idle d' False" "length (d_data d') = 5"
      using short_gap_dropped [OF d1(2), of gap ?spec] gap l by auto
    then show ?thesis using True d1(1) by (auto simp: infrared_feed_append)
  next
    case False
    have "\<exists>d'. infrared_common_decode ?spec d1 False gap = Some (Some m, d') \<and> waiting ?spec d' \<and>
        d_message d' = m \<and> d_toggle d' = d_toggle d1 \<and> length (d_data d') = length (d_data d1)"
    proof (rule gap_reported [OF d1(2)])
      show "\<exists>ds. interpret_bits ?spec d = Some (True, d \<lparr>d_data := ds, d_message := m, d_toggle := d_toggle d1\<rparr>) \<and> length ds = length (d_data d)"
        if "holds_bits ?spec d bs" "d_toggle d = d_toggle d1" for d
        using msg [OF that(1)] that(2) by (intro exI [of _ "d_data d"]) (cases d, simp)
    qed (use False bs l in auto)
    then obtain d' where "infrared_common_decode ?spec d1 False gap = Some (Some m, d')" "waiting ?spec d'" "length (d_data d') = 5"
      using l by auto
    then show ?thesis using False d1(1) by (auto simp: infrared_feed_append waiting_def idle_def)
  qed
qed

text \<open>
  All that is heard while a key is held: with a pause that the decoder can tell from a space every
  transmission is reported, with a shorter one only the last.
\<close>

lemma sirc_feed_held:
  assumes bs: "length bs \<in> {12, 15, 20}" and pause: "9120 \<le> pause bs \<or> pause bs \<le> 8880 \<and> length bs = 20"
    and msg: "\<And>d. holds_bits infrared_protocol_sirc d bs \<Longrightarrow> interpret_bits infrared_protocol_sirc d = Some (True, d \<lparr>d_message := m\<rparr>)"
    and gap: "9000 < gap"
  shows "idle d False \<Longrightarrow> length (d_data d) = 5 \<Longrightarrow> heard_as 120 (frame bs @ concat (replicate k ((False, pause bs) # frame bs))) ss \<Longrightarrow>
    \<exists>d'. infrared_feed infrared_protocol_sirc d (ss @ [(False, gap)]) = Some (if 9120 \<le> pause bs then replicate (Suc k) m else [m], d')"
proof (induction k arbitrary: d ss)
  case 0
  then show ?case using sirc_feed_frame_gap [OF 0(1,2) bs _ msg, of ss gap] gap by auto
next
  case (Suc k)
  obtain us vs where ss: "ss = us @ vs" "heard_as 120 (frame bs) us" "heard_as 120 (concat (replicate (Suc k) ((False, pause bs) # frame bs))) vs"
    using Suc.prems(3) by (rule heard_append)
  obtain t ws where vs: "vs = (False, t) # ws" "t < pause bs + 120" "pause bs < t + 120" "heard_as 120 (frame bs @ concat (replicate k ((False, pause bs) # frame bs))) ws"
    using ss(3) by (auto simp: heard_Cons)
  obtain d1 where d1: "infrared_feed infrared_protocol_sirc d (us @ [(False, t)]) = Some (if t \<le> 9000 then [] else [m], d1)" "idle d1 False" "length (d_data d1) = 5"
    using sirc_feed_frame_gap [OF Suc.prems(1,2) bs ss(2) msg, of t] vs(2,3) pause by auto
  obtain d' where d': "infrared_feed infrared_protocol_sirc d1 (ws @ [(False, gap)]) = Some (if 9120 \<le> pause bs then replicate (Suc k) m else [m], d')"
    using Suc.IH [OF d1(2,3) vs(4)] by blast
  have "ss @ [(False, gap)] = (us @ [(False, t)]) @ ws @ [(False, gap)]" using ss(1) vs(1) by simp
  then have "infrared_feed infrared_protocol_sirc d (ss @ [(False, gap)]) =
      Some ((if t \<le> 9000 then [] else [m]) @ (if 9120 \<le> pause bs then replicate (Suc k) m else [m]), d')"
    using infrared_feed_then [OF d1(1), of "ws @ [(False, gap)]"] d' by simp
  then show ?case using pause vs(2,3) by auto
qed

section \<open>From a message to bits and back\<close>

definition sirc_bits :: "nat \<Rightarrow> InfraredMessage \<Rightarrow> bool list" where
  "sirc_bits al m = map (bit (command m)) [0..<7] @ map (bit (address m)) [0..<al]"

definition sirc_ones :: "InfraredMessage \<Rightarrow> nat" where
  "sirc_ones m = ones (sirc_bits 13 m)"

text \<open>The three lengths, with the address bits of each.\<close>

definition sirc_message :: "nat \<Rightarrow> InfraredMessage \<Rightarrow> bool" where
  "sirc_message al m \<longleftrightarrow> (protocol m, al) \<in> {(InfraredProtocolSIRC, 5), (InfraredProtocolSIRC15, 8), (InfraredProtocolSIRC20, 13)} \<and>
     message_of (protocol m) al 7 m"

lemma sirc_common_reset:
  "length (e_data e) = 5 \<Longrightarrow> infrared_common_encoder_reset infrared_protocol_sirc e = Some (cleared e 3)"
  by (simp add: infrared_common_encoder_reset_def Let_def memset_def cleared_def numeral_3_eq_3)

lemma sirc_reset:
  assumes m: "sirc_message al m" and l: "length (e_data e) = 5"
  shows "\<exists>e'. infrared_encoder_sirc_reset e m = Some e' \<and> encoder_ready e' (sirc_bits al m)"
proof -
  let ?ds = "e_data (cleared e 3)" and ?w = "command m AND 0x7F OR shl (address m AND mask al) 7"
  have l': "length ?ds = 5" using l by simp
  have al: "al = 5 \<or> al = 8 \<or> al = 13" using m by (auto simp: sirc_message_def)
  have masks: "mask 5 = (0x1F :: u32)" "mask 8 = (0xFF :: u32)" "mask 13 = (0x1FFF :: u32)" by (simp_all add: mask_eq_exp_minus_1)
  have r: "infrared_encoder_sirc_reset e m = Some (cleared e 3 \<lparr>e_data := put_u32 ?ds 0 ?w, bits_to_encode := 7 + al\<rparr>)"
    using m l l' by (auto simp: sirc_message_def infrared_encoder_sirc_reset_def sirc_common_reset st_u32_eq or_u32_put masks)
  have "bit ?w k = sirc_bits al m ! k" if k: "k < 7 + al" for k
  proof (cases "k < 7")
    case True
    then show ?thesis by (simp add: sirc_bits_def nth_append bit_simps bit_0x7F)
  next
    case False
    then show ?thesis using k al message_of_bits [of "protocol m" al 7 m] m
      by (auto simp: sirc_bits_def nth_append bit_simps sirc_message_def bit_mask_iff)
  qed
  then have "bits_of (put_u32 ?ds 0 ?w) (7 + al) = sirc_bits al m"
    using al l' by (intro nth_equalityI) (auto simp: bits_of_def data_bit_put sirc_bits_def)
  moreover have "encoder_ready (cleared e 3 \<lparr>e_data := put_u32 ?ds 0 ?w, bits_to_encode := 7 + al\<rparr>) (bits_of (put_u32 ?ds 0 ?w) (7 + al))"
    using al l' by (intro cleared_ready) auto
  ultimately show ?thesis using r by auto
qed

lemma sirc_interpret:
  assumes m: "sirc_message al m" and h: "holds_bits infrared_protocol_sirc d (sirc_bits al m)"
  shows "infrared_decoder_sirc_interpret d = Some (True, d \<lparr>d_message := m\<rparr>)"
proof -
  note h = h [unfolded holds_bits_def]
  have al: "al = 5 \<or> al = 8 \<or> al = 13" using m by (auto simp: sirc_message_def)
  have n: "length (sirc_bits al m) = 7 + al" by (simp add: sirc_bits_def)
  obtain w where w: "ld_u32 (d_data d) 0 = Some w" "\<And>k. k < 32 \<Longrightarrow> bit w k = data_bit (d_data d) (8 * 0 + k)"
    using ld_u32_bits [of 0 "d_data d"] h by auto
  have b: "bit w k = sirc_bits al m ! k" if "k < 7 + al" for k using w(2) [of k] h n that al by auto
  have mo: "message_of (protocol m) al 7 m" using m by (simp add: sirc_message_def)
  have wc: "bit w k = bit (command m) k" if "k < 7" for k using b [of k] that by (simp add: sirc_bits_def nth_append)
  have wa: "bit w (7 + k) = bit (address m) k" if "k < al" for k using b [of "7 + k"] that by (simp add: sirc_bits_def nth_append)
  note none = message_of_bits_none [OF mo]
  have c: "ucast (ucast (w AND 0x7F) :: u8) = command m"
  proof (rule bit_word_eqI)
    fix n assume "n < LENGTH(32)"
    then show "bit (ucast (ucast (w AND 0x7F) :: u8) :: u32) n = bit (command m) n"
      using wc [of n] none(2) [of n] by (cases "n < 7") (auto simp: bit_simps bit_0x7F)
  qed
  have a: "ucast (ucast (shr w 7 AND mask al) :: u16) = address m"
  proof (rule bit_word_eqI)
    fix n assume "n < LENGTH(32)"
    then show "bit (ucast (ucast (shr w 7 AND mask al) :: u16) :: u32) n = bit (address m) n"
      using wa [of n] none(1) [of n] al by (cases "n < al") (auto simp: bit_simps bit_mask_iff)
  qed
  have masks: "mask 5 = (0x1F :: u32)" "mask 8 = (0xFF :: u32)" "mask 13 = (0x1FFF :: u32)" by (simp_all add: mask_eq_exp_minus_1)
  have p: "\<lparr>protocol = protocol m, address = address m, command = command m, repeat = False\<rparr> = m"
    using mo by (cases m) (simp add: message_of_def)
  have cnt: "d_databit_cnt d = 7 + al" using h n by simp
  from m consider "protocol m = InfraredProtocolSIRC" "al = 5" | "protocol m = InfraredProtocolSIRC15" "al = 8" | "protocol m = InfraredProtocolSIRC20" "al = 13"
    by (auto simp: sirc_message_def)
  then show ?thesis
    by cases (use w(1) a c p cnt masks in \<open>simp_all add: infrared_decoder_sirc_interpret_def set_message_def\<close>)
qed

lemma ones_append: "ones (xs @ ys) = ones xs + ones ys"
  by (simp add: ones_def)

lemma ones_bound: "ones xs \<le> length xs"
  by (simp add: ones_def)

lemma sirc_bits_ones:
  assumes "sirc_message al m"
  shows "ones (sirc_bits al m) = sirc_ones m"
proof -
  have al: "al \<le> 13" "message_of (protocol m) al 7 m" using assms by (auto simp: sirc_message_def)
  have "[0..<13] = [0..<al] @ [al..<13]" using al(1) upt_add_eq_append [of 0 al "13 - al"] by simp
  then have "sirc_bits 13 m = sirc_bits al m @ map (bit (address m)) [al..<13]" by (simp add: sirc_bits_def)
  moreover have "ones (map (bit (address m)) [al..<13]) = 0"
    using message_of_bits_none(1) [OF al(2)] by (simp add: ones_def filter_empty_conv)
  ultimately show ?thesis by (simp add: sirc_ones_def ones_append)
qed

text \<open>The pause is what the message leaves of the period.\<close>

lemma sirc_pause:
  assumes m: "sirc_message al m"
  shows "pause (sirc_bits al m) = 45000 - (10800 + 1200 * al + 600 * sirc_ones m)" "time_of (frame (sirc_bits al m)) < 45000"
proof -
  have n: "length (sirc_bits al m) = 7 + al" "sirc_bits al m \<noteq> []" by (simp_all add: sirc_bits_def)
  have t: "time_of (frame (sirc_bits al m)) = 10800 + 1200 * al + 600 * sirc_ones m"
    using frame_time [OF n(2)] n(1) sirc_bits_ones [OF m] by simp
  have "al \<le> 13" using m by (auto simp: sirc_message_def)
  then show "pause (sirc_bits al m) = 45000 - (10800 + 1200 * al + 600 * sirc_ones m)" "time_of (frame (sirc_bits al m)) < 45000"
    using t ones_bound [of "sirc_bits al m"] sirc_bits_ones [OF m] n(1) by (simp_all add: pause_def INFRARED_SIRC_REPEAT_PERIOD_def)
qed

lemma sirc_pause_cases:
  assumes m: "sirc_message al m" and ones: "sirc_ones m \<noteq> 16"
  shows "if sirc_ones m \<le> 15 then 9120 \<le> pause (sirc_bits al m) else pause (sirc_bits al m) \<le> 8880 \<and> al = 13"
proof -
  have "al = 5 \<or> al = 8 \<or> al = 13" using m by (auto simp: sirc_message_def)
  moreover have "sirc_ones m \<le> 7 + al" using ones_bound [of "sirc_bits al m"] sirc_bits_ones [OF m] by (simp add: sirc_bits_def)
  ultimately show ?thesis using sirc_pause(1) [OF m] ones by auto
qed

lemma held_signal_levels: "map snd (held_signal bs k) = (False, 10000) # frame bs @ concat (replicate k ((False, pause bs) # frame bs))"
  by (simp add: held_signal_def frame_def snd_finished map_concat)

lemma held_signal_done:
  "fst (last (held_signal bs k)) = InfraredStatusDone"
  "length (filter (\<lambda>s. fst s = InfraredStatusDone) (held_signal bs k)) = Suc k"
proof -
  have c: "length (filter (\<lambda>s. fst s = InfraredStatusDone) (finished xs)) = 1" for xs
    by (simp add: finished_def filter_map comp_def)
  have "length (filter (\<lambda>s. fst s = InfraredStatusDone) (concat (replicate k (finished xs)))) = k" for xs
    by (induction k) (simp_all add: c)
  then show "length (filter (\<lambda>s. fst s = InfraredStatusDone) (held_signal bs k)) = Suc k" by (simp add: held_signal_def c)
  have "finished xs \<noteq> [] \<and> fst (last (finished xs)) = InfraredStatusDone" for xs by (simp add: finished_def)
  then show "fst (last (held_signal bs k)) = InfraredStatusDone"
    by (induction k rule: nat_induct) (simp_all add: held_signal_def replicate_append_same [symmetric])
qed

section \<open>Properties\<close>

text \<open>
  C10. SIRC keys, in the three lengths. Reset to a message that fits its variant, the encoder sends it and repeats it
  for as long as it is called, and says at the end of each transmission that it is done. Whatever a new decoder
  hears of this, each duration off by less than 120 microseconds and a pause at the end, it reports
  every transmission of a message that has at most 15 one bits. The repetitions start 45 ms apart, so that a
  SIRC20 message with more than 16 one bits leaves a pause that the decoder does not take for the end of a
  message: of such a message it reports only the last transmission. With 16 one bits the pause is
  exactly the threshold, and the case is left open.
\<close>

theorem infrared_sirc_held:
  assumes v: "infrared_protocol_sirc_get_variant (protocol m) = Some v" "fits_variant v m" and ones: "sirc_ones m \<noteq> 16"
    and e: "length (e_data e0) = infrared_data_bytes (spec_data infrared_protocol_sirc)"
  shows "\<exists>e n sent e'. infrared_encoder_sirc_reset e0 m = Some e \<and> sirc_calls n e = Some (sent, e') \<and>
    fst (last sent) = InfraredStatusDone \<and> length (filter (\<lambda>s. fst s = InfraredStatusDone) sent) = Suc k \<and>
    (\<forall>received gap. heard_as (bit_tolerance (timings infrared_protocol_sirc)) (map snd sent) received \<longrightarrow>
       min_split_time (timings infrared_protocol_sirc) < gap \<longrightarrow>
       (\<exists>d. infrared_feed infrared_protocol_sirc (infrared_common_decoder_alloc infrared_protocol_sirc) (received @ [(False, gap)]) =
          Some (if sirc_ones m \<le> 15 then replicate (Suc k) m else [m], d)))"
proof -
  let ?spec = infrared_protocol_sirc
  obtain al where m: "sirc_message al m"
    using v by (auto simp: infrared_protocol_sirc_get_variant_def fits_variant_def sirc_message_def message_of_def split: if_splits)
  let ?bs = "sirc_bits al m"
  obtain e where r: "infrared_encoder_sirc_reset e0 m = Some e" "encoder_ready e ?bs" using sirc_reset [OF m] e by auto
  obtain n e' where sent: "sirc_calls n e = Some (held_signal ?bs k, e')" using sirc_send_held [OF r(2) sirc_pause(2) [OF m]] by blast
  have len: "length ?bs \<in> {12, 15, 20}" using m by (auto simp: sirc_message_def sirc_bits_def)
  note pause = sirc_pause_cases [OF m ones]
  have "\<exists>d. infrared_feed ?spec (infrared_common_decoder_alloc ?spec) (received @ [(False, gap)]) = Some (if sirc_ones m \<le> 15 then replicate (Suc k) m else [m], d)"
    if rec: "heard_as 120 (map snd (held_signal ?bs k)) received" and gap: "9000 < gap" for received gap
  proof -
    obtain t ss where s: "received = (False, t) # ss" "heard_as 120 (frame ?bs @ concat (replicate k ((False, pause ?bs) # frame ?bs))) ss"
      using rec unfolding held_signal_levels by (auto simp: heard_Cons)
    obtain d1 where d1: "infrared_common_decode ?spec (infrared_common_decoder_alloc ?spec) False t = Some (None, d1)" "idle d1 False" "length (d_data d1) = 5"
      using feed_first_space [OF alloc_decoder(1), of ?spec ?spec t] by (auto simp: waiting_def idle_def same_context_def)
    have p: "9120 \<le> pause ?bs \<longleftrightarrow> sirc_ones m \<le> 15" "9120 \<le> pause ?bs \<or> pause ?bs \<le> 8880 \<and> length ?bs = 20"
      using pause by (auto simp: sirc_bits_def split: if_splits)
    obtain d where "infrared_feed ?spec d1 (ss @ [(False, gap)]) = Some (if 9120 \<le> pause ?bs then replicate (Suc k) m else [m], d)"
      using sirc_feed_held [OF len p(2) _ gap d1(2,3) s(2), of m] sirc_interpret [OF m] by auto
    then show ?thesis using s(1) d1(1) p(1) by auto
  qed
  then show ?thesis using r(1) sent held_signal_done [of ?bs k] by (intro exI conjI) auto
qed

lemma infrared_sirc_held_witness:
  "\<exists>e n sent e'. infrared_encoder_sirc_reset (infrared_common_encoder_alloc infrared_protocol_sirc)
      \<lparr>protocol = InfraredProtocolSIRC20, address = 0x1FFF, command = 0x7F, repeat = False\<rparr> = Some e \<and> sirc_calls n e = Some (sent, e') \<and>
    fst (last sent) = InfraredStatusDone \<and> length (filter (\<lambda>s. fst s = InfraredStatusDone) sent) = 3 \<and>
    (\<forall>received gap. heard_as 120 (map snd sent) received \<longrightarrow> 9000 < gap \<longrightarrow>
       (\<exists>d. infrared_feed infrared_protocol_sirc (infrared_common_decoder_alloc infrared_protocol_sirc) (received @ [(False, gap)]) =
          Some ([\<lparr>protocol = InfraredProtocolSIRC20, address = 0x1FFF, command = 0x7F, repeat = False\<rparr>], d)))"
proof -
  let ?m = "\<lparr>protocol = InfraredProtocolSIRC20, address = 0x1FFF, command = 0x7F, repeat = False\<rparr> :: InfraredMessage"
  have "sirc_ones ?m = 20" by code_simp
  then show ?thesis
    using infrared_sirc_held [of ?m _ "infrared_common_encoder_alloc infrared_protocol_sirc" 2]
    by (simp add: infrared_protocol_sirc_get_variant_def fits_variant_def infrared_common_encoder_alloc_def)
qed

end
