(* ===== verification/InfraredTotal.thy ===== *)
theory InfraredTotal
  imports InfraredSirc
begin

text \<open>
  Decoders that never get stuck. The locale \<open>bounded_protocol\<close> states what the functions of a protocol have to
  promise: the bit decoder returns with the bits inside the longest message, and bits that are
  not a message are only rejected at the longest length, because the code goes back to waiting for a
  preamble only there. In it, the common decoder is shown to return on every sequence of samples.
\<close>

section \<open>States\<close>

text \<open>The level of the oldest sample in the buffer, or of the next one if it is empty.\<close>

definition next_level :: "InfraredCommonDecoder \<Rightarrow> bool" where
  "next_level d \<longleftrightarrow> (of_bool (d_level d) + d_timings_cnt d + 1) mod 2 = (1 :: nat)"

definition base_ok :: "InfraredCommonProtocolSpec \<Rightarrow> InfraredCommonDecoder \<Rightarrow> bool" where
  "base_ok spec d \<longleftrightarrow> length (d_timings d) = INFRARED_SAMPLES \<and> length (d_data d) = infrared_data_bytes (spec_data spec) \<and>
     d_databit_cnt d \<le> databit_len spec ! 0 \<and> d_timings_cnt d \<le> INFRARED_SAMPLES"

text \<open>
  The state between two samples, and the state between two turns of the loop, with the number
  that goes down from turn to turn. \<open>keeps\<close> is what a protocol keeps of the number of bits, the flag of the
  Manchester decoder and the next level while it collects bits.
\<close>

definition decoder_ok :: "InfraredCommonProtocolSpec \<Rightarrow> nat \<Rightarrow> (nat \<Rightarrow> bool \<Rightarrow> bool \<Rightarrow> bool) \<Rightarrow> InfraredCommonDecoder \<Rightarrow> bool" where
  "decoder_ok spec repeat_len keeps d \<longleftrightarrow> base_ok spec d \<and>
     (case d_state d of
        InfraredCommonDecoderStateWaitPreamble \<Rightarrow> d_timings_cnt d < INFRARED_SAMPLES
      | InfraredCommonDecoderStateDecode \<Rightarrow> d_timings_cnt d = 0 \<and> keeps (d_databit_cnt d) (d_switch_detect d) (next_level d)
      | InfraredCommonDecoderStateProcessRepeat \<Rightarrow> d_timings_cnt d < repeat_len \<and> decode_repeat spec \<noteq> None)"

definition loop_ok :: "InfraredCommonProtocolSpec \<Rightarrow> (nat \<Rightarrow> bool \<Rightarrow> bool \<Rightarrow> bool) \<Rightarrow> InfraredCommonDecoder \<Rightarrow> bool" where
  "loop_ok spec keeps d \<longleftrightarrow> base_ok spec d \<and>
     (d_state d = InfraredCommonDecoderStateDecode \<longrightarrow>
        d_timings_cnt d \<le> INFRARED_SAMPLES - 2 \<and> keeps (d_databit_cnt d) (d_switch_detect d) (next_level d)) \<and>
     (d_state d = InfraredCommonDecoderStateProcessRepeat \<longrightarrow> decode_repeat spec \<noteq> None)"

definition turns_left :: "InfraredCommonDecoder \<Rightarrow> nat" where
  "turns_left d = 3 * (d_timings_cnt d div 2) + (case d_state d of
      InfraredCommonDecoderStateWaitPreamble \<Rightarrow> 0
    | InfraredCommonDecoderStateProcessRepeat \<Rightarrow> 1
    | InfraredCommonDecoderStateDecode \<Rightarrow> 2)"

lemma consume_ok:
  assumes "base_ok spec d" "n \<le> d_timings_cnt d"
  obtains d' ts where "decoder_consume d n = Some d'" "d' = d \<lparr>d_timings := ts, d_timings_cnt := d_timings_cnt d - n\<rparr>" "base_ok spec d'"
proof -
  obtain ts where "decoder_consume d n = Some (d \<lparr>d_timings := ts, d_timings_cnt := d_timings_cnt d - n\<rparr>)" "length ts = INFRARED_SAMPLES"
    using consume_some [of n d] assms by (auto simp: base_ok_def)
  then show thesis using that assms by (auto simp: base_ok_def)
qed

lemma preamble_loop_ok:
  assumes "base_ok spec d" "d_timings_cnt d < fuel"
  shows "\<exists>r d'. preamble_loop fuel pd d = Some (r, d') \<and> base_ok spec d' \<and> d_state d' = d_state d \<and>
    (if r then d_timings_cnt d' + 2 \<le> d_timings_cnt d else d_timings_cnt d' < 2)"
  using assms
proof (induction fuel arbitrary: d)
  case (Suc fuel)
  show ?case
  proof (cases "d_timings_cnt d \<ge> 2")
    case True
    obtain d1 ts where d1: "decoder_consume d 2 = Some d1" "d1 = d \<lparr>d_timings := ts, d_timings_cnt := d_timings_cnt d - 2\<rparr>" "base_ok spec d1"
      using consume_ok [OF Suc.prems(1) True] by blast
    have "rd (d_timings d) 0 = Some (d_timings d ! 0)" "rd (d_timings d) 1 = Some (d_timings d ! 1)"
      using Suc.prems(1) by (simp_all only: rd_def base_ok_def INFRARED_SAMPLES_def) simp_all
    then obtain r where r: "preamble_step pd d = Some (r, d1)" using d1(1) by (simp add: preamble_step_def Let_def)
    obtain r' d' where "preamble_loop fuel pd d1 = Some (r', d')" "base_ok spec d'" "d_state d' = d_state d"
        "if r' then d_timings_cnt d' + 2 \<le> d_timings_cnt d else d_timings_cnt d' < 2"
      using Suc.IH [OF d1(3)] Suc.prems(2) True d1(2) by (fastforce split: if_splits)
    then show ?thesis using True r d1(2,3)
      by (cases r) (intro exI [of _ True] exI [of _ d1], simp, intro exI [of _ r'] exI [of _ d'], simp)
  qed (use Suc.prems in auto)
qed simp

section \<open>The interface\<close>

locale bounded_protocol =
  fixes spec :: InfraredCommonProtocolSpec and repeat_len :: nat and keeps :: "nat \<Rightarrow> bool \<Rightarrow> bool \<Rightarrow> bool"
  assumes preamble: "preamble_mark (timings spec) \<noteq> 0" and split_time: "min_split_time (timings spec) \<noteq> 0"
    and lens: "databit_len spec \<noteq> []" "0 < databit_len spec ! 0"
    and keeps_start: "keeps 0 False lv"
    and decode_total: "length (d_data d) = infrared_data_bytes (spec_data spec) \<Longrightarrow> d_databit_cnt d \<le> databit_len spec ! 0 \<Longrightarrow>
      keeps (d_databit_cnt d) (d_switch_detect d) lv \<Longrightarrow> (\<not> lv \<Longrightarrow> d_databit_cnt d < databit_len spec ! 0) \<Longrightarrow>
      \<exists>st ds k sw. decode spec (spec_data spec) d lv t = Some (st, d \<lparr>d_data := ds, d_databit_cnt := k, d_switch_detect := sw\<rparr>) \<and>
        length ds = length (d_data d) \<and> k \<le> databit_len spec ! 0 \<and>
        (st = InfraredStatusError \<or> st = InfraredStatusOk \<and> keeps k sw (\<not> lv))"
    and interpret_total: "d_databit_cnt d \<in> set (databit_lens (spec_data spec)) \<Longrightarrow>
      length (d_data d) = infrared_data_bytes (spec_data spec) \<Longrightarrow>
      \<exists>ok ds m tg. interpret_bits spec d = Some (ok, d \<lparr>d_data := ds, d_message := m, d_toggle := tg\<rparr>) \<and> length ds = length (d_data d) \<and>
        (ok \<or> d_databit_cnt d = databit_len spec ! 0)"
    and repeat_len: "1 < repeat_len" "repeat_len \<le> INFRARED_SAMPLES"
    and repeat_waits: "decode_repeat spec = Some dr \<Longrightarrow> d_timings_cnt d < repeat_len \<Longrightarrow>
      dr (spec_data spec) d = Some (InfraredStatusOk, d)"
    and repeat_decides: "decode_repeat spec = Some dr \<Longrightarrow> repeat_len \<le> d_timings_cnt d \<Longrightarrow>
      length (d_timings d) = INFRARED_SAMPLES \<Longrightarrow>
      dr (spec_data spec) d = Some (InfraredStatusError, d) \<or>
      dr (spec_data spec) d = Some (InfraredStatusReady, d \<lparr>d_timings_cnt := 0\<rparr>)"
begin

lemma longest_in: "databit_len spec ! 0 \<in> set (databit_lens (spec_data spec))"
  using lens by (cases "databit_len spec") (auto simp: databit_lens_def)

text \<open>One turn of the loop over the samples: a sample is used up, and the bits stay within the longest message.\<close>

lemma decode_bits_step_ok:
  assumes d: "base_ok spec d" "d_timings_cnt d \<noteq> 0" "keeps (d_databit_cnt d) (d_switch_detect d) (next_level d)"
  shows "\<exists>r. decode_bits_step spec d = Some r \<and> (case r of
      Inl (st, d') \<Rightarrow> base_ok spec d' \<and> d_state d' = d_state d \<and> d_timings_cnt d' = d_timings_cnt d \<and>
        (st = InfraredStatusReady \<and> d_databit_cnt d' \<in> set (databit_lens (spec_data spec)) \<or> st = InfraredStatusError)
    | Inr d' \<Rightarrow> base_ok spec d' \<and> keeps (d_databit_cnt d') (d_switch_detect d') (next_level d') \<and> d_state d' = d_state d \<and>
        d_timings_cnt d' + 1 = d_timings_cnt d)"
proof -
  let ?lv = "next_level d" and ?t = "d_timings d ! 0"
  note b = d(1) [unfolded base_ok_def]
  have t: "rd (d_timings d) 0 = Some ?t" using b by (simp add: rd_def INFRARED_SAMPLES_def)
  consider (early) "\<not> ?lv" "d_databit_cnt d = databit_len spec ! 0 \<or> ?t > min_split_time (timings spec) \<and> d_databit_cnt d \<in> set (databit_lens (spec_data spec))"
    | (bits) "\<not> ?lv \<longrightarrow> d_databit_cnt d < databit_len spec ! 0 \<and>
          \<not> (?t > min_split_time (timings spec) \<and> d_databit_cnt d \<in> set (databit_lens (spec_data spec)))"
    using b by linarith
  then show ?thesis
  proof cases
    case early
    then show ?thesis using t d split_time longest_in by (auto simp: decode_bits_step_def next_level_def Let_def)
  next
    case bits
    obtain st ds k sw where dec: "decode spec (spec_data spec) d ?lv ?t = Some (st, d \<lparr>d_data := ds, d_databit_cnt := k, d_switch_detect := sw\<rparr>)"
      "length ds = length (d_data d)" "k \<le> databit_len spec ! 0" "st = InfraredStatusError \<or> st = InfraredStatusOk \<and> keeps k sw (\<not> ?lv)"
      using decode_total [of d ?lv ?t] b d(3) bits by blast
    let ?d = "d \<lparr>d_data := ds, d_databit_cnt := k, d_switch_detect := sw\<rparr>"
    have ok: "base_ok spec ?d" using b dec by (simp add: base_ok_def)
    obtain d' ts where d': "decoder_consume ?d 1 = Some d'" "d' = ?d \<lparr>d_timings := ts, d_timings_cnt := d_timings_cnt d - 1\<rparr>" "base_ok spec d'"
      using consume_ok [OF ok, of 1] d(2) by auto
    have "next_level d' = (\<not> ?lv)"
    proof -
      obtain n where "d_timings_cnt d = Suc n" using d(2) by (cases "d_timings_cnt d") auto
      then show ?thesis using d'(2) by (cases "d_level d"; cases "even n") (auto simp: next_level_def mod_2_eq_odd)
    qed
    moreover have "decode_bits_step spec d = (if st = InfraredStatusError then Some (Inl (st, ?d)) else Some (Inr d'))"
      using bits dec t d'(1) split_time unfolding decode_bits_step_def next_level_def [symmetric] Let_def by (cases ?lv) auto
    ultimately show ?thesis using ok dec(4) d' d(2) by auto
  qed
qed

lemma decode_bits_loop_ok:
  assumes "base_ok spec d" "keeps (d_databit_cnt d) (d_switch_detect d) (next_level d)" "d_timings_cnt d < fuel"
  shows "\<exists>st d'. decode_bits_loop fuel spec d = Some (st, d') \<and> base_ok spec d' \<and> d_state d' = d_state d \<and>
    d_timings_cnt d' \<le> d_timings_cnt d \<and>
    (st = InfraredStatusOk \<and> d_timings_cnt d' = 0 \<and> keeps (d_databit_cnt d') (d_switch_detect d') (next_level d') \<or> st = InfraredStatusError \<or>
     st = InfraredStatusReady \<and> d_databit_cnt d' \<in> set (databit_lens (spec_data spec)))"
  using assms
proof (induction fuel arbitrary: d)
  case (Suc fuel)
  show ?case
  proof (cases "d_timings_cnt d = 0")
    case False
    obtain r where r: "decode_bits_step spec d = Some r" "case r of
      Inl (st, d') \<Rightarrow> base_ok spec d' \<and> d_state d' = d_state d \<and> d_timings_cnt d' = d_timings_cnt d \<and>
        (st = InfraredStatusReady \<and> d_databit_cnt d' \<in> set (databit_lens (spec_data spec)) \<or> st = InfraredStatusError)
    | Inr d' \<Rightarrow> base_ok spec d' \<and> keeps (d_databit_cnt d') (d_switch_detect d') (next_level d') \<and> d_state d' = d_state d \<and>
        d_timings_cnt d' + 1 = d_timings_cnt d"
      using decode_bits_step_ok [OF Suc.prems(1) False Suc.prems(2)] by blast
    show ?thesis
    proof (cases r)
      case (Inl p)
      then show ?thesis using r False by (cases p) auto
    next
      case (Inr d1)
      then have "base_ok spec d1" "keeps (d_databit_cnt d1) (d_switch_detect d1) (next_level d1)" "d_state d1 = d_state d" "d_timings_cnt d1 + 1 = d_timings_cnt d"
        using r by simp_all
      then show ?thesis using Suc.IH [of d1] Suc.prems(3) r(1) Inr False by fastforce
    qed
  qed (use Suc.prems in simp)
qed simp

lemma check_preamble_ok:
  assumes "base_ok spec d"
  shows "\<exists>r d'. infrared_check_preamble (spec_data spec) d = Some (r, d') \<and> base_ok spec d' \<and> d_state d' = d_state d \<and>
    (if r then d_timings_cnt d' + 2 \<le> d_timings_cnt d else d_timings_cnt d' < 2)"
proof (cases "d_timings_cnt d = 0")
  case False
  let ?lv = "(of_bool (d_level d) + d_timings_cnt d + 1) mod 2 = (1 :: nat)"
  obtain d0 ts where d0: "decoder_consume d 1 = Some d0" "d0 = d \<lparr>d_timings := ts, d_timings_cnt := d_timings_cnt d - 1\<rparr>" "base_ok spec d0"
    using consume_ok [OF assms, of 1] False by auto
  define d1 where "d1 = (if ?lv then d else d0)"
  have d1: "base_ok spec d1" "d_state d1 = d_state d" "d_timings_cnt d1 \<le> d_timings_cnt d"
    using assms d0(2,3) by (auto simp: d1_def)
  have "d_timings_cnt d1 < Suc INFRARED_SAMPLES" using d1(1) by (simp add: base_ok_def)
  then obtain r d' where r: "preamble_loop (Suc INFRARED_SAMPLES) (spec_data spec) d1 = Some (r, d')" "base_ok spec d'" "d_state d' = d_state d1"
    "if r then d_timings_cnt d' + 2 \<le> d_timings_cnt d1 else d_timings_cnt d' < 2"
    using preamble_loop_ok [OF d1(1)] by metis
  have "infrared_check_preamble (spec_data spec) d = Some (r, d')"
    using False preamble d0(1) r(1) unfolding infrared_check_preamble_def d1_def
    by (cases ?lv) (simp_all only: Let_def spec_data_simps if_True if_False, simp_all)
  then show ?thesis using r d1 by (auto split: if_splits)
qed (use assms in \<open>auto simp: infrared_check_preamble_def\<close>)

text \<open>One turn of the outer loop, by the state it starts in.\<close>

lemma step_wait:
  assumes d: "base_ok spec d" "d_state d = InfraredCommonDecoderStateWaitPreamble"
  shows "\<exists>r. common_decode_step spec (msg, d) = Some r \<and> (case r of
      Inl (msg', d') \<Rightarrow> decoder_ok spec repeat_len keeps d'
    | Inr (msg', d') \<Rightarrow> loop_ok spec keeps d' \<and> turns_left d' < turns_left d)"
proof -
  obtain r d' where r: "infrared_check_preamble (spec_data spec) d = Some (r, d')" "base_ok spec d'" "d_state d' = d_state d"
    "if r then d_timings_cnt d' + 2 \<le> d_timings_cnt d else d_timings_cnt d' < 2"
    using check_preamble_ok [OF d(1)] by blast
  show ?thesis
  proof (cases r)
    case True
    then have "d_timings_cnt d' div 2 + 1 \<le> d_timings_cnt d div 2" "d_timings_cnt d' + 2 \<le> INFRARED_SAMPLES" using r(4) d by (auto simp: base_ok_def)
    then show ?thesis using True r d(2) keeps_start by (auto simp: common_decode_step_def loop_ok_def base_ok_def turns_left_def)
  next
    case False
    then show ?thesis using r d(2) by (auto simp: common_decode_step_def decoder_ok_def INFRARED_SAMPLES_def)
  qed
qed

lemma step_decode:
  assumes d: "base_ok spec d" "d_state d = InfraredCommonDecoderStateDecode" "keeps (d_databit_cnt d) (d_switch_detect d) (next_level d)"
    "d_timings_cnt d \<le> INFRARED_SAMPLES - 2"
  shows "\<exists>r. common_decode_step spec (msg, d) = Some r \<and> (case r of
      Inl (msg', d') \<Rightarrow> decoder_ok spec repeat_len keeps d'
    | Inr (msg', d') \<Rightarrow> loop_ok spec keeps d' \<and> turns_left d' < turns_left d)"
proof -
  have c: "d_timings_cnt d < Suc INFRARED_SAMPLES" using d(1) by (simp add: base_ok_def)
  obtain st d' where r: "infrared_common_decode_bits spec d = Some (st, d')" "base_ok spec d'" "d_state d' = InfraredCommonDecoderStateDecode"
    "d_timings_cnt d' \<le> d_timings_cnt d"
    and st: "st = InfraredStatusOk \<and> d_timings_cnt d' = 0 \<and> keeps (d_databit_cnt d') (d_switch_detect d') (next_level d') \<or> st = InfraredStatusError \<or>
     st = InfraredStatusReady \<and> d_databit_cnt d' \<in> set (databit_lens (spec_data spec))"
    using decode_bits_loop_ok [OF d(1,3) c] d(2) unfolding infrared_common_decode_bits_def by metis
  have le: "3 * (d_timings_cnt d' div 2) \<le> 3 * (d_timings_cnt d div 2)" using div_le_mono [OF r(4), of 2] by simp
  from st consider (ok) "st = InfraredStatusOk" "d_timings_cnt d' = 0" "keeps (d_databit_cnt d') (d_switch_detect d') (next_level d')"
    | (err) "st = InfraredStatusError" | (ready) "st = InfraredStatusReady" "d_databit_cnt d' \<in> set (databit_lens (spec_data spec))" by metis
  then show ?thesis
  proof cases
    case ok
    then show ?thesis using r d(2) by (simp add: common_decode_step_def decoder_ok_def)
  next
    case err
    then show ?thesis using r le d(2) preamble
      by (simp add: common_decode_step_def infrared_common_decoder_reset_state_def Let_def loop_ok_def base_ok_def turns_left_def)
  next
    case ready
    have "length (d_data d') = infrared_data_bytes (spec_data spec)" using r(2) by (simp add: base_ok_def)
    then obtain ok ds m tg where i: "interpret_bits spec d' = Some (ok, d' \<lparr>d_data := ds, d_message := m, d_toggle := tg\<rparr>)" "length ds = length (d_data d')"
      "ok \<or> d_databit_cnt d' = databit_len spec ! 0"
      using interpret_total [OF ready(2)] by blast
    show ?thesis
    proof (cases ok)
      case True
      then show ?thesis using i ready r le d(2)
        by (auto simp: common_decode_step_def infrared_common_decoder_check_ready_def loop_ok_def base_ok_def turns_left_def)
    next
      case False
      then show ?thesis using i ready r(1-4) d(2,4)
        by (auto simp: common_decode_step_def infrared_common_decoder_check_ready_def base_ok_def decoder_ok_def INFRARED_SAMPLES_def)
    qed
  qed
qed

lemma step_repeat:
  assumes d: "base_ok spec d" "d_state d = InfraredCommonDecoderStateProcessRepeat" "decode_repeat spec \<noteq> None"
  shows "\<exists>r. common_decode_step spec (msg, d) = Some r \<and> (case r of
      Inl (msg', d') \<Rightarrow> decoder_ok spec repeat_len keeps d'
    | Inr (msg', d') \<Rightarrow> loop_ok spec keeps d' \<and> turns_left d' < turns_left d)"
proof -
  obtain dr where dr: "decode_repeat spec = Some dr" using d(3) by blast
  consider (wait) "d_timings_cnt d < repeat_len" "dr (spec_data spec) d = Some (InfraredStatusOk, d)"
    | (err) "dr (spec_data spec) d = Some (InfraredStatusError, d)"
    | (ready) "dr (spec_data spec) d = Some (InfraredStatusReady, d \<lparr>d_timings_cnt := 0\<rparr>)"
    using repeat_waits [OF dr, of d] repeat_decides [OF dr, of d] d(1) by (meson base_ok_def not_less)
  then show ?thesis
  proof cases
    case wait
    then show ?thesis using dr d by (simp add: common_decode_step_def decoder_ok_def)
  next
    case err
    then show ?thesis using dr d preamble
      by (simp add: common_decode_step_def infrared_common_decoder_reset_state_def Let_def loop_ok_def base_ok_def turns_left_def)
  next
    case ready
    then show ?thesis using dr d repeat_len by (simp add: common_decode_step_def decoder_ok_def base_ok_def)
  qed
qed

lemma common_decode_step_ok:
  assumes d: "loop_ok spec keeps d"
  shows "\<exists>r. common_decode_step spec (msg, d) = Some r \<and> (case r of
      Inl (msg', d') \<Rightarrow> decoder_ok spec repeat_len keeps d'
    | Inr (msg', d') \<Rightarrow> loop_ok spec keeps d' \<and> turns_left d' < turns_left d)"
  using step_wait [of d msg] step_decode [of d msg] step_repeat [of d msg] d by (cases "d_state d") (auto simp only: loop_ok_def)

text \<open>The fuel is enough, whatever the samples in the buffer are.\<close>

lemma common_decode_loop_ok:
  "loop_ok spec keeps d \<Longrightarrow> turns_left d < fuel \<Longrightarrow>
   \<exists>msg' d'. common_decode_loop fuel spec (msg, d) = Some (msg', d') \<and> decoder_ok spec repeat_len keeps d'"
proof (induction fuel arbitrary: msg d)
  case (Suc fuel)
  obtain r where r: "common_decode_step spec (msg, d) = Some r" "case r of
      Inl (msg', d') \<Rightarrow> decoder_ok spec repeat_len keeps d' | Inr (msg', d') \<Rightarrow> loop_ok spec keeps d' \<and> turns_left d' < turns_left d"
    using common_decode_step_ok [OF Suc.prems(1)] by blast
  show ?case
  proof (cases r)
    case (Inl p)
    then show ?thesis using r by (cases p) simp
  next
    case (Inr p)
    then show ?thesis using r Suc.IH Suc.prems(2) by (cases p) simp
  qed
qed simp

lemma turns_bound: "loop_ok spec keeps d \<Longrightarrow> turns_left d < common_decode_fuel"
  by (auto simp: loop_ok_def base_ok_def turns_left_def common_decode_fuel_def INFRARED_SAMPLES_def split: InfraredCommonStateDecoder.splits)

text \<open>A sample of the other level: the next level stays what it was.\<close>

lemma with_sample_ok:
  assumes d: "decoder_ok spec repeat_len keeps d" "d_level d \<noteq> lv"
  shows "d_timings_cnt d < length (d_timings d)" "loop_ok spec keeps (with_sample d lv t)"
proof -
  show "d_timings_cnt d < length (d_timings d)"
    using d(1) repeat_len by (auto simp: decoder_ok_def base_ok_def INFRARED_SAMPLES_def split: InfraredCommonStateDecoder.splits)
  have "next_level (with_sample d lv t) = next_level d" if "d_timings_cnt d = 0"
    using d(2) that by (cases lv) (simp_all add: next_level_def with_sample_def)
  then show "loop_ok spec keeps (with_sample d lv t)"
    using d(1) repeat_len
    by (cases "d_state d") (auto simp: decoder_ok_def loop_ok_def base_ok_def INFRARED_SAMPLES_def, simp_all add: with_sample_def)
qed

lemma feed_sample_ok:
  assumes d: "decoder_ok spec repeat_len keeps d"
  shows "\<exists>m d'. infrared_common_decode spec d lv t = Some (m, d') \<and> decoder_ok spec repeat_len keeps d'"
proof -
  obtain d1 where d1: "(if d_level d = lv then infrared_common_decoder_reset spec d else Some d) = Some d1" "decoder_ok spec repeat_len keeps d1"
     "d_state d1 = InfraredCommonDecoderStateDecode \<Longrightarrow> d_level d1 \<noteq> lv"
  proof (cases "d_level d = lv")
    case True
    then show ?thesis using that d preamble
      by (simp add: infrared_common_decoder_reset_def infrared_common_decoder_reset_state_def Let_def decoder_ok_def base_ok_def INFRARED_SAMPLES_def)
  qed (use that d in simp)
  let ?d = "with_sample d1 lv t"
  have cnt: "d_timings_cnt d1 < length (d_timings d1)"
    using d1(2) repeat_len by (auto simp: decoder_ok_def base_ok_def INFRARED_SAMPLES_def split: InfraredCommonStateDecoder.splits)
  have ok: "loop_ok spec keeps ?d"
  proof (cases "d_level d1 = lv")
    case True
    then have "d_state d1 \<noteq> InfraredCommonDecoderStateDecode" using d1(3) by blast
    then show ?thesis using d1(2) cnt by (auto simp: decoder_ok_def loop_ok_def base_ok_def with_sample_def split: InfraredCommonStateDecoder.splits)
  qed (use with_sample_ok [OF d1(2)] in blast)
  obtain msg d' where l: "common_decode_loop common_decode_fuel spec (False, ?d) = Some (msg, d')" "decoder_ok spec repeat_len keeps d'"
    using common_decode_loop_ok [OF ok turns_bound [OF ok]] by blast
  have "infrared_common_decode spec d lv t = Some (if msg then Some (d_message d') else None, d')"
    using d1(1) cnt l(1) unfolding infrared_common_decode_def by (simp add: wr_def with_sample_def Let_def)
  then show ?thesis using l(2) by simp
qed

lemma alloc_ok: "decoder_ok spec repeat_len keeps (infrared_common_decoder_alloc spec)"
  by (simp add: decoder_ok_def base_ok_def infrared_common_decoder_alloc_def INFRARED_SAMPLES_def)

lemma feed_total:
  "decoder_ok spec repeat_len keeps d \<Longrightarrow> \<exists>ms d'. infrared_feed spec d ss = Some (ms, d') \<and> decoder_ok spec repeat_len keeps d'"
proof (induction ss arbitrary: d)
  case (Cons s ss)
  obtain lv t where s: "s = (lv, t)" by (cases s)
  obtain m d1 where "infrared_common_decode spec d lv t = Some (m, d1)" "decoder_ok spec repeat_len keeps d1"
    using feed_sample_ok [OF Cons.prems] by blast
  then show ?case using Cons.IH [of d1] s by auto
qed simp

text \<open>What is left to a user of the decoder: it returns, with room for the next sample and the bits in their place.\<close>

lemma feed_returns:
  "\<exists>ms d. infrared_feed spec (infrared_common_decoder_alloc spec) ss = Some (ms, d) \<and> d_timings_cnt d < length (d_timings d) \<and>
     d_databit_cnt d \<le> databit_len spec ! 0"
proof -
  obtain ms d where d: "infrared_feed spec (infrared_common_decoder_alloc spec) ss = Some (ms, d)" "decoder_ok spec repeat_len keeps d"
    using feed_total [OF alloc_ok] by blast
  have "d_timings_cnt d < length (d_timings d)" "d_databit_cnt d \<le> databit_len spec ! 0"
    using d(2) repeat_len by (auto simp: decoder_ok_def base_ok_def INFRARED_SAMPLES_def split: InfraredCommonStateDecoder.splits)
  then show ?thesis using d(1) by blast
qed

end

section \<open>Bit decoders\<close>

lemma data_room: "databit_len pd ! 0 < 8 * infrared_data_bytes pd"
proof -
  have "databit_len pd ! 0 < 8 * (databit_len pd ! 0 div 8) + 8" by presburger
  then show ?thesis by (simp add: infrared_data_bytes_def)
qed

lemma pdwm_total:
  assumes "d_databit_cnt d < 8 * length (d_data d)" "d_databit_cnt d + 1 < 2 ^ 16"
  shows "\<exists>st ds k. infrared_common_decode_pdwm pd d lv t = Some (st, d \<lparr>d_data := ds, d_databit_cnt := k\<rparr>) \<and> length ds = length (d_data d) \<and>
    (st = InfraredStatusError \<or> st = InfraredStatusOk) \<and>
    (k = d_databit_cnt d \<or> k = Suc (d_databit_cnt d) \<and> lv \<noteq> (bit1_mark (timings pd) = bit0_mark (timings pd)))"
proof -
  define info where "info = (lv \<noteq> (bit1_mark (timings pd) = bit0_mark (timings pd)))"
  have same: "d = d \<lparr>d_data := d_data d, d_databit_cnt := d_databit_cnt d\<rparr>" by simp
  obtain ds1 where ds1: "accumulate_lsb d True = Some (d \<lparr>d_data := ds1, d_databit_cnt := d_databit_cnt d + 1\<rparr>)" "length ds1 = length (d_data d)"
    using accumulate_some [OF assms] by blast
  obtain ds0 where ds0: "accumulate_lsb d False = Some (d \<lparr>d_data := ds0, d_databit_cnt := d_databit_cnt d + 1\<rparr>)" "length ds0 = length (d_data d)"
    using accumulate_some [OF assms] by blast
  let ?r = "infrared_common_decode_pdwm pd d lv t"
  have "?r = Some (InfraredStatusError, d) \<or> ?r = Some (InfraredStatusOk, d) \<or>
      info \<and> (?r = Some (InfraredStatusOk, d \<lparr>d_data := ds1, d_databit_cnt := d_databit_cnt d + 1\<rparr>) \<or>
        ?r = Some (InfraredStatusOk, d \<lparr>d_data := ds0, d_databit_cnt := d_databit_cnt d + 1\<rparr>))"
    unfolding infrared_common_decode_pdwm_def Let_def info_def [symmetric] ds0(1) ds1(1) by (simp split: if_split)
  then consider "?r = Some (InfraredStatusError, d)" | "?r = Some (InfraredStatusOk, d)"
    | ds where "info" "?r = Some (InfraredStatusOk, d \<lparr>d_data := ds, d_databit_cnt := d_databit_cnt d + 1\<rparr>)" "length ds = length (d_data d)"
    using ds0(2) ds1(2) by blast
  then show ?thesis
  proof cases
    case 1
    then show ?thesis using same by (intro exI [of _ InfraredStatusError] exI [of _ "d_data d"] exI [of _ "d_databit_cnt d"]) simp
  next
    case 2
    then show ?thesis using same by (intro exI [of _ InfraredStatusOk] exI [of _ "d_data d"] exI [of _ "d_databit_cnt d"]) simp
  next
    case 3
    then show ?thesis unfolding info_def by auto
  qed
qed

section \<open>Pulse-distance protocols\<close>

text \<open>
  What is missing for a pulse-distance protocol: bits that are not a message have the longest length.
\<close>

locale rejecting_protocol = pulse_distance_protocol +
  assumes message_or_longest: "d_databit_cnt d \<in> set (databit_lens (spec_data spec)) \<Longrightarrow>
      length (d_data d) = infrared_data_bytes (spec_data spec) \<Longrightarrow>
      (\<exists>m. interpret_bits spec d = Some (True, d \<lparr>d_message := m\<rparr>)) \<or>
      interpret_bits spec d = Some (False, d) \<and> d_databit_cnt d = databit_len spec ! 0"

lemma interpreted:
  assumes "(\<exists>m. f d = Some (True, d \<lparr>d_message := m\<rparr>)) \<or> f d = Some (False, d) \<and> d_databit_cnt d = n"
  shows "\<exists>ok ds m tg. f d = Some (ok, d \<lparr>d_data := ds, d_message := m, d_toggle := tg\<rparr>) \<and> length ds = length (d_data d) \<and> (ok \<or> d_databit_cnt d = n)"
proof -
  have "d \<lparr>d_message := m\<rparr> = d \<lparr>d_data := d_data d, d_message := m, d_toggle := d_toggle d\<rparr>" for m by simp
  moreover have "d = d \<lparr>d_data := d_data d, d_message := d_message d, d_toggle := d_toggle d\<rparr>" by simp
  ultimately show ?thesis using assms by metis
qed

sublocale rejecting_protocol \<subseteq> total: bounded_protocol spec repeat_len "\<lambda>_ _ _. True"
proof
  show "preamble_mark (timings spec) \<noteq> 0" "min_split_time (timings spec) \<noteq> 0" using pd by (auto simp: pulse_distance_def)
  show "\<exists>st ds k sw. decode spec (spec_data spec) d lv t = Some (st, d \<lparr>d_data := ds, d_databit_cnt := k, d_switch_detect := sw\<rparr>) \<and>
      length ds = length (d_data d) \<and> k \<le> databit_len spec ! 0 \<and> (st = InfraredStatusError \<or> st = InfraredStatusOk \<and> True)"
    if len: "length (d_data d) = infrared_data_bytes (spec_data spec)" and n: "d_databit_cnt d \<le> databit_len spec ! 0"
      and last: "\<not> lv \<Longrightarrow> d_databit_cnt d < databit_len spec ! 0" for d lv t
  proof -
    obtain st ds k where r: "infrared_common_decode_pdwm (spec_data spec) d lv t = Some (st, d \<lparr>d_data := ds, d_databit_cnt := k\<rparr>)"
      "length ds = length (d_data d)" "st = InfraredStatusError \<or> st = InfraredStatusOk"
      "k = d_databit_cnt d \<or> k = Suc (d_databit_cnt d) \<and> lv \<noteq> (bit1_mark (timings spec) = bit0_mark (timings spec))"
      using pdwm_total [of d "spec_data spec" lv t] len n data_room [of "spec_data spec"] lens(2) by auto
    have "bit1_mark (timings spec) = bit0_mark (timings spec)" using pd by (simp add: pulse_distance_def)
    then have "k \<le> databit_len spec ! 0" using r(4) n last by (cases lv) auto
    moreover have "d \<lparr>d_data := ds, d_databit_cnt := k\<rparr> = d \<lparr>d_data := ds, d_databit_cnt := k, d_switch_detect := d_switch_detect d\<rparr>" by simp
    ultimately show ?thesis using r(1-3) unfolding decode_fn by metis
  qed
  show "\<exists>ok ds m tg. interpret_bits spec d = Some (ok, d \<lparr>d_data := ds, d_message := m, d_toggle := tg\<rparr>) \<and>
      length ds = length (d_data d) \<and> (ok \<or> d_databit_cnt d = databit_len spec ! 0)"
    if "d_databit_cnt d \<in> set (databit_lens (spec_data spec))" "length (d_data d) = infrared_data_bytes (spec_data spec)" for d
    using interpreted [of "interpret_bits spec" d "databit_len spec ! 0"] message_or_longest [OF that] by blast
qed (use lens repeat_len repeat_waits repeat_decides in auto)

lemma nec_interpret_total:
  assumes "d_databit_cnt d = 42 \<or> d_databit_cnt d = 32" "length (d_data d) = 8"
  shows "\<exists>m. infrared_decoder_nec_interpret d = Some (True, d \<lparr>d_message := m\<rparr>)"
  using assms by (auto simp: infrared_decoder_nec_interpret_def ld_u32_def ld_u16_def rd_def set_message_def Let_def)

interpretation nec_decoder: rejecting_protocol infrared_protocol_nec 4
  by unfold_locales (use nec_interpret_total in simp)

interpretation samsung32_decoder: rejecting_protocol infrared_protocol_samsung32 6
  by unfold_locales (auto simp: infrared_decoder_samsung32_interpret_def rd_def set_message_def)

interpretation rca_decoder: rejecting_protocol infrared_protocol_rca 6
  by unfold_locales (auto simp: infrared_decoder_rca_interpret_def ld_u32_def rd_def set_message_def Let_def)

interpretation kaseikyo_decoder: rejecting_protocol infrared_protocol_kaseikyo 6
  by unfold_locales (auto simp: infrared_decoder_kaseikyo_interpret_def rd_def set_message_def Let_def)

section \<open>SIRC\<close>

text \<open>The bits are in the marks, so that the longest message ends with a mark and the next sample is a space.\<close>

interpretation sirc_decoder: bounded_protocol infrared_protocol_sirc 6 "\<lambda>k _ lv. k = 20 \<longrightarrow> \<not> lv"
proof
  show "\<exists>st ds k sw. decode infrared_protocol_sirc (spec_data infrared_protocol_sirc) d lv t =
        Some (st, d \<lparr>d_data := ds, d_databit_cnt := k, d_switch_detect := sw\<rparr>) \<and>
      length ds = length (d_data d) \<and> k \<le> databit_len infrared_protocol_sirc ! 0 \<and>
      (st = InfraredStatusError \<or> st = InfraredStatusOk \<and> (k = 20 \<longrightarrow> \<not> \<not> lv))"
    if len: "length (d_data d) = infrared_data_bytes (spec_data infrared_protocol_sirc)" and n: "d_databit_cnt d \<le> databit_len infrared_protocol_sirc ! 0"
      and keeps: "d_databit_cnt d = 20 \<longrightarrow> \<not> lv" and last: "\<not> lv \<Longrightarrow> d_databit_cnt d < databit_len infrared_protocol_sirc ! 0" for d lv t
  proof -
    obtain st ds k where r: "infrared_common_decode_pdwm (spec_data infrared_protocol_sirc) d lv t = Some (st, d \<lparr>d_data := ds, d_databit_cnt := k\<rparr>)"
      "length ds = length (d_data d)" "st = InfraredStatusError \<or> st = InfraredStatusOk" "k = d_databit_cnt d \<or> k = Suc (d_databit_cnt d) \<and> lv"
      using pdwm_total [of d "spec_data infrared_protocol_sirc" lv t] len n by auto
    have k: "k \<le> 20" "k = 20 \<longrightarrow> lv" using r(4) n keeps last by auto
    have "d \<lparr>d_data := ds, d_databit_cnt := k\<rparr> = d \<lparr>d_data := ds, d_databit_cnt := k, d_switch_detect := d_switch_detect d\<rparr>" by simp
    then show ?thesis using r(1-3) k
      by (intro exI [of _ st] exI [of _ ds] exI [of _ k] exI [of _ "d_switch_detect d"]) auto
  qed
  show "\<exists>ok ds m tg. interpret_bits infrared_protocol_sirc d = Some (ok, d \<lparr>d_data := ds, d_message := m, d_toggle := tg\<rparr>) \<and>
      length ds = length (d_data d) \<and> (ok \<or> d_databit_cnt d = databit_len infrared_protocol_sirc ! 0)"
    if "d_databit_cnt d \<in> set (databit_lens (spec_data infrared_protocol_sirc))" "length (d_data d) = infrared_data_bytes (spec_data infrared_protocol_sirc)" for d
    using that by (intro interpreted) (auto simp: infrared_decoder_sirc_interpret_def ld_u32_def rd_def set_message_def)
qed (auto simp: INFRARED_SAMPLES_def)

section \<open>Manchester protocols\<close>

text \<open>The first bit stays what it is once it is there.\<close>

lemma accumulate_first:
  assumes "d_databit_cnt d < 8 * length (d_data d)" "d_databit_cnt d + 1 < 2 ^ 16"
  shows "\<exists>ds. accumulate_lsb d b = Some (d \<lparr>d_data := ds, d_databit_cnt := d_databit_cnt d + 1\<rparr>) \<and> length ds = length (d_data d) \<and>
    (data_bit ds 0 \<longleftrightarrow> (if d_databit_cnt d = 0 then b else data_bit (d_data d) 0))"
proof -
  let ?q = "d_databit_cnt d div 8" and ?r = "d_databit_cnt d mod 8"
  define y where "y = (if ?r = 0 then 0 else d_data d ! ?q) OR (if b then shl 1 ?r else 0)"
  have q: "?q < length (d_data d)" using assms(1) by simp
  have "data_bit ((d_data d)[?q := y]) 0 \<longleftrightarrow> (if d_databit_cnt d = 0 then b else data_bit (d_data d) 0)"
  proof (cases "?q = 0")
    case True
    then have "?r = d_databit_cnt d" by presburger
    then show ?thesis using True q by (cases "d_databit_cnt d = 0") (auto simp: data_bit_def y_def bit_simps)
  next
    case False
    then have "d_databit_cnt d \<noteq> 0" by (metis div_0)
    then show ?thesis using False by (simp add: data_bit_def)
  qed
  then show ?thesis using accumulate_eq [OF refl refl q assms(2) y_def] by auto
qed

lemma accumulate_switched:
  assumes "d_databit_cnt d < 8 * length (d_data d)" "d_databit_cnt d + 1 < 2 ^ 16"
  obtains ds where "accumulate_lsb (d \<lparr>d_switch_detect := True\<rparr>) b =
      Some (d \<lparr>d_data := ds, d_databit_cnt := Suc (d_databit_cnt d), d_switch_detect := True\<rparr>)"
    "length ds = length (d_data d)" "data_bit ds 0 \<longleftrightarrow> (if d_databit_cnt d = 0 then b else data_bit (d_data d) 0)"
proof -
  let ?d = "d \<lparr>d_switch_detect := True\<rparr>"
  obtain ds where ds: "accumulate_lsb ?d b = Some (?d \<lparr>d_data := ds, d_databit_cnt := d_databit_cnt ?d + 1\<rparr>)" "length ds = length (d_data ?d)"
    "data_bit ds 0 \<longleftrightarrow> (if d_databit_cnt ?d = 0 then b else data_bit (d_data ?d) 0)"
    using accumulate_first [of ?d b] assms by auto
  have "?d \<lparr>d_data := ds, d_databit_cnt := d_databit_cnt ?d + 1\<rparr> = d \<lparr>d_data := ds, d_databit_cnt := Suc (d_databit_cnt d), d_switch_detect := True\<rparr>"
    by (cases d) simp
  then show thesis using that [of ds] ds by simp
qed

text \<open>A sample behind the start of a message, and the first one of a protocol that starts from a space.\<close>

lemma manchester_eq:
  fixes t :: nat
  assumes "d_databit_cnt d \<noteq> 0 \<or> \<not> manchester_start_from_space pd"
  defines "one \<equiv> MATCH_TIMING t (bit1_mark (timings pd)) (bit_tolerance (timings pd))"
  defines "two \<equiv> MATCH_TIMING t (2 * bit1_mark (timings pd)) (bit_tolerance (timings pd))"
  shows "infrared_common_decode_manchester pd d lv t =
    (if \<not> one \<and> \<not> two \<or> \<not> d_switch_detect d \<and> two then Some (InfraredStatusError, d)
     else if d_switch_detect d \<and> one then Some (InfraredStatusOk, d \<lparr>d_switch_detect := False\<rparr>)
     else if databit_len pd ! 0 = d_databit_cnt d then Some (InfraredStatusError, d \<lparr>d_switch_detect := True\<rparr>)
     else do { d \<leftarrow> accumulate_lsb (d \<lparr>d_switch_detect := True\<rparr>) lv; Some (InfraredStatusOk, d) })"
proof -
  have on: "d_switch_detect d \<Longrightarrow> d \<lparr>d_switch_detect := True\<rparr> = d" by (cases d) simp
  have start: "(manchester_start_from_space pd \<and> d_databit_cnt d = 0) = False" using assms(1) by blast
  note defs = infrared_common_decode_manchester_def Let_def start if_False one_def [symmetric] two_def [symmetric]
  show ?thesis
  proof (cases "d_switch_detect d")
    case True
    then show ?thesis unfolding defs on [OF True] by (cases one; cases two) simp_all
  next
    case False
    then show ?thesis unfolding defs by (cases one; cases two) simp_all
  qed
qed

lemma manchester_later:
  assumes n: "d_databit_cnt d \<le> databit_len pd ! 0" "databit_len pd ! 0 < 2 ^ 15" "length (d_data d) = infrared_data_bytes pd"
    and later: "d_databit_cnt d \<noteq> 0 \<or> \<not> manchester_start_from_space pd"
  shows "\<exists>st ds k sw. infrared_common_decode_manchester pd d lv t = Some (st, d \<lparr>d_data := ds, d_databit_cnt := k, d_switch_detect := sw\<rparr>) \<and>
    length ds = length (d_data d) \<and> k \<le> databit_len pd ! 0 \<and> (d_databit_cnt d \<noteq> 0 \<longrightarrow> data_bit ds 0 = data_bit (d_data d) 0) \<and>
    (st = InfraredStatusError \<or> st = InfraredStatusOk \<and> (k = d_databit_cnt d \<or> k = Suc (d_databit_cnt d) \<and> sw))"
proof -
  let ?r = "infrared_common_decode_manchester pd d lv t"
  have room: "d_databit_cnt d < 8 * length (d_data d)" "d_databit_cnt d + 1 < 2 ^ 16" using n data_room [of pd] by simp_all
  obtain ds where ds: "accumulate_lsb (d \<lparr>d_switch_detect := True\<rparr>) lv =
      Some (d \<lparr>d_data := ds, d_databit_cnt := Suc (d_databit_cnt d), d_switch_detect := True\<rparr>)"
    "length ds = length (d_data d)" "data_bit ds 0 \<longleftrightarrow> (if d_databit_cnt d = 0 then lv else data_bit (d_data d) 0)"
    using accumulate_switched [OF room] by blast
  have same: "d = d \<lparr>d_data := d_data d, d_databit_cnt := d_databit_cnt d, d_switch_detect := d_switch_detect d\<rparr>"
    "d \<lparr>d_switch_detect := sw\<rparr> = d \<lparr>d_data := d_data d, d_databit_cnt := d_databit_cnt d, d_switch_detect := sw\<rparr>" for sw by simp_all
  have "?r = Some (InfraredStatusError, d) \<or> ?r = Some (InfraredStatusOk, d \<lparr>d_switch_detect := False\<rparr>) \<or>
      ?r = Some (InfraredStatusError, d \<lparr>d_switch_detect := True\<rparr>) \<or> d_databit_cnt d \<noteq> databit_len pd ! 0 \<and>
      ?r = Some (InfraredStatusOk, d \<lparr>d_data := ds, d_databit_cnt := Suc (d_databit_cnt d), d_switch_detect := True\<rparr>)"
    unfolding manchester_eq [OF later] ds(1) by auto
  then consider "?r = Some (InfraredStatusError, d)" | st sw where "?r = Some (st, d \<lparr>d_switch_detect := sw\<rparr>)" "st = InfraredStatusError \<or> st = InfraredStatusOk"
    | "d_databit_cnt d \<noteq> databit_len pd ! 0" "?r = Some (InfraredStatusOk, d \<lparr>d_data := ds, d_databit_cnt := Suc (d_databit_cnt d), d_switch_detect := True\<rparr>)"
    by metis
  then show ?thesis
  proof cases
    case 1
    then show ?thesis using same(1) n(1) by metis
  next
    case 2
    then show ?thesis using same(2) n(1) by metis
  next
    case 3
    then show ?thesis using ds(2,3) n(1)
      by (intro exI [of _ InfraredStatusOk] exI [of _ ds] exI [of _ "Suc (d_databit_cnt d)"] exI [of _ True]) simp
  qed
qed

lemma manchester_start:
  assumes start: "manchester_start_from_space pd" "d_databit_cnt d = 0" and n: "0 < length (d_data d)"
  shows "infrared_common_decode_manchester pd d lv t = Some (InfraredStatusError, d) \<or>
    (\<exists>ds. infrared_common_decode_manchester pd d lv t =
        infrared_common_decode_manchester pd (d \<lparr>d_data := ds, d_databit_cnt := 1, d_switch_detect := True\<rparr>) lv t \<and>
      length ds = length (d_data d) \<and> \<not> data_bit ds 0)"
proof -
  obtain ds where ds: "accumulate_lsb (d \<lparr>d_switch_detect := True\<rparr>) False =
      Some (d \<lparr>d_data := ds, d_databit_cnt := 1, d_switch_detect := True\<rparr>)" "length ds = length (d_data d)" "\<not> data_bit ds 0"
    using accumulate_switched [of d False] start n by auto
  show ?thesis
  proof (cases "MATCH_TIMING t (bit1_mark (timings pd)) (bit_tolerance (timings pd)) \<or> MATCH_TIMING t (2 * bit1_mark (timings pd)) (bit_tolerance (timings pd))")
    case True
    then have "infrared_common_decode_manchester pd d lv t =
        infrared_common_decode_manchester pd (d \<lparr>d_data := ds, d_databit_cnt := 1, d_switch_detect := True\<rparr>) lv t"
      using start ds(1) by (auto simp: infrared_common_decode_manchester_def Let_def)
    then show ?thesis using ds(2,3) by blast
  qed (simp add: infrared_common_decode_manchester_def Let_def)
qed

text \<open>RC6: between the fourth and the fifth bit the decoder is always in the middle of a bit.\<close>

lemma rc6_decode_total:
  assumes len: "length (d_data d) = 5" and n: "d_databit_cnt d \<le> 21" and keeps: "d_databit_cnt d = 4 \<longrightarrow> d_switch_detect d"
  shows "\<exists>st ds k sw. infrared_decoder_rc6_decode_manchester (spec_data infrared_protocol_rc6) d lv t =
      Some (st, d \<lparr>d_data := ds, d_databit_cnt := k, d_switch_detect := sw\<rparr>) \<and>
    length ds = length (d_data d) \<and> k \<le> 21 \<and> (st = InfraredStatusError \<or> st = InfraredStatusOk \<and> (k = 4 \<longrightarrow> sw))"
proof -
  let ?pd = "spec_data infrared_protocol_rc6" and ?f = infrared_decoder_rc6_decode_manchester
  have later: "\<exists>st ds k sw. infrared_common_decode_manchester ?pd d' lv t' = Some (st, d' \<lparr>d_data := ds, d_databit_cnt := k, d_switch_detect := sw\<rparr>) \<and>
      length ds = length (d_data d) \<and> k \<le> 21 \<and> (st = InfraredStatusError \<or> st = InfraredStatusOk \<and> (k = d_databit_cnt d \<or> k = Suc (d_databit_cnt d) \<and> sw))"
    if "d_data d' = d_data d" "d_databit_cnt d' = d_databit_cnt d" for d' t'
    using manchester_later [of d' ?pd lv t'] that len n by auto
  have returned: ?thesis if "?f ?pd d lv t = Some (st, d \<lparr>d_data := ds, d_databit_cnt := k, d_switch_detect := sw\<rparr>)"
      "length ds = length (d_data d)" "k \<le> 21" "st = InfraredStatusError \<or> st = InfraredStatusOk \<and> (k = 4 \<longrightarrow> sw)" for st ds k sw
    using that by blast
  have unchanged: ?thesis if "?f ?pd d lv t = Some (st, d)" "st = InfraredStatusError \<or> st = InfraredStatusOk \<and> d_databit_cnt d \<noteq> 4" for st
    by (rule returned [where st = st and ds = "d_data d" and k = "d_databit_cnt d" and sw = "d_switch_detect d"]) (use that n in auto)
  consider (toggle) "d_databit_cnt d = 4" | (after) "d_databit_cnt d = 5" | (other) "d_databit_cnt d \<noteq> 4" "d_databit_cnt d \<noteq> 5" by blast
  then show ?thesis
  proof cases
    case toggle
    define ds where "ds = (d_data d) [0 := d_data d ! 0 OR shl (of_bool (if MATCH_TIMING t (bit1_mark (timings ?pd)) (bit_tolerance (timings ?pd)) then \<not> lv else lv)) 4]"
    have e: "d \<lparr>d_databit_cnt := 5, d_data := ds\<rparr> = d \<lparr>d_data := ds, d_databit_cnt := 5, d_switch_detect := d_switch_detect d\<rparr>" by (cases d) simp
    have "?f ?pd d lv t = Some (InfraredStatusError, d) \<or> ?f ?pd d lv t = Some (InfraredStatusOk, d \<lparr>d_databit_cnt := 5, d_data := ds\<rparr>)"
      using toggle keeps len unfolding infrared_decoder_rc6_decode_manchester_def Let_def ds_def by (auto simp: rd_def wr_def)
    then show ?thesis
    proof
      assume "?f ?pd d lv t = Some (InfraredStatusOk, d \<lparr>d_databit_cnt := 5, d_data := ds\<rparr>)"
      then show ?thesis unfolding e by (rule returned) (simp_all add: ds_def)
    qed (use unchanged in blast)
  next
    case after
    have "?f ?pd d lv t = Some (InfraredStatusError, d) \<or> ?f ?pd d lv t = Some (InfraredStatusOk, d) \<or>
        (\<exists>t'. ?f ?pd d lv t = infrared_common_decode_manchester ?pd (d \<lparr>d_switch_detect := False\<rparr>) lv t')"
      unfolding infrared_decoder_rc6_decode_manchester_def Let_def using after by auto
    then show ?thesis
    proof (elim disjE exE)
      fix t' assume t': "?f ?pd d lv t = infrared_common_decode_manchester ?pd (d \<lparr>d_switch_detect := False\<rparr>) lv t'"
      obtain st ds k sw where r: "infrared_common_decode_manchester ?pd (d \<lparr>d_switch_detect := False\<rparr>) lv t' =
          Some (st, d \<lparr>d_switch_detect := False\<rparr> \<lparr>d_data := ds, d_databit_cnt := k, d_switch_detect := sw\<rparr>)"
        "length ds = length (d_data d)" "k \<le> 21" "st = InfraredStatusError \<or> st = InfraredStatusOk \<and> (k = d_databit_cnt d \<or> k = Suc (d_databit_cnt d) \<and> sw)"
        using later [of "d \<lparr>d_switch_detect := False\<rparr>" t'] by auto
      have "d \<lparr>d_switch_detect := False\<rparr> \<lparr>d_data := ds, d_databit_cnt := k, d_switch_detect := sw\<rparr> =
          d \<lparr>d_data := ds, d_databit_cnt := k, d_switch_detect := sw\<rparr>" by (cases d) simp
      then show ?thesis using t' r after by (intro returned [where st = st and ds = ds and k = k and sw = sw]) auto
    qed (use unchanged after in auto)
  next
    case other
    then have f: "?f ?pd d lv t = infrared_common_decode_manchester ?pd d lv t" by (simp add: infrared_decoder_rc6_decode_manchester_def)
    obtain st ds k sw where r: "infrared_common_decode_manchester ?pd d lv t = Some (st, d \<lparr>d_data := ds, d_databit_cnt := k, d_switch_detect := sw\<rparr>)"
      "length ds = length (d_data d)" "k \<le> 21" "st = InfraredStatusError \<or> st = InfraredStatusOk \<and> (k = d_databit_cnt d \<or> k = Suc (d_databit_cnt d) \<and> sw)"
      using later [of d t] by auto
    then show ?thesis using f other by (intro returned [where st = st and ds = ds and k = k and sw = sw]) auto
  qed
qed

interpretation rc6_decoder: bounded_protocol infrared_protocol_rc6 6 "\<lambda>k sw _. k = 4 \<longrightarrow> sw"
proof
  show "\<exists>st ds k sw. decode infrared_protocol_rc6 (spec_data infrared_protocol_rc6) d lv t =
        Some (st, d \<lparr>d_data := ds, d_databit_cnt := k, d_switch_detect := sw\<rparr>) \<and>
      length ds = length (d_data d) \<and> k \<le> databit_len infrared_protocol_rc6 ! 0 \<and>
      (st = InfraredStatusError \<or> st = InfraredStatusOk \<and> (k = 4 \<longrightarrow> sw))"
    if "length (d_data d) = infrared_data_bytes (spec_data infrared_protocol_rc6)" "d_databit_cnt d \<le> databit_len infrared_protocol_rc6 ! 0"
      "d_databit_cnt d = 4 \<longrightarrow> d_switch_detect d" for d lv t
    using rc6_decode_total [of d lv t] that by simp
  show "\<exists>ok ds m tg. interpret_bits infrared_protocol_rc6 d = Some (ok, d \<lparr>d_data := ds, d_message := m, d_toggle := tg\<rparr>) \<and>
      length ds = length (d_data d) \<and> (ok \<or> d_databit_cnt d = databit_len infrared_protocol_rc6 ! 0)"
    if cnt: "d_databit_cnt d \<in> set (databit_lens (spec_data infrared_protocol_rc6))" and len: "length (d_data d) = infrared_data_bytes (spec_data infrared_protocol_rc6)" for d
  proof -
    have same: "d = d \<lparr>d_data := d_data d, d_message := d_message d, d_toggle := d_toggle d\<rparr>"
      "d \<lparr>d_message := m, d_toggle := tg\<rparr> = d \<lparr>d_data := d_data d, d_message := m, d_toggle := tg\<rparr>" for m tg by simp_all
    obtain w where w: "ld_u32 (d_data d) 0 = Some w" using ld_u32_bits [of 0 "d_data d"] len by auto
    have toggled: "\<exists>m. set_toggled_message d p a c tg = d \<lparr>d_message := m, d_toggle := tg\<rparr>" for p a c tg
      by (simp add: set_toggled_message_def Let_def) blast
    have "interpret_bits infrared_protocol_rc6 d = Some (False, d) \<or>
        (\<exists>m tg. interpret_bits infrared_protocol_rc6 d = Some (True, d \<lparr>d_message := m, d_toggle := tg\<rparr>))"
      unfolding rc6_table infrared_decoder_rc6_interpret_def w using toggled by (simp add: Let_def) metis
    moreover have "d_databit_cnt d = databit_len infrared_protocol_rc6 ! 0" using cnt by simp
    ultimately show ?thesis using same by metis
  qed
qed (auto simp: INFRARED_SAMPLES_def)

section \<open>RC5\<close>

text \<open>
  RC5 has no preamble: every mark starts a message. Its buffer never holds more than the sample that has just come,
  and the first bit that it stores is the half bit before the mark, so that a whole message is never rejected.
\<close>

definition rc5_ok :: "InfraredCommonDecoder \<Rightarrow> bool" where
  "rc5_ok d \<longleftrightarrow> length (d_timings d) = INFRARED_SAMPLES \<and> length (d_data d) = 4 \<and> d_timings_cnt d = 0 \<and> d_databit_cnt d \<le> 14 \<and>
     (d_state d = InfraredCommonDecoderStateWaitPreamble \<or>
      d_state d = InfraredCommonDecoderStateDecode \<and> (d_databit_cnt d = 0 \<or> \<not> data_bit (d_data d) 0))"

text \<open>The same with a sample in the buffer.\<close>

definition rc5_holds_sample :: "InfraredCommonDecoder \<Rightarrow> bool" where
  "rc5_holds_sample d \<longleftrightarrow> length (d_timings d) = INFRARED_SAMPLES \<and> length (d_data d) = 4 \<and> d_timings_cnt d = 1 \<and> d_databit_cnt d \<le> 14"

lemma rc5_decode_total:
  assumes d: "length (d_data d) = 4" "d_databit_cnt d \<le> 14" "d_databit_cnt d = 0 \<or> \<not> data_bit (d_data d) 0"
  obtains st ds k sw where "infrared_common_decode_manchester (spec_data infrared_protocol_rc5) d lv t =
      Some (st, d \<lparr>d_data := ds, d_databit_cnt := k, d_switch_detect := sw\<rparr>)"
    "length ds = 4" "k \<le> 14" "st = InfraredStatusError \<or> st = InfraredStatusOk \<and> \<not> data_bit ds 0"
proof -
  let ?pd = "spec_data infrared_protocol_rc5" and ?f = infrared_common_decode_manchester
  note later = manchester_later [of _ ?pd lv t]
  show thesis
  proof (cases "d_databit_cnt d = 0")
    case True
    consider "?f ?pd d lv t = Some (InfraredStatusError, d)"
      | ds where "?f ?pd d lv t = ?f ?pd (d \<lparr>d_data := ds, d_databit_cnt := 1, d_switch_detect := True\<rparr>) lv t" "length ds = 4" "\<not> data_bit ds 0"
      using manchester_start [of ?pd d lv t] True d(1) by fastforce
    then show thesis
    proof cases
      case 1
      then show thesis using that [where st = InfraredStatusError and ds = "d_data d" and k = "d_databit_cnt d" and sw = "d_switch_detect d"] d by simp
    next
      case 2
      let ?d = "d \<lparr>d_data := ds, d_databit_cnt := 1, d_switch_detect := True\<rparr>"
      obtain st ds' k sw where r: "?f ?pd ?d lv t = Some (st, ?d \<lparr>d_data := ds', d_databit_cnt := k, d_switch_detect := sw\<rparr>)"
        "length ds' = 4" "k \<le> 14" "data_bit ds' 0 = data_bit ds 0" "st = InfraredStatusError \<or> st = InfraredStatusOk"
        using later [of ?d] 2(2) by auto
      have "?d \<lparr>d_data := ds', d_databit_cnt := k, d_switch_detect := sw\<rparr> = d \<lparr>d_data := ds', d_databit_cnt := k, d_switch_detect := sw\<rparr>"
        by (cases d) simp
      then show thesis using that [where st = st and ds = ds' and k = k and sw = sw] r 2 by simp
    qed
  next
    case False
    obtain st ds k sw where r: "?f ?pd d lv t = Some (st, d \<lparr>d_data := ds, d_databit_cnt := k, d_switch_detect := sw\<rparr>)"
      "length ds = 4" "k \<le> 14" "data_bit ds 0 = data_bit (d_data d) 0" "st = InfraredStatusError \<or> st = InfraredStatusOk"
      using later [of d] False d by auto
    then show thesis using that [where st = st and ds = ds and k = k and sw = sw] False d(3) by simp
  qed
qed

lemma rc5_interpret_total:
  assumes "length (d_data d) = 4" "\<not> data_bit (d_data d) 0"
  shows "\<exists>ds m tg. infrared_decoder_rc5_interpret d = Some (True, d \<lparr>d_data := ds, d_message := m, d_toggle := tg\<rparr>) \<and> length ds = 4"
proof -
  obtain b0 b1 b2 b3 where ds: "d_data d = [b0, b1, b2, b3]" using assms(1) by (auto simp: numeral_eq_Suc length_Suc_conv)
  let ?ds = "[NOT b0, NOT b1, b2, b3]"
  obtain w where w: "ld_u32 ?ds 0 = Some w" "\<And>k. k < 32 \<Longrightarrow> bit w k = data_bit ?ds (8 * 0 + k)" using ld_u32_bits [of 0 ?ds] by auto
  have "bit w 0" using w(2) [of 0] assms(2) ds by (simp add: data_bit_def bit_simps)
  then have start: "w AND 1 \<noteq> 0" by (simp add: and_1_eq_0_iff)
  obtain m tg where "infrared_decoder_rc5_interpret d = Some (True, d \<lparr>d_data := ?ds\<rparr> \<lparr>d_message := m, d_toggle := tg\<rparr>)"
    using start w(1) by (simp add: infrared_decoder_rc5_interpret_def ds rd_def wr_def set_toggled_message_def Let_def)
  then show ?thesis by (intro exI [of _ ?ds] exI [of _ m] exI [of _ tg]) simp
qed

text \<open>One sample in the state in which bits are collected.\<close>

lemma rc5_bits:
  assumes d: "rc5_holds_sample d" "d_databit_cnt d = 0 \<or> \<not> data_bit (d_data d) 0"
  shows "infrared_common_decode_bits infrared_protocol_rc5 d = Some (InfraredStatusReady, d) \<and> \<not> d_level d \<and> d_databit_cnt d = 14 \<or>
    (\<exists>d'. infrared_common_decode_bits infrared_protocol_rc5 d = Some (InfraredStatusError, d') \<and> rc5_holds_sample d') \<or>
    (\<exists>d'. infrared_common_decode_bits infrared_protocol_rc5 d = Some (InfraredStatusOk, d') \<and> d_state d' = d_state d \<and> d_timings_cnt d' = 0 \<and>
      length (d_timings d') = INFRARED_SAMPLES \<and> length (d_data d') = 4 \<and> d_databit_cnt d' \<le> 14 \<and> \<not> data_bit (d_data d') 0)"
proof -
  let ?spec = infrared_protocol_rc5 and ?t = "d_timings d ! 0"
  note r = d(1) [unfolded rc5_holds_sample_def]
  have t: "rd (d_timings d) 0 = Some ?t" using r by (simp add: rd_def INFRARED_SAMPLES_def)
  have lv: "((of_bool (d_level d) + d_timings_cnt d + 1) mod 2 = (1 :: nat)) = d_level d" using r by simp
  obtain st ds k sw where dec: "infrared_common_decode_manchester (spec_data ?spec) d (d_level d) ?t =
      Some (st, d \<lparr>d_data := ds, d_databit_cnt := k, d_switch_detect := sw\<rparr>)"
    "length ds = 4" "k \<le> 14" "st = InfraredStatusError \<or> st = InfraredStatusOk \<and> \<not> data_bit ds 0"
    using rc5_decode_total [OF _ _ d(2)] r by metis
  let ?d = "d \<lparr>d_data := ds, d_databit_cnt := k, d_switch_detect := sw\<rparr>"
  let ?d' = "?d \<lparr>d_timings_cnt := 0\<rparr>"
  have c: "decoder_consume ?d 1 = Some ?d'" using consume_all [of ?d 1] r by (simp add: INFRARED_SAMPLES_def)
  have "decode_bits_step ?spec d = Some (Inl (InfraredStatusReady, d)) \<and> \<not> d_level d \<and> d_databit_cnt d = 14 \<or>
      decode_bits_step ?spec d = Some (Inl (InfraredStatusError, d)) \<or>
      decode_bits_step ?spec d = Some (if st = InfraredStatusError then Inl (st, ?d) else Inr ?d')"
    unfolding decode_bits_step_def Let_def lv using t dec c by (auto simp: rc5_times)
  moreover have "rc5_holds_sample ?d" using r dec(2,3) by (simp add: rc5_holds_sample_def)
  ultimately show ?thesis using decode_bits_left [of ?spec d] decode_bits_once [of ?spec d ?d'] r d(1) dec(2-4)
    by (cases "st = InfraredStatusError") auto
qed

lemma rc5_wait_left:
  assumes d: "length (d_timings d) = INFRARED_SAMPLES" "length (d_data d) = 4" "d_databit_cnt d \<le> 14"
    "d_state d = InfraredCommonDecoderStateWaitPreamble" "d_timings_cnt d = 0 \<or> d_timings_cnt d = 1 \<and> \<not> d_level d"
  shows "\<exists>d'. common_decode_loop (Suc (Suc n)) infrared_protocol_rc5 (msg, d) = Some (msg, d') \<and> rc5_ok d'"
proof (cases "d_timings_cnt d = 0")
  case True
  then have "common_decode_loop (Suc (Suc n)) infrared_protocol_rc5 (msg, d) = Some (msg, d)"
    using d(4) by (simp add: common_decode_step_def infrared_check_preamble_def)
  then show ?thesis using d True by (simp add: rc5_ok_def)
next
  case False
  then obtain d' where "common_decode_loop (Suc (Suc n)) infrared_protocol_rc5 (msg, d) = Some (msg, d')" "waiting infrared_protocol_rc5 d'" "same_context d d'"
    using space_passed [of d n infrared_protocol_rc5 msg] d by auto
  then show ?thesis using d(2) by (auto simp: rc5_ok_def waiting_def same_context_def rc5_times)
qed

lemma rc5_decode_left:
  assumes d: "rc5_holds_sample d" "d_databit_cnt d = 0 \<or> \<not> data_bit (d_data d) 0" "d_state d = InfraredCommonDecoderStateDecode"
  shows "\<exists>msg' d'. common_decode_loop (Suc (Suc (Suc n))) infrared_protocol_rc5 (msg, d) = Some (msg', d') \<and> rc5_ok d'"
proof -
  let ?spec = infrared_protocol_rc5
  note r = d(1) [unfolded rc5_holds_sample_def]
  have turn: ?thesis if s: "common_decode_step ?spec (msg, d) = Some (Inr (msg', d'))" and d': "length (d_timings d') = INFRARED_SAMPLES" "length (d_data d') = 4" "d_databit_cnt d' \<le> 14"
    "d_state d' = InfraredCommonDecoderStateWaitPreamble" "d_timings_cnt d' = 0 \<or> d_timings_cnt d' = 1 \<and> \<not> d_level d'" for msg' d'
    using rc5_wait_left [OF d', of n msg'] s by simp blast
  consider (ready) "infrared_common_decode_bits ?spec d = Some (InfraredStatusReady, d)" "\<not> d_level d" "d_databit_cnt d = 14"
    | (err) d' where "infrared_common_decode_bits ?spec d = Some (InfraredStatusError, d')" "rc5_holds_sample d'"
    | (ok) d' where "infrared_common_decode_bits ?spec d = Some (InfraredStatusOk, d')" "d_state d' = InfraredCommonDecoderStateDecode" "d_timings_cnt d' = 0"
      "length (d_timings d') = INFRARED_SAMPLES" "length (d_data d') = 4" "d_databit_cnt d' \<le> 14" "\<not> data_bit (d_data d') 0"
    using rc5_bits [OF d(1,2)] d(3) by auto
  then show ?thesis
  proof cases
    case ready
    obtain ds m tg where i: "infrared_decoder_rc5_interpret d = Some (True, d \<lparr>d_data := ds, d_message := m, d_toggle := tg\<rparr>)" "length ds = 4"
      using rc5_interpret_total [of d] r d(2) ready(3) by auto
    have "common_decode_step ?spec (msg, d) = Some (Inr (True, d \<lparr>d_data := ds, d_message := m, d_toggle := tg, d_databit_cnt := 0,
        d_state := InfraredCommonDecoderStateWaitPreamble\<rparr>))"
      using ready i d(3) by (simp add: common_decode_step_def infrared_common_decoder_check_ready_def)
    then show ?thesis by (rule turn) (use r i ready in simp_all)
  next
    case err
    note r' = err(2) [unfolded rc5_holds_sample_def]
    let ?d = "d' \<lparr>d_state := InfraredCommonDecoderStateWaitPreamble, d_databit_cnt := 0, d_switch_detect := False,
      d_message := (d_message d') \<lparr>protocol := InfraredProtocolUnknown\<rparr>\<rparr>"
    have "decoder_consume ?d 1 = Some (?d \<lparr>d_timings_cnt := 0\<rparr>)" using consume_all [of ?d 1] r' by (simp add: INFRARED_SAMPLES_def)
    then have "common_decode_step ?spec (msg, d) = Some (Inr (msg, ?d \<lparr>d_timings_cnt := 0\<rparr>))"
      using err(1) d(3) r' by (simp add: common_decode_step_def infrared_common_decoder_reset_state_def Let_def rc5_times)
    then show ?thesis by (rule turn) (use r' in simp_all)
  next
    case ok
    then show ?thesis using d(3) by (simp add: common_decode_step_def rc5_ok_def)
  qed
qed

lemma rc5_sample_ok:
  assumes d: "rc5_ok d"
  shows "\<exists>m d'. infrared_common_decode infrared_protocol_rc5 d lv t = Some (m, d') \<and> rc5_ok d'"
proof -
  let ?spec = infrared_protocol_rc5
  obtain d1 where d1: "(if d_level d = lv then infrared_common_decoder_reset ?spec d else Some d) = Some d1" "rc5_ok d1"
    using d by (cases "d_level d = lv") (auto simp: infrared_common_decoder_reset_def infrared_common_decoder_reset_state_def Let_def rc5_ok_def)
  note r = d1(2) [unfolded rc5_ok_def]
  let ?d = "with_sample d1 lv t"
  have s: "rc5_holds_sample ?d" "d_level ?d = lv" "d_state ?d = d_state d1" "d_databit_cnt ?d = d_databit_cnt d1" "d_data ?d = d_data d1"
    using r by (auto simp: rc5_holds_sample_def with_sample_def)
  obtain n where n: "common_decode_fuel = Suc (Suc (Suc (Suc n)))" using that [of 11] by (simp add: common_decode_fuel_def)
  have "\<exists>msg d'. common_decode_loop common_decode_fuel ?spec (False, ?d) = Some (msg, d') \<and> rc5_ok d'"
  proof (cases "d_state d1 = InfraredCommonDecoderStateDecode")
    case True
    then show ?thesis using rc5_decode_left [OF s(1), of "Suc n" False] s r unfolding n by auto
  next
    case False
    then have w: "d_state ?d = InfraredCommonDecoderStateWaitPreamble" using r s(3) by simp
    show ?thesis
    proof (cases lv)
      case True
      let ?d' = "?d \<lparr>d_state := InfraredCommonDecoderStateDecode, d_databit_cnt := 0, d_switch_detect := False\<rparr>"
      have "common_decode_step ?spec (False, ?d) = Some (Inr (False, ?d'))"
        using w s(1,2) True by (simp add: common_decode_step_def infrared_check_preamble_def rc5_holds_sample_def rc5_times)
      then show ?thesis using rc5_decode_left [of ?d' n False] s(1) unfolding n by (simp add: rc5_holds_sample_def)
    next
      case False
      then show ?thesis using rc5_wait_left [of ?d "Suc (Suc n)" False] w s(1,2) unfolding n by (auto simp: rc5_holds_sample_def)
    qed
  qed
  then obtain msg d' where l: "common_decode_loop common_decode_fuel ?spec (False, ?d) = Some (msg, d')" "rc5_ok d'" by blast
  have "infrared_common_decode ?spec d lv t = Some (if msg then Some (d_message d') else None, d')"
    using d1(1) r l(1) unfolding infrared_common_decode_def by (simp add: wr_def with_sample_def Let_def INFRARED_SAMPLES_def)
  then show ?thesis using l(2) by simp
qed

lemma rc5_feed_ok: "rc5_ok d \<Longrightarrow> \<exists>ms d'. infrared_feed infrared_protocol_rc5 d ss = Some (ms, d') \<and> rc5_ok d'"
proof (induction ss arbitrary: d)
  case (Cons s ss)
  obtain lv t where s: "s = (lv, t)" by (cases s)
  obtain m d1 where "infrared_common_decode infrared_protocol_rc5 d lv t = Some (m, d1)" "rc5_ok d1"
    using rc5_sample_ok [OF Cons.prems] by blast
  then show ?case using Cons.IH [of d1] s by auto
qed simp

section \<open>Properties\<close>

definition infrared_protocols where
  "infrared_protocols = [infrared_protocol_nec, infrared_protocol_samsung32, infrared_protocol_rca, infrared_protocol_kaseikyo,
     infrared_protocol_sirc, infrared_protocol_rc5, infrared_protocol_rc6]"

text \<open>
  C2. The NEC, Samsung32, RCA, Kaseikyo, SIRC, RC5 and RC6 decoders return on every sequence of samples: whatever
  levels and durations arrive, no sample overruns the six-sample buffer, no bit is written outside the data
  array, no check fails and the decoding loop ends. There is room for the next sample then,
  and no more bits are counted than the longest message has.
\<close>

theorem infrared_decoders_total:
  assumes "spec \<in> set infrared_protocols"
  shows "\<exists>ms d. infrared_feed spec (infrared_common_decoder_alloc spec) ss = Some (ms, d) \<and>
    d_timings_cnt d < length (d_timings d) \<and> d_databit_cnt d \<le> databit_len spec ! 0"
proof -
  have "rc5_ok (infrared_common_decoder_alloc infrared_protocol_rc5)"
    by (simp add: rc5_ok_def infrared_common_decoder_alloc_def)
  then have "\<exists>ms d. infrared_feed infrared_protocol_rc5 (infrared_common_decoder_alloc infrared_protocol_rc5) ss = Some (ms, d) \<and>
      d_timings_cnt d < length (d_timings d) \<and> d_databit_cnt d \<le> databit_len infrared_protocol_rc5 ! 0"
    using rc5_feed_ok [of "infrared_common_decoder_alloc infrared_protocol_rc5" ss] by (auto simp: rc5_ok_def INFRARED_SAMPLES_def)
  then show ?thesis using assms nec_decoder.total.feed_returns samsung32_decoder.total.feed_returns rca_decoder.total.feed_returns
      kaseikyo_decoder.total.feed_returns sirc_decoder.feed_returns rc6_decoder.feed_returns
    unfolding infrared_protocols_def by (simp only: list.set insert_iff empty_iff) blast
qed

lemma infrared_decoders_total_witness:
  "\<exists>ms d. infrared_feed infrared_protocol_rc5 (infrared_common_decoder_alloc infrared_protocol_rc5) (replicate 100 (True, 888)) = Some (ms, d) \<and>
     d_timings_cnt d < length (d_timings d) \<and> d_databit_cnt d \<le> databit_len infrared_protocol_rc5 ! 0"
  by (rule infrared_decoders_total) (simp add: infrared_protocols_def)

end
