(* ===== verification/InfraredRepeat.thy ===== *)
theory InfraredRepeat
  imports InfraredProtocols
begin

text \<open>
  Repeated NEC messages, and two signals that the code does not handle: a NEC42ext message whose
  repetition comes too early for the decoder, and a Pioneer message with a wrong checksum, after which
  the decoder's sample buffer fills up until its check fails.
\<close>

section \<open>The repetitions that the encoder sends\<close>

definition nec_burst :: "nat \<Rightarrow> (InfraredStatus \<times> bool \<times> nat) list" where
  "nec_burst gap = [(InfraredStatusOk, False, gap), (InfraredStatusOk, True, INFRARED_NEC_REPEAT_MARK),
     (InfraredStatusOk, False, INFRARED_NEC_REPEAT_SPACE), (InfraredStatusDone, True, INFRARED_NEC_BIT1_MARK)]"

text \<open>The pause before the first repetition fills the period up; the later ones have a fixed pause.\<close>

definition nec_gap :: "nat \<Rightarrow> nat \<Rightarrow> nat" where
  "nec_gap time j = (if j = 0 then INFRARED_NEC_REPEAT_PERIOD - time else 98190)"

definition repeating :: "InfraredCommonEncoder \<Rightarrow> nat \<Rightarrow> nat \<Rightarrow> bool" where
  "repeating e time j \<longleftrightarrow> e_state e = InfraredCommonEncoderStateEncodeRepeat \<and> bits_to_encode e < 2 ^ 8 \<and>
     timings_encoded e = 4 + 2 * bits_to_encode e + 4 * j \<and> timings_sum e = time"

lemma send_burst:
  assumes e: "repeating e time j" and t: "time \<le> INFRARED_NEC_REPEAT_PERIOD" and j: "j < 2 ^ 20"
  shows "\<exists>e'. infrared_transmit infrared_protocol_nec 4 e = Some (nec_burst (nec_gap time j), e') \<and> repeating e' time (Suc j)"
proof -
  define E where "E r = e \<lparr>timings_encoded := 4 + 2 * bits_to_encode e + (4 * j + r)\<rparr>" for r
  have enc: "infrared_common_encode infrared_protocol_nec (E r) =
    Some (if r = 3 then InfraredStatusDone else InfraredStatusOk, if r = 0 then nec_gap time j else nec_repeat_timings ! r, odd r, E (r + 1))"
    if r: "r < 4" for r
  proof -
    have "(INFRARED_NEC_REPEAT_PERIOD + 2 ^ 32 - time) mod 2 ^ 32 = INFRARED_NEC_REPEAT_PERIOD - time"
      using t by (simp add: protocol_numbers mod_if)
    moreover have "(4 * j + r) mod 4 = r" "(4 * j + r + 1) mod 4 = 0 \<longleftrightarrow> r = 3" "(4 * j + r) mod 2 = 1 \<longleftrightarrow> odd r"
      using r by presburger+
    moreover have "nec_repeat_timings ! 0 = 98190" "length nec_repeat_timings = 4" by (simp_all add: nec_repeat_timings_def protocol_numbers)
    ultimately show ?thesis using e j r
      by (auto simp: infrared_common_encode_def infrared_encoder_nec_encode_repeat_def repeating_def Let_def nec_gap_def E_def)
  qed
  have up: "0 + 1 = (1 :: nat)" "1 + 1 = (2 :: nat)" "2 + 1 = (3 :: nat)" "3 + 1 = (4 :: nat)" by simp_all
  have steps: "infrared_common_encode infrared_protocol_nec (E 0) = Some (InfraredStatusOk, nec_gap time j, False, E 1)"
    "infrared_common_encode infrared_protocol_nec (E 1) = Some (InfraredStatusOk, INFRARED_NEC_REPEAT_MARK, True, E 2)"
    "infrared_common_encode infrared_protocol_nec (E 2) = Some (InfraredStatusOk, INFRARED_NEC_REPEAT_SPACE, False, E 3)"
    "infrared_common_encode infrared_protocol_nec (E 3) = Some (InfraredStatusDone, INFRARED_NEC_BIT1_MARK, True, E 4)"
    using enc [of 0, unfolded up] enc [of 1, unfolded up] enc [of 2, unfolded up] enc [of 3, unfolded up]
    by (simp_all add: nec_repeat_timings_def)
  have "e = E 0" using e by (simp add: repeating_def E_def)
  moreover have "infrared_transmit infrared_protocol_nec (Suc (Suc (Suc (Suc 0)))) (E 0) = Some (nec_burst (nec_gap time j), E 4)"
    by (simp add: steps [unfolded One_nat_def] nec_burst_def)
  ultimately have "infrared_transmit infrared_protocol_nec 4 e = Some (nec_burst (nec_gap time j), E 4)" by (simp add: numeral_eq_Suc)
  moreover have "repeating (E 4) time (Suc j)" using e by (simp add: repeating_def E_def)
  ultimately show ?thesis by blast
qed

text \<open>\<open>k\<close> repetitions, the first of them the \<open>j\<close>-th.\<close>

definition nec_bursts :: "nat \<Rightarrow> nat \<Rightarrow> nat \<Rightarrow> (InfraredStatus \<times> bool \<times> nat) list" where
  "nec_bursts time j k = concat (map (\<lambda>i. nec_burst (nec_gap time i)) [j..<j + k])"

lemma send_bursts:
  assumes "repeating e time j" "time \<le> INFRARED_NEC_REPEAT_PERIOD" "j + k < 2 ^ 20"
  shows "\<exists>e'. infrared_transmit infrared_protocol_nec (4 * k) e = Some (nec_bursts time j k, e')"
  using assms
proof (induction k arbitrary: e j)
  case (Suc k)
  obtain e1 where e1: "infrared_transmit infrared_protocol_nec 4 e = Some (nec_burst (nec_gap time j), e1)" "repeating e1 time (Suc j)"
    using send_burst [OF Suc.prems(1,2)] Suc.prems(3) by auto
  obtain e2 where e2: "infrared_transmit infrared_protocol_nec (4 * k) e1 = Some (nec_bursts time (Suc j) k, e2)"
    using Suc.IH [OF e1(2) Suc.prems(2)] Suc.prems(3) by auto
  have "nec_bursts time j (Suc k) = nec_burst (nec_gap time j) @ nec_bursts time (Suc j) k"
    by (simp add: nec_bursts_def upt_conv_Cons del: upt_Suc)
  moreover have "4 * Suc k = 4 + 4 * k" by simp
  ultimately show ?case by (simp only: infrared_transmit_add e1(1)) (simp add: e2)
qed (simp add: nec_bursts_def)

section \<open>The repetitions that the decoder receives\<close>

text \<open>A decoder that has returned the message \<open>m\<close> and holds \<open>cnt\<close> samples behind it.\<close>

definition repeat_state :: "InfraredCommonDecoder \<Rightarrow> bool \<Rightarrow> InfraredMessage \<Rightarrow> nat list \<Rightarrow> bool" where
  "repeat_state d lv m ts \<longleftrightarrow> d_state d = InfraredCommonDecoderStateProcessRepeat \<and> d_level d = lv \<and> d_message d = m \<and>
     length (d_timings d) = INFRARED_SAMPLES \<and> d_timings_cnt d = length ts \<and> take (length ts) (d_timings d) = ts"

lemma feed_repeat_sample:
  assumes d: "repeat_state d lv m ts" and n: "length ts < 3"
  shows "\<exists>d'. infrared_common_decode infrared_protocol_nec d (\<not> lv) t = Some (None, d') \<and> repeat_state d' (\<not> lv) m (ts @ [t])"
proof -
  note r = d [unfolded repeat_state_def]
  let ?d = "with_sample d (\<not> lv) t"
  have "common_decode_step infrared_protocol_nec (False, ?d) = Some (Inl (False, ?d))"
    using r n by (simp add: common_decode_step_def with_sample_def infrared_decoder_nec_decode_repeat_def)
  moreover have "repeat_state ?d (\<not> lv) m (ts @ [t])"
    using r n by (auto simp: repeat_state_def with_sample_def INFRARED_SAMPLES_def take_Suc_conv_app_nth)
  ultimately show ?thesis using common_decode_eq [of d "\<not> lv" infrared_protocol_nec t] decode_loop_left r n
    by (simp add: INFRARED_SAMPLES_def)
qed

lemma feed_repeat_last:
  assumes d: "repeat_state d False m [g, t1, t2]" and g: "4000 < g" "g < 150000"
    and t: "8800 < t1" "t1 < 9200" "2050 < t2" "t2 < 2450" "440 < t3" "t3 < 680"
  shows "\<exists>d'. infrared_common_decode infrared_protocol_nec d True t3 = Some (Some (m \<lparr>repeat := True\<rparr>), d') \<and>
    repeat_state d' True (m \<lparr>repeat := True\<rparr>) []"
proof -
  note r = d [unfolded repeat_state_def]
  let ?d = "with_sample d True t3"
  let ?d' = "?d \<lparr>d_timings_cnt := 0, d_message := m \<lparr>repeat := True\<rparr>\<rparr>"
  have ts: "d_timings d ! 0 = g" "d_timings d ! 1 = t1" "d_timings d ! 2 = t2"
  proof -
    have "take 3 (d_timings d) = [g, t1, t2]" using r by (simp add: numeral_3_eq_3)
    then show "d_timings d ! 0 = g" "d_timings d ! 1 = t1" "d_timings d ! 2 = t2"
      using nth_take [of 0 3 "d_timings d"] nth_take [of 1 3 "d_timings d"] nth_take [of 2 3 "d_timings d"] by simp_all
  qed
  have tol: "preamble_tolerance (timings infrared_protocol_nec) = 200" "bit_tolerance (timings infrared_protocol_nec) = 120"
    "bit1_mark (timings infrared_protocol_nec) = 560"
    by (simp_all add: infrared_protocol_nec_def protocol_numbers)
  have "(d_timings d)[Suc (Suc (Suc 0)) := t3] ! 3 = t3" using r by (simp add: numeral_3_eq_3 INFRARED_SAMPLES_def)
  then have "infrared_decoder_nec_decode_repeat (spec_data infrared_protocol_nec) ?d = Some (InfraredStatusReady, ?d \<lparr>d_timings_cnt := 0\<rparr>)"
    using r ts g t by (simp add: infrared_decoder_nec_decode_repeat_def with_sample_def rd_def INFRARED_SAMPLES_def protocol_numbers
      MATCH_TIMING_float_def MATCH_TIMING_def tol)
  then have "common_decode_step infrared_protocol_nec (False, ?d) = Some (Inl (True, ?d'))"
    using r by (simp add: common_decode_step_def with_sample_def)
  moreover have "repeat_state ?d' True (m \<lparr>repeat := True\<rparr>) []" using r by (simp add: repeat_state_def with_sample_def)
  ultimately show ?thesis using common_decode_eq [of d True infrared_protocol_nec t3] decode_loop_left r
    by (simp add: INFRARED_SAMPLES_def)
qed

lemma feed_burst_tail:
  assumes d: "repeat_state d False m [g']" and g: "4000 < g'" "g' < 150000" and r: "received_as 120 (tl (nec_burst g)) ss"
  shows "\<exists>d'. infrared_feed infrared_protocol_nec d ss = Some ([m \<lparr>repeat := True\<rparr>], d') \<and> repeat_state d' True (m \<lparr>repeat := True\<rparr>) []"
proof -
  obtain t1 t2 t3 where ss: "ss = [(True, t1), (False, t2), (True, t3)]"
    and t: "8800 < t1" "t1 < 9200" "2050 < t2" "t2 < 2450" "440 < t3" "t3 < 680"
    using r by (auto simp: received_as_def nec_burst_def list_all2_Cons1 protocol_numbers)
  obtain d1 where d1: "infrared_common_decode infrared_protocol_nec d True t1 = Some (None, d1)" "repeat_state d1 True m [g', t1]"
    using feed_repeat_sample [OF d, of t1] by auto
  obtain d2 where d2: "infrared_common_decode infrared_protocol_nec d1 False t2 = Some (None, d2)" "repeat_state d2 False m [g', t1, t2]"
    using feed_repeat_sample [OF d1(2), of t2] by auto
  show ?thesis using feed_repeat_last [OF d2(2) g t] d1 d2 unfolding ss by auto
qed

lemma feed_burst:
  assumes d: "repeat_state d True m []" and r: "received_as 120 (nec_burst 98190) ss"
  shows "\<exists>d'. infrared_feed infrared_protocol_nec d ss = Some ([m \<lparr>repeat := True\<rparr>], d') \<and> repeat_state d' True (m \<lparr>repeat := True\<rparr>) []"
proof -
  have "received_as 120 ((InfraredStatusOk, False, 98190) # tl (nec_burst 98190)) ss" using r by (simp add: nec_burst_def)
  then obtain g ss' where ss: "ss = (False, g) # ss'" and g: "4000 < g" "g < 150000" and r': "received_as 120 (tl (nec_burst 98190)) ss'"
    by (auto simp: received_as_def list_all2_Cons1)
  obtain d1 where d1: "infrared_common_decode infrared_protocol_nec d False g = Some (None, d1)" "repeat_state d1 False m [g]"
    using feed_repeat_sample [OF d, of g] by auto
  show ?thesis using feed_burst_tail [OF d1(2) g r'] d1(1) unfolding ss by auto
qed

lemma feed_bursts:
  assumes "repeat_state d True (m \<lparr>repeat := True\<rparr>) []" "received_as 120 (nec_bursts time (Suc j) k) ss"
  shows "\<exists>d'. infrared_feed infrared_protocol_nec d ss = Some (replicate k (m \<lparr>repeat := True\<rparr>), d')"
  using assms
proof (induction k arbitrary: d j ss)
  case (Suc k)
  have "nec_bursts time (Suc j) (Suc k) = nec_burst 98190 @ nec_bursts time (Suc (Suc j)) k"
    by (simp add: nec_bursts_def upt_conv_Cons nec_gap_def del: upt_Suc)
  then obtain s1 s2 where ss: "ss = s1 @ s2" "received_as 120 (nec_burst 98190) s1" "received_as 120 (nec_bursts time (Suc (Suc j)) k) s2"
    using Suc.prems(2) by (auto simp: received_as_def list_all2_append1)
  obtain d1 where d1: "infrared_feed infrared_protocol_nec d s1 = Some ([m \<lparr>repeat := True\<rparr>], d1)" "repeat_state d1 True (m \<lparr>repeat := True\<rparr>) []"
    using feed_burst [OF Suc.prems(1) ss(2)] by auto
  show ?case using Suc.IH [OF d1(2) ss(3)] d1(1) unfolding ss(1) by (auto simp: infrared_feed_append)
qed (simp add: nec_bursts_def received_as_def)

text \<open>A message of 32 bits leaves more than 4 ms of the period.\<close>

lemma nec_time_bound:
  assumes "length bs = 32"
  shows "message_time (timings infrared_protocol_nec) bs \<le> 86060"
proof -
  have "bits_time (timings infrared_protocol_nec) xs \<le> length xs * 2250" for xs
    by (induction xs) (auto simp: bits_time_def space_of_def infrared_protocol_nec_def protocol_numbers)
  from this [of bs] show ?thesis using assms by (simp add: message_time_def infrared_protocol_nec_def protocol_numbers)
qed

text \<open>The bits that a NEC encoder holds after its reset are those that the decoder reads the message from.\<close>

lemma nec_reset_bits:
  assumes m: "nec_message m" "protocol m = InfraredProtocolNEC \<or> protocol m = InfraredProtocolNECext" and l: "length (e_data e0) = 8"
  obtains e bs where "infrared_encoder_nec_reset e0 m = Some e" "encoder_ready e bs" "length bs = 32"
    "\<And>d. holds_bits infrared_protocol_nec d bs \<Longrightarrow> infrared_decoder_nec_interpret d = Some (True, d \<lparr>d_message := m\<rparr>)"
proof -
  note r = nec_reset [OF l]
  have ready: "encoder_ready (cleared e0 6 \<lparr>e_data := put_u32 (e_data (cleared e0 6)) 0 w, bits_to_encode := 32\<rparr>)
      (bits_of (put_u32 (e_data (cleared e0 6)) 0 w) 32)" "length (bits_of (put_u32 (e_data (cleared e0 6)) 0 w) 32) = 32" for w
    using r(5) by (auto intro!: cleared_ready) (simp add: bits_of_def)
  show thesis
  proof (cases "protocol m = InfraredProtocolNEC")
    case True
    then have "message_of InfraredProtocolNEC 8 8 m" using m(1) by (simp add: nec_message_def)
    with r(1) [OF True] r(5) ready show thesis by (intro that) (auto intro: nec_interpret [rotated 2])
  next
    case False
    then have p: "protocol m = InfraredProtocolNECext" using m(2) by simp
    then have "message_of InfraredProtocolNECext 16 16 m" and x: "\<not> (command m = (command m AND 0xFF) OR shl (NOT (command m) AND 0xFF) 8 \<and>
           address m = (address m AND 0xFF) OR shl (NOT (address m) AND 0xFF) 8)"
      using m(1) unfolding nec_message_def by simp_all
    with r(2) [OF p] r(5) ready show thesis by (intro that) (auto intro: necext_interpret [OF _ _ _ x, rotated 2])
  qed
qed



section \<open>Two signals that are not handled\<close>

text \<open>The NEC42ext message of 42 ones takes 108.56 ms, so that its repetition follows after 1.44 ms.\<close>

definition all_ones :: InfraredMessage where
  "all_ones = \<lparr>protocol = InfraredProtocolNEC42ext, address = 0x3FFFFFF, command = 0xFFFF, repeat = False\<rparr>"

lemma all_ones_bits:
  assumes "length ds = 8"
  shows "bits_of (put_u32 (put_u32 ds 0 (nec42ext_word1 all_ones)) 4 (nec42ext_word2 all_ones)) 42 = replicate 42 True"
proof -
  have "nec42ext_word1 all_ones = -1" "nec42ext_word2 all_ones = mask 10" by (simp_all add: nec42ext_word1_def nec42ext_word2_def all_ones_def mask_eq_exp_minus_1)
  then show ?thesis using assms
    by (intro nth_equalityI) (auto simp: bits_of_def data_bit_put bit_mask_iff)
qed

text \<open>
  The encoder's own signal of this message, with the repetition that follows it, is not decoded: the
  pause is shorter than the time that ends a message, and the decoder drops the 42 bits.
\<close>

lemma nec42ext_repeat_too_early:
  "\<exists>e sent e' d. infrared_encoder_nec_reset (infrared_common_encoder_alloc infrared_protocol_nec) all_ones = Some e \<and>
     infrared_transmit infrared_protocol_nec (88 + 1) e = Some (sent, e') \<and> last sent = (InfraredStatusOk, False, 1440) \<and>
     infrared_feed infrared_protocol_nec (infrared_common_decoder_alloc infrared_protocol_nec) (map snd sent) = Some ([], d)"
proof -
  let ?nec = infrared_protocol_nec and ?ts = "timings infrared_protocol_nec"
  let ?e0 = "infrared_common_encoder_alloc ?nec" and ?bs = "replicate 42 True"
  have l: "length (e_data ?e0) = 8" by (simp add: infrared_common_encoder_alloc_def)
  obtain e where e: "infrared_encoder_nec_reset ?e0 all_ones = Some e" "encoder_ready e ?bs"
    using nec_reset(4,5) [OF l] cleared_ready [of 42 "put_u32 (put_u32 (e_data (cleared ?e0 6)) 0 (nec42ext_word1 all_ones)) 4 (nec42ext_word2 all_ones)" ?e0 6]
    by (simp add: all_ones_bits all_ones_def [THEN arg_cong, of protocol])
  have T: "message_time ?ts ?bs = 108560"
    by (simp add: message_time_def bits_time_def space_of_def infrared_protocol_nec_def protocol_numbers sum_list_replicate)
  obtain e1 e2 where e12: "infrared_transmit ?nec 88 e = Some (message_sent ?ts ?bs, e2)" "sending ?ts e1 ?bs 42"
    "e2 = e1 \<lparr>timings_encoded := 88, timings_sum := 108560, e_state := InfraredCommonEncoderStateEncodeRepeat\<rparr>"
    using nec.send_message [OF e(2)] T by auto
  have "bits_to_encode e2 = 42" using e12(2,3) by (simp add: sending_def encodes_bits_def)
  then obtain e3 where e3: "infrared_common_encode ?nec e2 = Some (InfraredStatusOk, 1440, False, e3)"
    using e12(3) by (simp add: infrared_common_encode_def infrared_encoder_nec_encode_repeat_def Let_def protocol_numbers nec_repeat_timings_def)
  have sent: "infrared_transmit ?nec (88 + 1) e = Some (message_sent ?ts ?bs @ [(InfraredStatusOk, False, 1440)], e3)"
    unfolding infrared_transmit_add e12(1) using e3 by simp
  let ?d = "infrared_common_decoder_alloc ?nec"
  have self: "received_as (bit_tolerance ?ts) ss (map snd ss)" for ss
    by (auto simp: received_as_def list.rel_map infrared_protocol_nec_def intro!: list.rel_refl)
  have body: "carries ?ts ?bs (map snd (bits_sent ?ts ?bs))" by (rule nec.received_bits) (rule self)
  have "preamble_ok ?ts 9000 4500" "mark_ok ?ts 560"
    by (simp_all add: preamble_ok_def MATCH_TIMING_float_def mark_ok_def infrared_protocol_nec_def protocol_numbers)
  note ok = this
  have num: "preamble_mark ?ts = 9000" "preamble_space ?ts = 4500" "bit1_mark ?ts = 560" "1440 \<le> min_split_time ?ts"
    by (simp_all add: infrared_protocol_nec_def protocol_numbers)
  have "map snd (message_sent ?ts ?bs) = [(False, silence_time ?ts), (True, 9000), (False, 4500)] @ map snd (bits_sent ?ts ?bs) @ [(True, 560)]"
    by (simp add: message_sent_def num)
  note eq = this
  have "length ?bs \<in> set (databit_lens (spec_data ?nec))" by simp
  from nec.feed_until_gap [OF alloc_decoder(1) ok(1) body ok(2) this alloc_decoder(3), of "silence_time ?ts", folded eq]
  obtain d1 where d1: "infrared_feed ?nec ?d (map snd (message_sent ?ts ?bs)) = Some ([], d1)" "receiving d1 True ?bs" by blast
  obtain d2 where "infrared_common_decode ?nec d1 False 1440 = Some (None, d2)"
    using nec.feed_short_gap [OF d1(2) num(4)] by auto
  then have "infrared_feed ?nec ?d (map snd (message_sent ?ts ?bs @ [(InfraredStatusOk, False, 1440)])) = Some ([], d2)"
    using infrared_feed_then [OF d1(1), of "[(False, 1440)]"] by simp
  then show ?thesis using e(1) sent by fastforce
qed

text \<open>
  A Pioneer signal of 32 bits whose checksum is wrong. The decoder neither returns a message nor goes
  back to waiting for a preamble, because 32 is not the longest length; the pause stays in the buffer, and
  with it every sample that follows.
\<close>

definition stuck :: "InfraredCommonDecoder \<Rightarrow> nat \<Rightarrow> bool" where
  "stuck d c \<longleftrightarrow> d_state d = InfraredCommonDecoderStateDecode \<and> d_timings_cnt d = c \<and> length (d_timings d) = INFRARED_SAMPLES \<and>
     d_level d = even c \<and> d_databit_cnt d = 32 \<and> d_timings d ! 0 > INFRARED_PIONEER_SILENCE \<and>
     infrared_decoder_pioneer_interpret d = Some (False, d)"

lemma pioneer_table [simp]:
  "decode infrared_protocol_pioneer = infrared_common_decode_pdwm" "encode infrared_protocol_pioneer = infrared_common_encode_pdwm"
  "decode_repeat infrared_protocol_pioneer = None"
  "interpret_bits infrared_protocol_pioneer = infrared_decoder_pioneer_interpret" "databit_len infrared_protocol_pioneer = [33, 32, 0, 0]"
  "databit_lens (spec_data infrared_protocol_pioneer) = [33, 32]" "infrared_data_bytes (spec_data infrared_protocol_pioneer) = 7"
  "min_split_time (timings infrared_protocol_pioneer) = INFRARED_PIONEER_SILENCE"
  by (simp_all add: infrared_protocol_pioneer_def databit_lens_def infrared_data_bytes_def spec_data_def InfraredProtocolData.truncate_def)

interpretation pioneer: pulse_distance_protocol infrared_protocol_pioneer 6
  by unfold_locales (auto simp: INFRARED_SAMPLES_def pulse_distance_def infrared_protocol_pioneer_def protocol_numbers databit_lens_def
    spec_data_def InfraredProtocolData.truncate_def)

lemma pioneer_interpret_cong:
  "d_data d' = d_data d \<Longrightarrow> d_databit_cnt d' = d_databit_cnt d \<Longrightarrow> infrared_decoder_pioneer_interpret d = Some (False, d) \<Longrightarrow>
   infrared_decoder_pioneer_interpret d' = Some (False, d')"
  by (auto simp: infrared_decoder_pioneer_interpret_def ld_u32_def rd_def Let_def split: if_splits)

lemma stuck_sample:
  assumes d: "stuck d c" and c: "c < 6" "0 < c"
  shows "\<exists>d'. infrared_common_decode infrared_protocol_pioneer d (odd c) t = Some (None, d') \<and> stuck d' (Suc c)"
proof -
  note r = d [unfolded stuck_def]
  let ?d = "with_sample d (odd c) t"
  have s: "stuck ?d (Suc c)"
    using r c pioneer_interpret_cong [of ?d d] by (auto simp: stuck_def with_sample_def INFRARED_SAMPLES_def)
  then have "decode_bits_step infrared_protocol_pioneer ?d = Some (Inl (InfraredStatusReady, ?d))"
    by (auto simp: stuck_def decode_bits_step_def Let_def rd_def protocol_numbers INFRARED_SAMPLES_def)
  then have "common_decode_step infrared_protocol_pioneer (False, ?d) = Some (Inl (False, ?d))"
    using s by (simp add: stuck_def common_decode_step_def decode_bits_left infrared_common_decoder_check_ready_def)
  then show ?thesis using common_decode_eq [of d "odd c" infrared_protocol_pioneer t] decode_loop_left r c s
    by (auto simp: INFRARED_SAMPLES_def)
qed

lemma stuck_full: "stuck d 6 \<Longrightarrow> infrared_common_decode infrared_protocol_pioneer d False t = None"
  by (auto simp: stuck_def infrared_common_decode_def wr_def INFRARED_SAMPLES_def)

lemma pioneer_bad_checksum:
  assumes h: "holds_bits infrared_protocol_pioneer d bs" and n: "length bs = 32" and bad: "i < 8" "bs ! (8 + i) = bs ! i"
  shows "infrared_decoder_pioneer_interpret d = Some (False, d)"
proof -
  have l: "length (d_data d) = 7" "d_databit_cnt d = 32" "\<And>k. k < 32 \<Longrightarrow> data_bit (d_data d) k = bs ! k"
    using h n by (auto simp: holds_bits_def)
  obtain w where w: "ld_u32 (d_data d) 0 = Some w" "\<And>k. k < 32 \<Longrightarrow> bit w k = bs ! k"
    using ld_u32_bits [of 0 "d_data d"] l by auto
  have "bit (ucast (shr w 8 AND 0xFF) :: u8) i \<noteq> bit (NOT (ucast (w AND 0xFF) :: u8)) i"
    using w(2) [of i] w(2) [of "8 + i"] bad by (simp add: bit_simps)
  then have "(ucast (shr w 8 AND 0xFF) :: u8) \<noteq> NOT (ucast (w AND 0xFF))" by auto
  then show ?thesis using w(1) l(2) unfolding infrared_decoder_pioneer_interpret_def Let_def by simp
qed

lemma stuck_first:
  assumes d: "receiving d True bs" "length (d_data d) = 7" and n: "length bs = 32" "i < 8" "bs ! (8 + i) = bs ! i"
    and gap: "INFRARED_PIONEER_SILENCE < gap"
  shows "\<exists>d'. infrared_common_decode infrared_protocol_pioneer d False gap = Some (None, d') \<and> stuck d' 1"
proof -
  note r = d(1) [unfolded receiving_def]
  let ?d = "with_sample d False gap"
  have "holds_bits infrared_protocol_pioneer ?d bs" using r d(2) by (simp add: holds_bits_def with_sample_def)
  then have s: "stuck ?d 1" using r n gap pioneer_bad_checksum [of ?d bs i] by (simp add: stuck_def with_sample_def INFRARED_SAMPLES_def)
  then have "decode_bits_step infrared_protocol_pioneer ?d = Some (Inl (InfraredStatusReady, ?d))"
    by (auto simp: stuck_def decode_bits_step_def Let_def rd_def protocol_numbers INFRARED_SAMPLES_def)
  then have "common_decode_step infrared_protocol_pioneer (False, ?d) = Some (Inl (False, ?d))"
    using s by (simp add: stuck_def common_decode_step_def decode_bits_left infrared_common_decoder_check_ready_def)
  then show ?thesis using common_decode_eq [of d False infrared_protocol_pioneer gap] decode_loop_left r s
    by (auto simp: INFRARED_SAMPLES_def)
qed



end
