(* ===== verification/InfraredFront.thy ===== *)
theory InfraredFront
  imports InfraredTotal InfraredRepeat
begin

text \<open>
  The front end of the infrared library, \<^verbatim>\<open>lib/infrared/encoder_decoder/infrared.c\<close>, and the senders on top of it,
  \<^verbatim>\<open>lib/infrared/worker/infrared_transmit.c\<close>: the table of protocols, a decoder handler that gives each sample to
  every protocol, an encoder handler that is allocated for the protocol of a message, names, and the
  callbacks through which the hardware fetches what is to be sent.
\<close>

section \<open>The table\<close>

text \<open>
  A row of \<^verbatim>\<open>infrared_encoder_decoder\<close>. The decoders' functions pass the protocol's table to the common decoder, so
  that the table stands for them. A handler of an encoder has the fields of the encoders with a toggle bit; the
  other encoders do not use it.
\<close>

record InfraredEncoderDecoder =
  protocol_spec :: InfraredCommonProtocolSpec
  encoder_alloc :: InfraredEncoderRC
  encoder_reset :: "InfraredEncoderRC \<Rightarrow> InfraredMessage \<Rightarrow> InfraredEncoderRC option"
  encoder_encode :: "InfraredEncoderRC \<Rightarrow> (InfraredStatus \<times> nat \<times> bool \<times> InfraredEncoderRC) option"
  get_protocol_variant :: "InfraredProtocol \<Rightarrow> InfraredProtocolVariant option"

definition on_common_reset ::
  "(InfraredCommonEncoder \<Rightarrow> InfraredMessage \<Rightarrow> InfraredCommonEncoder option) \<Rightarrow> InfraredEncoderRC \<Rightarrow> InfraredMessage \<Rightarrow> InfraredEncoderRC option" where
  "on_common_reset reset encoder message = do { ce \<leftarrow> reset (common_encoder encoder) message; Some (encoder \<lparr>common_encoder := ce\<rparr>) }"

definition on_common_encode ::
  "(InfraredCommonEncoder \<Rightarrow> (InfraredStatus \<times> nat \<times> bool \<times> InfraredCommonEncoder) option) \<Rightarrow> InfraredEncoderRC \<Rightarrow>
   (InfraredStatus \<times> nat \<times> bool \<times> InfraredEncoderRC) option" where
  "on_common_encode enc encoder = do {
     (status, duration, level, ce) \<leftarrow> enc (common_encoder encoder);
     Some (status, duration, level, encoder \<lparr>common_encoder := ce\<rparr>) }"

definition common_row where
  "common_row spec reset enc variant =
     \<lparr>protocol_spec = spec, encoder_alloc = \<lparr>common_encoder = infrared_common_encoder_alloc spec, toggle_bit = False\<rparr>,
      encoder_reset = on_common_reset reset, encoder_encode = on_common_encode enc, get_protocol_variant = variant\<rparr>"

definition infrared_encoder_decoder :: "InfraredEncoderDecoder list" where
  "infrared_encoder_decoder =
     [common_row infrared_protocol_nec infrared_encoder_nec_reset (infrared_common_encode infrared_protocol_nec) infrared_protocol_nec_get_variant,
      common_row infrared_protocol_samsung32 infrared_encoder_samsung32_reset (infrared_common_encode infrared_protocol_samsung32)
        infrared_protocol_samsung32_get_variant,
      \<lparr>protocol_spec = infrared_protocol_rc5, encoder_alloc = infrared_encoder_rc5_alloc, encoder_reset = infrared_encoder_rc5_reset,
        encoder_encode = on_common_encode (infrared_common_encode infrared_protocol_rc5), get_protocol_variant = infrared_protocol_rc5_get_variant\<rparr>,
      \<lparr>protocol_spec = infrared_protocol_rc6, encoder_alloc = infrared_encoder_rc6_alloc, encoder_reset = infrared_encoder_rc6_reset,
        encoder_encode = on_common_encode (infrared_common_encode infrared_protocol_rc6), get_protocol_variant = infrared_protocol_rc6_get_variant\<rparr>,
      common_row infrared_protocol_sirc infrared_encoder_sirc_reset infrared_encoder_sirc_encode infrared_protocol_sirc_get_variant,
      common_row infrared_protocol_pioneer infrared_encoder_pioneer_reset infrared_encoder_pioneer_encode infrared_protocol_pioneer_get_variant,
      common_row infrared_protocol_kaseikyo infrared_encoder_kaseikyo_reset (infrared_common_encode infrared_protocol_kaseikyo)
        infrared_protocol_kaseikyo_get_variant,
      common_row infrared_protocol_rca infrared_encoder_rca_reset (infrared_common_encode infrared_protocol_rca) infrared_protocol_rca_get_variant]"

section \<open>Protocols and names\<close>

text \<open>The index of the first row that knows the protocol; \<^const>\<open>None\<close> is -1.\<close>

fun find_index_from :: "nat \<Rightarrow> InfraredEncoderDecoder list \<Rightarrow> InfraredProtocol \<Rightarrow> nat option" where
  "find_index_from i [] p = None"
| "find_index_from i (row # rows) p = (if get_protocol_variant row p \<noteq> None then Some i else find_index_from (Suc i) rows p)"

definition infrared_find_index_by_protocol :: "InfraredProtocol \<Rightarrow> nat option" where
  "infrared_find_index_by_protocol p = find_index_from 0 infrared_encoder_decoder p"

definition infrared_is_protocol_valid :: "InfraredProtocol \<Rightarrow> bool" where
  "infrared_is_protocol_valid p \<longleftrightarrow> infrared_find_index_by_protocol p \<noteq> None"

definition infrared_get_variant_by_protocol :: "InfraredProtocol \<Rightarrow> InfraredProtocolVariant option" where
  "infrared_get_variant_by_protocol p = do {
     index \<leftarrow> infrared_find_index_by_protocol p;
     get_protocol_variant (infrared_encoder_decoder ! index) p }"

definition infrared_get_protocol_name :: "InfraredProtocol \<Rightarrow> string option" where
  "infrared_get_protocol_name p = map_option variant_name (infrared_get_variant_by_protocol p)"

definition infrared_get_protocol_address_length :: "InfraredProtocol \<Rightarrow> nat option" where
  "infrared_get_protocol_address_length p = map_option address_length (infrared_get_variant_by_protocol p)"

definition infrared_get_protocol_command_length :: "InfraredProtocol \<Rightarrow> nat option" where
  "infrared_get_protocol_command_length p = map_option command_length (infrared_get_variant_by_protocol p)"

definition infrared_get_protocol_frequency :: "InfraredProtocol \<Rightarrow> nat option" where
  "infrared_get_protocol_frequency p = map_option frequency (infrared_get_variant_by_protocol p)"

definition infrared_get_protocol_duty_cycle :: "InfraredProtocol \<Rightarrow> nat option" where
  "infrared_get_protocol_duty_cycle p = map_option duty_cycle (infrared_get_variant_by_protocol p)"

definition infrared_get_protocol_min_repeat_count :: "InfraredProtocol \<Rightarrow> nat option" where
  "infrared_get_protocol_min_repeat_count p = map_option repeat_count (infrared_get_variant_by_protocol p)"

text \<open>The protocols from 0 to \<^verbatim>\<open>InfraredProtocolMAX\<close>, in the order of the enumeration.\<close>

definition protocol_values :: "InfraredProtocol list" where
  "protocol_values = [InfraredProtocolNEC, InfraredProtocolNECext, InfraredProtocolNEC42, InfraredProtocolNEC42ext, InfraredProtocolSamsung32,
     InfraredProtocolRC6, InfraredProtocolRC5, InfraredProtocolRC5X, InfraredProtocolSIRC, InfraredProtocolSIRC15, InfraredProtocolSIRC20,
     InfraredProtocolKaseikyo, InfraredProtocolRCA, InfraredProtocolPioneer]"

fun protocol_by_name :: "InfraredProtocol list \<Rightarrow> string \<Rightarrow> InfraredProtocol option" where
  "protocol_by_name [] protocol_name = Some InfraredProtocolUnknown"
| "protocol_by_name (p # ps) protocol_name = do {
     name \<leftarrow> infrared_get_protocol_name p;
     if name = protocol_name then Some p else protocol_by_name ps protocol_name }"

definition infrared_get_protocol_by_name :: "string \<Rightarrow> InfraredProtocol option" where
  "infrared_get_protocol_by_name protocol_name = protocol_by_name protocol_values protocol_name"

section \<open>Decoder handler\<close>

text \<open>Every row's decoder, in the order of the table. A loop over them stops at the first failed check.\<close>

fun for_rows :: "(InfraredEncoderDecoder \<Rightarrow> InfraredCommonDecoder \<Rightarrow> ('a \<times> InfraredCommonDecoder) option) \<Rightarrow>
    InfraredEncoderDecoder list \<Rightarrow> InfraredCommonDecoder list \<Rightarrow> ('a list \<times> InfraredCommonDecoder list) option" where
  "for_rows f (row # rows) (d # ds) = do { (x, d) \<leftarrow> f row d; (xs, ds) \<leftarrow> for_rows f rows ds; Some (x # xs, d # ds) }"
| "for_rows f _ _ = Some ([], [])"

text \<open>The message of the first decoder that has one.\<close>

definition first_message :: "InfraredMessage option list \<Rightarrow> InfraredMessage option" where
  "first_message ms = fold (\<lambda>message result. if result = None then message else result) ms None"

definition infrared_decode :: "InfraredCommonDecoder list \<Rightarrow> bool \<Rightarrow> nat \<Rightarrow> (InfraredMessage option \<times> InfraredCommonDecoder list) option" where
  "infrared_decode handler level duration = do {
     (ms, handler) \<leftarrow> for_rows (\<lambda>row d. infrared_common_decode (protocol_spec row) d level duration) infrared_encoder_decoder handler;
     Some (first_message ms, handler) }"

definition infrared_reset_decoder :: "InfraredCommonDecoder list \<Rightarrow> InfraredCommonDecoder list option" where
  "infrared_reset_decoder handler = do {
     (_, handler) \<leftarrow> for_rows (\<lambda>row d. do { d \<leftarrow> infrared_common_decoder_reset (protocol_spec row) d; Some ((), d) }) infrared_encoder_decoder handler;
     Some handler }"

definition infrared_alloc_decoder :: "InfraredCommonDecoder list option" where
  "infrared_alloc_decoder =
     infrared_reset_decoder (map (\<lambda>row. infrared_common_decoder_alloc (protocol_spec row)) infrared_encoder_decoder)"

definition infrared_check_decoder_ready :: "InfraredCommonDecoder list \<Rightarrow> (InfraredMessage option \<times> InfraredCommonDecoder list) option" where
  "infrared_check_decoder_ready handler = do {
     (ms, handler) \<leftarrow> for_rows (\<lambda>row d. do {
         (ok, d) \<leftarrow> infrared_common_decoder_check_ready (protocol_spec row) d;
         Some (if ok then Some (d_message d) else None, d) }) infrared_encoder_decoder handler;
     Some (first_message ms, handler) }"

section \<open>Encoder handler\<close>

text \<open>The pointer to a row is its index.\<close>

record InfraredEncoderHandler =
  handler :: "InfraredEncoderRC option"
  encoder :: "nat option"

definition infrared_alloc_encoder :: InfraredEncoderHandler where
  "infrared_alloc_encoder = \<lparr>handler = None, encoder = None\<rparr>"

definition infrared_reset_encoder :: "InfraredEncoderHandler \<Rightarrow> InfraredMessage \<Rightarrow> InfraredEncoderHandler option" where
  "infrared_reset_encoder h message = do {
     index \<leftarrow> infrared_find_index_by_protocol (protocol message);
     let h = (if encoder h \<noteq> Some index
              then \<lparr>handler = Some (encoder_alloc (infrared_encoder_decoder ! index)), encoder = Some index\<rparr> else h);
     e \<leftarrow> handler h;
     e \<leftarrow> encoder_reset (infrared_encoder_decoder ! index) e message;
     Some (h \<lparr>handler := Some e\<rparr>)
   }"

definition infrared_encode :: "InfraredEncoderHandler \<Rightarrow> (InfraredStatus \<times> nat \<times> bool \<times> InfraredEncoderHandler) option" where
  "infrared_encode h = do {
     index \<leftarrow> encoder h;
     e \<leftarrow> handler h;
     (status, duration, level, e) \<leftarrow> encoder_encode (infrared_encoder_decoder ! index) e;
     furi_check (status \<noteq> InfraredStatusError);
     Some (status, duration, level, h \<lparr>handler := Some e\<rparr>)
   }"

section \<open>Sending\<close>

datatype FuriHalInfraredTxGetDataState =
    FuriHalInfraredTxGetDataStateOk
  | FuriHalInfraredTxGetDataStateDone
  | FuriHalInfraredTxGetDataStateLastDone

text \<open>
  \<^verbatim>\<open>infrared_send\<close> up to the start of the transmission: the handler that the callback gets, and the static variable
  \<^verbatim>\<open>infrared_tx_number_of_transmissions\<close>.
\<close>

record InfraredTx =
  tx_handler :: InfraredEncoderHandler
  number_of_transmissions :: nat

definition infrared_send :: "InfraredMessage \<Rightarrow> int \<Rightarrow> InfraredTx option" where
  "infrared_send message count = do {
     furi_check (count \<noteq> 0);
     furi_check (infrared_is_protocol_valid (protocol message));
     h \<leftarrow> infrared_reset_encoder infrared_alloc_encoder message;
     n \<leftarrow> infrared_get_protocol_min_repeat_count (protocol message);
     Some \<lparr>tx_handler = h, number_of_transmissions = nat (max (int n) count)\<rparr>
   }"

definition infrared_get_data_callback :: "InfraredTx \<Rightarrow> (FuriHalInfraredTxGetDataState \<times> nat \<times> bool \<times> InfraredTx) option" where
  "infrared_get_data_callback tx =
     (if number_of_transmissions tx > 0 then do {
        (status, duration, level, h) \<leftarrow> infrared_encode (tx_handler tx);
        let tx = tx \<lparr>tx_handler := h\<rparr>;
        (case status of
           InfraredStatusError \<Rightarrow> Some (FuriHalInfraredTxGetDataStateLastDone, 0, False, tx)
         | InfraredStatusOk \<Rightarrow> Some (FuriHalInfraredTxGetDataStateOk, duration, level, tx)
         | InfraredStatusDone \<Rightarrow>
             (let tx = tx \<lparr>number_of_transmissions := number_of_transmissions tx - 1\<rparr>
              in Some (if number_of_transmissions tx = 0 then FuriHalInfraredTxGetDataStateLastDone else FuriHalInfraredTxGetDataStateDone,
                       duration, level, tx))
         | InfraredStatusReady \<Rightarrow> None)
      } else Some (FuriHalInfraredTxGetDataStateLastDone, 0, False, tx))"

text \<open>The samples of \<open>n\<close> calls of a callback.\<close>

fun fetch :: "('s \<Rightarrow> (FuriHalInfraredTxGetDataState \<times> nat \<times> bool \<times> 's) option) \<Rightarrow> nat \<Rightarrow> 's \<Rightarrow>
    ((FuriHalInfraredTxGetDataState \<times> bool \<times> nat) list \<times> 's) option" where
  "fetch callback 0 s = Some ([], s)"
| "fetch callback (Suc n) s = do {
     (state, duration, level, s) \<leftarrow> callback s;
     (xs, s) \<leftarrow> fetch callback n s;
     Some ((state, level, duration) # xs, s) }"

text \<open>Raw signals: the static variables of the file, and the timings that the callback's context points to.\<close>

definition INFRARED_RAW_TX_TIMING_DELAY_US :: nat where "INFRARED_RAW_TX_TIMING_DELAY_US = 180000"

record InfraredRawTx =
  raw_timings :: "nat list"
  raw_timings_index :: nat
  raw_timings_number :: nat
  raw_start_from_mark :: bool
  raw_add_silence :: bool

definition infrared_send_raw_ext :: "nat list \<Rightarrow> nat \<Rightarrow> bool \<Rightarrow> InfraredRawTx" where
  "infrared_send_raw_ext ts timings_cnt start_from_mark =
     \<lparr>raw_timings = ts, raw_timings_index = 0, raw_timings_number = timings_cnt,
      raw_start_from_mark = start_from_mark, raw_add_silence = start_from_mark\<rparr>"

definition infrared_get_raw_data_callback :: "InfraredRawTx \<Rightarrow> (FuriHalInfraredTxGetDataState \<times> nat \<times> bool \<times> InfraredRawTx) option" where
  "infrared_get_raw_data_callback tx = do {
     (level, duration, tx) \<leftarrow>
       (if raw_add_silence tx \<and> raw_timings_index tx = 0
        then Some (False, INFRARED_RAW_TX_TIMING_DELAY_US, tx \<lparr>raw_add_silence := False\<rparr>)
        else do {
          duration \<leftarrow> rd (raw_timings tx) (raw_timings_index tx);
          Some (raw_start_from_mark tx \<noteq> (raw_timings_index tx mod 2 = 1), duration,
                tx \<lparr>raw_timings_index := raw_timings_index tx + 1\<rparr>) });
     Some (if raw_timings_number tx = raw_timings_index tx then FuriHalInfraredTxGetDataStateLastDone else FuriHalInfraredTxGetDataStateOk,
           duration, level, tx)
   }"

section \<open>Names\<close>

lemmas variant_defs = infrared_protocol_nec_get_variant_def infrared_protocol_samsung32_get_variant_def infrared_protocol_rc5_get_variant_def
  infrared_protocol_rc6_get_variant_def infrared_protocol_sirc_get_variant_def infrared_protocol_pioneer_get_variant_def
  infrared_protocol_kaseikyo_get_variant_def infrared_protocol_rca_get_variant_def common_variant_def

lemma protocol_rows:
  "infrared_find_index_by_protocol InfraredProtocolNEC = Some 0" "infrared_find_index_by_protocol InfraredProtocolNECext = Some 0"
  "infrared_find_index_by_protocol InfraredProtocolNEC42 = Some 0" "infrared_find_index_by_protocol InfraredProtocolNEC42ext = Some 0"
  "infrared_find_index_by_protocol InfraredProtocolSamsung32 = Some 1"
  "infrared_find_index_by_protocol InfraredProtocolRC5 = Some 2" "infrared_find_index_by_protocol InfraredProtocolRC5X = Some 2"
  "infrared_find_index_by_protocol InfraredProtocolRC6 = Some 3"
  "infrared_find_index_by_protocol InfraredProtocolSIRC = Some 4" "infrared_find_index_by_protocol InfraredProtocolSIRC15 = Some 4"
  "infrared_find_index_by_protocol InfraredProtocolSIRC20 = Some 4"
  "infrared_find_index_by_protocol InfraredProtocolPioneer = Some 5" "infrared_find_index_by_protocol InfraredProtocolKaseikyo = Some 6"
  "infrared_find_index_by_protocol InfraredProtocolRCA = Some 7"
  "infrared_find_index_by_protocol InfraredProtocolUnknown = None" "infrared_find_index_by_protocol InfraredProtocolMAX = None"
  by (simp_all add: infrared_find_index_by_protocol_def infrared_encoder_decoder_def common_row_def variant_defs)

lemma protocol_names:
  "infrared_get_protocol_name InfraredProtocolNEC = Some ''NEC''" "infrared_get_protocol_name InfraredProtocolNECext = Some ''NECext''"
  "infrared_get_protocol_name InfraredProtocolNEC42 = Some ''NEC42''" "infrared_get_protocol_name InfraredProtocolNEC42ext = Some ''NEC42ext''"
  "infrared_get_protocol_name InfraredProtocolSamsung32 = Some ''Samsung32''"
  "infrared_get_protocol_name InfraredProtocolRC5 = Some ''RC5''" "infrared_get_protocol_name InfraredProtocolRC5X = Some ''RC5X''"
  "infrared_get_protocol_name InfraredProtocolRC6 = Some ''RC6''"
  "infrared_get_protocol_name InfraredProtocolSIRC = Some ''SIRC''" "infrared_get_protocol_name InfraredProtocolSIRC15 = Some ''SIRC15''"
  "infrared_get_protocol_name InfraredProtocolSIRC20 = Some ''SIRC20''"
  "infrared_get_protocol_name InfraredProtocolPioneer = Some ''Pioneer''" "infrared_get_protocol_name InfraredProtocolKaseikyo = Some ''Kaseikyo''"
  "infrared_get_protocol_name InfraredProtocolRCA = Some ''RCA''"
  "infrared_get_protocol_name InfraredProtocolUnknown = None" "infrared_get_protocol_name InfraredProtocolMAX = None"
  by (simp_all add: infrared_get_protocol_name_def infrared_get_variant_by_protocol_def protocol_rows infrared_encoder_decoder_def common_row_def
      variant_defs)

lemma protocol_by_name_iff:
  assumes "\<forall>p\<in>set ps. infrared_get_protocol_name p \<noteq> None" "distinct (map infrared_get_protocol_name ps)"
  shows "protocol_by_name ps s = Some p \<longleftrightarrow>
    p \<in> set ps \<and> infrared_get_protocol_name p = Some s \<or> p = InfraredProtocolUnknown \<and> (\<forall>q\<in>set ps. infrared_get_protocol_name q \<noteq> Some s)"
  using assms
proof (induction ps)
  case (Cons q ps)
  obtain n where n: "infrared_get_protocol_name q = Some n" using Cons.prems(1) by auto
  have "n \<noteq> s \<or> (\<forall>r\<in>set ps. infrared_get_protocol_name r \<noteq> Some s)" using Cons.prems(2) n by force
  then show ?case using Cons n by (cases "n = s") auto
qed auto

section \<open>The decoders side by side\<close>

text \<open>What one decoder returns for each sample.\<close>

fun decoder_trace :: "InfraredCommonProtocolSpec \<Rightarrow> InfraredCommonDecoder \<Rightarrow> (bool \<times> nat) list \<Rightarrow>
    (InfraredMessage option list \<times> InfraredCommonDecoder) option" where
  "decoder_trace spec d [] = Some ([], d)"
| "decoder_trace spec d ((lv, t) # ss) = do {
     (m, d) \<leftarrow> infrared_common_decode spec d lv t;
     (ms, d) \<leftarrow> decoder_trace spec d ss;
     Some (m # ms, d) }"

fun infrared_decode_samples :: "InfraredCommonDecoder list \<Rightarrow> (bool \<times> nat) list \<Rightarrow>
    (InfraredMessage option list \<times> InfraredCommonDecoder list) option" where
  "infrared_decode_samples h [] = Some ([], h)"
| "infrared_decode_samples h ((lv, t) # ss) = do {
     (m, h) \<leftarrow> infrared_decode h lv t;
     (ms, h) \<leftarrow> infrared_decode_samples h ss;
     Some (m # ms, h) }"

lemma trace_feed:
  "infrared_feed spec d ss = map_option (\<lambda>(ms, d). (concat (map (\<lambda>m. case m of None \<Rightarrow> [] | Some m \<Rightarrow> [m]) ms), d)) (decoder_trace spec d ss)"
proof (induction spec d ss rule: decoder_trace.induct)
  case (2 spec d lv t ss)
  then show ?case by (cases "infrared_common_decode spec d lv t") (auto simp: map_option_case split: option.splits bind_splits)
qed simp

lemma for_rows_some:
  "length rows = length ds \<Longrightarrow> (\<forall>i<length rows. f (rows ! i) (ds ! i) = Some (x i, y i)) \<Longrightarrow>
   for_rows f rows ds = Some (map x [0..<length rows], map y [0..<length rows])"
proof (induction f rows ds arbitrary: x y rule: for_rows.induct)
  case (1 f row rows d ds)
  have "[0..<length (row # rows)] = 0 # map Suc [0..<length rows]" by (simp add: upt_conv_Cons map_Suc_upt del: upt_Suc)
  moreover have "for_rows f rows ds = Some (map (x \<circ> Suc) [0..<length rows], map (y \<circ> Suc) [0..<length rows])"
    using 1(1) [of "(x 0, y 0)" "x 0" "y 0" "x \<circ> Suc" "y \<circ> Suc"] 1(2,3) by force
  moreover have "f row d = Some (x 0, y 0)" using 1(3) by force
  ultimately show ?case by (simp del: upt_Suc add: comp_def)
qed auto

lemma for_rows_none:
  "length rows = length ds \<Longrightarrow> for_rows f rows ds = None \<longleftrightarrow> (\<exists>i<length rows. f (rows ! i) (ds ! i) = None)"
proof (induction f rows ds rule: for_rows.induct)
  case (1 f row rows d ds)
  show ?case
  proof (cases "f row d")
    case (Some r)
    then have "(\<exists>i<Suc (length rows). f ((row # rows) ! i) ((d # ds) ! i) = None) \<longleftrightarrow> (\<exists>i<length rows. f (rows ! i) (ds ! i) = None)"
      by (metis Suc_less_eq gr0_implies_Suc nth_Cons_0 nth_Cons_Suc not_gr_zero option.distinct(1))
    then show ?thesis using 1 Some by (cases r) (auto split: bind_splits)
  qed auto
qed auto

abbreviation row_spec :: "nat \<Rightarrow> InfraredCommonProtocolSpec" where
  "row_spec i \<equiv> protocol_spec (infrared_encoder_decoder ! i)"

text \<open>
  The decoders do not see each other: the handler returns on a signal if every decoder does, and for each
  sample it has the first decoder's message, in the order of the table.
\<close>

lemma decode_samples_eq:
  assumes "length h = length infrared_encoder_decoder"
  shows "infrared_decode_samples h ss =
    (if \<exists>i<length infrared_encoder_decoder. decoder_trace (row_spec i) (h ! i) ss = None then None
     else Some (map (\<lambda>j. first_message (map (\<lambda>i. fst (the (decoder_trace (row_spec i) (h ! i) ss)) ! j) [0..<length infrared_encoder_decoder])) [0..<length ss],
                map (\<lambda>i. snd (the (decoder_trace (row_spec i) (h ! i) ss))) [0..<length infrared_encoder_decoder]))"
  using assms
proof (induction ss arbitrary: h)
  case Nil
  then show ?case using map_nth [of h] by (simp del: upt_Suc)
next
  case (Cons s ss)
  obtain lv t where s: "s = (lv, t)" by (cases s)
  let ?n = "length infrared_encoder_decoder"
  let ?f = "\<lambda>row d. infrared_common_decode (protocol_spec row) d lv t"
  show ?case
  proof (cases "\<exists>i<?n. infrared_common_decode (row_spec i) (h ! i) lv t = None")
    case True
    then have "infrared_decode h lv t = None"
      using for_rows_none [of infrared_encoder_decoder h ?f] Cons.prems by (simp add: infrared_decode_def)
    moreover have "\<exists>i<?n. decoder_trace (row_spec i) (h ! i) (s # ss) = None" using True s by force
    ultimately show ?thesis using s by simp
  next
    case False
    define r where "r i = the (infrared_common_decode (row_spec i) (h ! i) lv t)" for i
    have r: "\<forall>i<?n. infrared_common_decode (row_spec i) (h ! i) lv t = Some (r i)" using False by (auto simp: r_def)
    let ?x = "\<lambda>i. fst (r i)" and ?h = "map (\<lambda>i. snd (r i)) [0..<?n]"
    have "for_rows ?f infrared_encoder_decoder h = Some (map ?x [0..<?n], ?h)"
      using Cons.prems r by (intro for_rows_some) (simp_all)
    then have d: "infrared_decode h lv t = Some (first_message (map ?x [0..<?n]), ?h)" by (simp add: infrared_decode_def)
    have tr: "decoder_trace (row_spec i) (h ! i) (s # ss) = map_option (\<lambda>(ms, d). (?x i # ms, d)) (decoder_trace (row_spec i) (?h ! i) ss)"
      if "i < ?n" for i
    proof -
      have "infrared_common_decode (row_spec i) (h ! i) lv t = Some (?x i, ?h ! i)" using r that by simp
      then show ?thesis unfolding s by (cases "decoder_trace (row_spec i) (?h ! i) ss") (auto)
    qed
    note IH = Cons.IH [of ?h]
    have none: "(\<exists>i<?n. decoder_trace (row_spec i) (h ! i) (s # ss) = None) \<longleftrightarrow> (\<exists>i<?n. decoder_trace (row_spec i) (?h ! i) ss = None)"
      using tr by (metis (no_types, lifting) map_option_is_None)
    show ?thesis
    proof (cases "\<exists>i<?n. decoder_trace (row_spec i) (?h ! i) ss = None")
      case True
      then have "infrared_decode_samples ?h ss = None" using IH by simp
      moreover have "\<exists>i<?n. decoder_trace (row_spec i) (h ! i) (s # ss) = None" using none True by blast
      ultimately show ?thesis unfolding if_P s infrared_decode_samples.simps d by (simp only: if_P bind.simps prod.case)
    next
      case False
      have the: "the (decoder_trace (row_spec i) (h ! i) (s # ss)) =
          (?x i # fst (the (decoder_trace (row_spec i) (?h ! i) ss)), snd (the (decoder_trace (row_spec i) (?h ! i) ss)))" if "i < ?n" for i
        using False that unfolding tr [OF that] by (cases "decoder_trace (row_spec i) (?h ! i) ss") (auto split: prod.splits)
      have up: "[0..<length (s # ss)] = 0 # map Suc [0..<length ss]" by (simp add: upt_conv_Cons map_Suc_upt del: upt_Suc)
      have one: "map (\<lambda>i. fst (the (decoder_trace (row_spec i) (h ! i) (s # ss))) ! 0) [0..<?n] = map ?x [0..<?n]"
        "map (\<lambda>i. fst (the (decoder_trace (row_spec i) (h ! i) (s # ss))) ! Suc j) [0..<?n] = map (\<lambda>i. fst (the (decoder_trace (row_spec i) (?h ! i) ss)) ! j) [0..<?n]"
        "map (\<lambda>i. snd (the (decoder_trace (row_spec i) (h ! i) (s # ss)))) [0..<?n] = map (\<lambda>i. snd (the (decoder_trace (row_spec i) (?h ! i) ss))) [0..<?n]" for j
        by (intro map_cong refl, simp add: the del: decoder_trace.simps)+
      have IH': "infrared_decode_samples ?h ss = Some (map (\<lambda>j. first_message (map (\<lambda>i. fst (the (decoder_trace (row_spec i) (?h ! i) ss)) ! j) [0..<?n])) [0..<length ss],
          map (\<lambda>i. snd (the (decoder_trace (row_spec i) (?h ! i) ss))) [0..<?n])"
        using IH False by simp
      have none': "\<not> (\<exists>i<?n. decoder_trace (row_spec i) (h ! i) (s # ss) = None)" using none False by blast
      have step: "infrared_decode_samples h (s # ss) = do { (ms, h) \<leftarrow> infrared_decode_samples ?h ss; Some (first_message (map ?x [0..<?n]) # ms, h) }"
        using d s by simp
      show ?thesis unfolding step IH' if_not_P [OF none'] up list.map map_map comp_def one by simp
    qed
  qed
qed

text \<open>A new handler: every decoder is reset once, which only makes its message unknown.\<close>

definition fresh_decoder :: "InfraredCommonProtocolSpec \<Rightarrow> InfraredCommonDecoder" where
  "fresh_decoder spec = (infrared_common_decoder_alloc spec) \<lparr>d_message := (d_message (infrared_common_decoder_alloc spec)) \<lparr>protocol := InfraredProtocolUnknown\<rparr>\<rparr>"

lemma reset_fresh: "infrared_common_decoder_reset spec (infrared_common_decoder_alloc spec) = Some (fresh_decoder spec)"
  by (simp add: infrared_common_decoder_reset_def infrared_common_decoder_reset_state_def Let_def fresh_decoder_def infrared_common_decoder_alloc_def)

lemma alloc_handler: "infrared_alloc_decoder = Some (map (\<lambda>row. fresh_decoder (protocol_spec row)) infrared_encoder_decoder)"
proof -
  let ?n = "length infrared_encoder_decoder"
  have "map (\<lambda>i. fresh_decoder (row_spec i)) [0..<?n] = map (\<lambda>row. fresh_decoder (protocol_spec row)) infrared_encoder_decoder"
    by (rule nth_equalityI) simp_all
  then show ?thesis
    using for_rows_some [of infrared_encoder_decoder "map (\<lambda>row. infrared_common_decoder_alloc (protocol_spec row)) infrared_encoder_decoder"
      "\<lambda>row d. do { d \<leftarrow> infrared_common_decoder_reset (protocol_spec row) d; Some ((), d) }" "\<lambda>_. ()" "\<lambda>i. fresh_decoder (row_spec i)"]
    by (simp add: infrared_alloc_decoder_def infrared_reset_decoder_def reset_fresh)
qed

context bounded_protocol
begin

lemma fresh_total: "decoder_trace spec (fresh_decoder spec) ss \<noteq> None"
proof -
  have "decoder_ok spec repeat_len keeps (fresh_decoder spec)"
    using alloc_ok by (simp add: fresh_decoder_def decoder_ok_def base_ok_def next_level_def infrared_common_decoder_alloc_def)
  then show ?thesis using feed_total [of "fresh_decoder spec" ss] by (auto simp: trace_feed)
qed

end

lemma rc5_fresh_total: "decoder_trace infrared_protocol_rc5 (fresh_decoder infrared_protocol_rc5) ss \<noteq> None"
proof -
  have "rc5_ok (fresh_decoder infrared_protocol_rc5)" by (simp add: rc5_ok_def fresh_decoder_def infrared_common_decoder_alloc_def)
  then show ?thesis using rc5_feed_ok [of "fresh_decoder infrared_protocol_rc5" ss] by (auto simp: trace_feed)
qed

lemma row_specs:
  "length infrared_encoder_decoder = 8"
  "row_spec 0 = infrared_protocol_nec" "row_spec 1 = infrared_protocol_samsung32" "row_spec 2 = infrared_protocol_rc5"
  "row_spec 3 = infrared_protocol_rc6" "row_spec 4 = infrared_protocol_sirc" "row_spec 5 = infrared_protocol_pioneer"
  "row_spec 6 = infrared_protocol_kaseikyo" "row_spec 7 = infrared_protocol_rca"
  by (simp_all add: infrared_encoder_decoder_def common_row_def)

lemma other_rows_total:
  assumes "i < 8" "i \<noteq> 5"
  shows "decoder_trace (row_spec i) (fresh_decoder (row_spec i)) ss \<noteq> None"
proof -
  have "i = 0 \<or> i = 1 \<or> i = 2 \<or> i = 3 \<or> i = 4 \<or> i = 6 \<or> i = 7" using assms by arith
  then show ?thesis using nec_decoder.total.fresh_total samsung32_decoder.total.fresh_total rc5_fresh_total rc6_decoder.fresh_total sirc_decoder.fresh_total
    kaseikyo_decoder.total.fresh_total rca_decoder.total.fresh_total
    by (elim disjE) (simp_all only: row_specs not_False_eq_True)
qed

section \<open>Transmissions\<close>

text \<open>The states that the callback reports for a stream of an encoder, with \<open>n\<close> transmissions left.\<close>

fun tx_states :: "nat \<Rightarrow> (InfraredStatus \<times> bool \<times> nat) list \<Rightarrow> (FuriHalInfraredTxGetDataState \<times> bool \<times> nat) list" where
  "tx_states n [] = []"
| "tx_states n ((status, x) # ss) =
     (if status = InfraredStatusDone
      then (if n = 1 then FuriHalInfraredTxGetDataStateLastDone else FuriHalInfraredTxGetDataStateDone, x) # tx_states (n - 1) ss
      else (FuriHalInfraredTxGetDataStateOk, x) # tx_states n ss)"

definition dones :: "(InfraredStatus \<times> bool \<times> nat) list \<Rightarrow> nat" where
  "dones ss = length (filter (\<lambda>s. fst s = InfraredStatusDone) ss)"

fun encoder_calls :: "(InfraredEncoderRC \<Rightarrow> (InfraredStatus \<times> nat \<times> bool \<times> InfraredEncoderRC) option) \<Rightarrow> nat \<Rightarrow> InfraredEncoderRC \<Rightarrow>
    ((InfraredStatus \<times> bool \<times> nat) list \<times> InfraredEncoderRC) option" where
  "encoder_calls enc 0 e = Some ([], e)"
| "encoder_calls enc (Suc n) e = do {
     (status, duration, level, e) \<leftarrow> enc e;
     (ss, e) \<leftarrow> encoder_calls enc n e;
     Some ((status, level, duration) # ss, e) }"

lemma calls_of_transmit:
  "infrared_transmit spec n (common_encoder e) = Some (ss, ce) \<Longrightarrow>
   encoder_calls (on_common_encode (infrared_common_encode spec)) n e = Some (ss, e \<lparr>common_encoder := ce\<rparr>)"
proof (induction n arbitrary: e ss)
  case (Suc n)
  then obtain st t l ce1 ss' where s: "infrared_common_encode spec (common_encoder e) = Some (st, t, l, ce1)"
    "infrared_transmit spec n ce1 = Some (ss', ce)" "ss = (st, l, t) # ss'"
    by (auto split: bind_splits)
  show ?case using Suc.IH [of "e \<lparr>common_encoder := ce1\<rparr>" ss'] s by (simp add: on_common_encode_def)
qed simp

text \<open>What the hardware fetches while the encoder's stream ends with the last transmission.\<close>

lemma fetch_stream:
  "encoder_calls (encoder_encode (infrared_encoder_decoder ! i)) n e = Some (ss, e') \<Longrightarrow>
   \<forall>s\<in>set ss. fst s \<in> {InfraredStatusOk, InfraredStatusDone} \<Longrightarrow> ss \<noteq> [] \<longrightarrow> fst (last ss) = InfraredStatusDone \<Longrightarrow>
   fetch infrared_get_data_callback n \<lparr>tx_handler = \<lparr>handler = Some e, encoder = Some i\<rparr>, number_of_transmissions = dones ss\<rparr> =
     Some (tx_states (dones ss) ss, \<lparr>tx_handler = \<lparr>handler = Some e', encoder = Some i\<rparr>, number_of_transmissions = 0\<rparr>)"
proof (induction n arbitrary: e ss)
  case 0
  then show ?case by (simp add: dones_def)
next
  case (Suc n)
  then obtain st t l e1 ss' where s: "encoder_encode (infrared_encoder_decoder ! i) e = Some (st, t, l, e1)"
    "encoder_calls (encoder_encode (infrared_encoder_decoder ! i)) n e1 = Some (ss', e')" "ss = (st, l, t) # ss'"
    by (auto split: bind_splits)
  have "last ss \<in> set ss" using s(3) by simp
  then have pos: "0 < dones ss" using Suc.prems(3) s(3) by (fastforce simp: dones_def filter_empty_conv)
  have last': "ss' \<noteq> [] \<longrightarrow> fst (last ss') = InfraredStatusDone" using Suc.prems(3) s(3) by auto
  note IH = Suc.IH [OF s(2) _ last']
  show ?case
  proof (cases "st = InfraredStatusDone")
    case True
    then have "dones ss = Suc (dones ss')" using s(3) by (simp add: dones_def)
    then show ?thesis using s True IH Suc.prems(2) by (simp add: infrared_get_data_callback_def infrared_encode_def)
  next
    case False
    then have "dones ss' = dones ss" "st = InfraredStatusOk" using s(3) Suc.prems(2) by (auto simp: dones_def)
    then show ?thesis using s IH Suc.prems(2) pos by (simp add: infrared_get_data_callback_def infrared_encode_def)
  qed
qed

lemma map_snd_tx_states: "map snd (tx_states n ss) = map snd ss"
  by (induction n ss rule: tx_states.induct) auto

lemma tx_states_last:
  "fst (last ss) = InfraredStatusDone \<Longrightarrow> ss \<noteq> [] \<Longrightarrow>
   filter (\<lambda>x. fst x = FuriHalInfraredTxGetDataStateLastDone) (tx_states (dones ss) ss) = [(FuriHalInfraredTxGetDataStateLastDone, snd (last ss))] \<and>
   last (tx_states (dones ss) ss) = (FuriHalInfraredTxGetDataStateLastDone, snd (last ss))"
proof (induction ss)
  case (Cons s ss)
  obtain st x where s: "s = (st, x)" by (cases s)
  show ?case
  proof (cases "ss = []")
    case True
    then show ?thesis using Cons.prems s by (simp add: dones_def)
  next
    case False
    have "last ss \<in> set ss" "fst (last ss) = InfraredStatusDone" using False Cons.prems by auto
    then have "0 < dones ss" by (fastforce simp: dones_def filter_empty_conv)
    moreover have "dones (s # ss) = (if st = InfraredStatusDone then Suc (dones ss) else dones ss)" using s by (simp add: dones_def)
    moreover have "tx_states (dones ss) ss \<noteq> []" using False map_snd_tx_states [of "dones ss" ss] by auto
    ultimately show ?thesis using Cons False s by auto
  qed
qed simp

lemma dones_copies:
  assumes "xs \<noteq> []"
  shows "dones (concat (replicate k (finished xs))) = k"
    "\<forall>s\<in>set (concat (replicate k (finished xs))). fst s \<in> {InfraredStatusOk, InfraredStatusDone}"
proof -
  have "dones (finished xs) = 1" by (simp add: dones_def finished_def filter_map comp_def)
  then show "dones (concat (replicate k (finished xs))) = k" by (induction k) (simp_all add: dones_def)
  have "\<forall>s\<in>set (finished xs). fst s \<in> {InfraredStatusOk, InfraredStatusDone}" by (auto simp: finished_def)
  then show "\<forall>s\<in>set (concat (replicate k (finished xs))). fst s \<in> {InfraredStatusOk, InfraredStatusDone}" by auto
qed

context toggle_protocol
begin

lemma copies_heard:
  assumes m: "carried m" and d: "idle d True" "length (d_data d) = infrared_data_bytes (spec_data spec)" "protocol m \<noteq> protocol (d_message d)"
    and h: "heard_as (bit_tolerance (timings spec)) (merge_levels (concat (replicate (Suc k) (message_signal_of m tg)))) received"
    and gap: "min_split_time (timings spec) < gap"
  shows "\<exists>d'. infrared_feed spec d (received @ [(False, gap)]) = Some (m \<lparr>repeat := False\<rparr> # replicate k (m \<lparr>repeat := True\<rparr>), d')"
proof -
  note e = message_signal_ends [of m tg]
  let ?M = "merge_levels (message_signal_of m tg)"
  have c: "merge_levels (concat (replicate (Suc k) (message_signal_of m tg))) = concat (replicate (Suc k) ?M)"
    using merge_copies [of "message_signal_of m tg" "Suc k"] e by blast
  obtain s ps where M: "?M = (False, s) # ps" using first_space [of m tg] by blast
  obtain t rest where r: "received = (False, t) # rest" "heard_as (bit_tolerance (timings spec)) (tl (concat (replicate (Suc k) ?M))) rest"
    using h M unfolding c by (auto simp: heard_Cons)
  obtain d1 where d1: "infrared_common_decode spec d False t = Some (None, d1)" "waiting spec d1" "same_context d d1"
    using feed_first_space [OF d(1)] by blast
  have l: "length (d_data d1) = infrared_data_bytes (spec_data spec)" using d(2) d1(3) by (simp add: same_context_def)
  have nr: "repeats d1 m tg = False" using d(3) d1(3) by (auto simp: repeats_def same_context_def)
  show ?thesis using feed_held [OF m d1(2) l r(2) gap] r(1) d1(1) unfolding nr by auto
qed

text \<open>What is fetched after \<^verbatim>\<open>infrared_send\<close>, if the protocol has the row \<open>i\<close>.\<close>

lemma sent_copies:
  assumes m: "carried m" and count: "0 < count"
    and row: "infrared_find_index_by_protocol (protocol m) = Some i" "infrared_get_protocol_min_repeat_count (protocol m) = Some 1"
      "encoder_reset (infrared_encoder_decoder ! i) = reset_fn"
      "encoder_encode (infrared_encoder_decoder ! i) = on_common_encode (infrared_common_encode spec)"
      "encoder_alloc (infrared_encoder_decoder ! i) = \<lparr>common_encoder = infrared_common_encoder_alloc spec, toggle_bit = False\<rparr>"
  shows "\<exists>tx n out tx'. infrared_send m count = Some tx \<and> fetch infrared_get_data_callback n tx = Some (out, tx') \<and> number_of_transmissions tx' = 0 \<and>
    fst (last out) = FuriHalInfraredTxGetDataStateLastDone \<and> length (filter (\<lambda>x. fst x = FuriHalInfraredTxGetDataStateLastDone) out) = 1 \<and>
    map snd out = concat (replicate (nat count) (message_signal_of m False))"
proof -
  let ?e0 = "\<lparr>common_encoder = infrared_common_encoder_alloc spec, toggle_bit = False\<rparr>"
  let ?xs = "message_signal_of m False"
  obtain k where k: "nat count = Suc k" using count by (cases "nat count") auto
  have len: "length (e_data (common_encoder ?e0)) = infrared_data_bytes (spec_data spec)" by (simp add: infrared_common_encoder_alloc_def)
  obtain ce n ce' where s0: "reset_fn ?e0 m = Some (?e0 \<lparr>common_encoder := ce, toggle_bit := \<not> toggle_bit ?e0\<rparr>)"
    "infrared_transmit spec n ce = Some (concat (replicate (Suc k) (finished (message_signal_of m (toggle_bit ?e0)))), ce')"
    using press_sent [OF m len, of k] by metis
  have s: "reset_fn ?e0 m = Some (?e0 \<lparr>common_encoder := ce, toggle_bit := True\<rparr>)"
    "infrared_transmit spec n ce = Some (concat (replicate (Suc k) (finished ?xs)), ce')" using s0 by simp_all
  let ?e1 = "?e0 \<lparr>common_encoder := ce, toggle_bit := True\<rparr>" and ?ss = "concat (replicate (Suc k) (finished ?xs))"
  have send: "infrared_send m count = Some \<lparr>tx_handler = \<lparr>handler = Some ?e1, encoder = Some i\<rparr>, number_of_transmissions = Suc k\<rparr>"
    using row s(1) count k
    by (simp add: infrared_send_def infrared_is_protocol_valid_def infrared_reset_encoder_def infrared_alloc_encoder_def max_def)
  have ne: "?xs \<noteq> []" using message_signal_ends by blast
  have calls: "encoder_calls (encoder_encode (infrared_encoder_decoder ! i)) n ?e1 = Some (?ss, ?e1 \<lparr>common_encoder := ce'\<rparr>)"
    unfolding row(4) using s(2) by (intro calls_of_transmit) simp
  have last: "fst (last ?ss) = InfraredStatusDone" by (rule copies_done(1) [OF ne])
  have ss: "?ss \<noteq> []" "dones ?ss = Suc k" using dones_copies(1) [OF ne, of "Suc k"] by (auto simp: finished_def)
  note f = fetch_stream [OF calls dones_copies(2) [OF ne], unfolded ss(2)]
  have t: "map snd (tx_states (Suc k) ?ss) = concat (replicate (nat count) ?xs)"
    unfolding map_snd_tx_states k by (rule copies_done(3) [OF ne])
  show ?thesis using send f last t tx_states_last [OF last ss(1), unfolded ss(2)] by (intro exI conjI) auto
qed

end

text \<open>A raw signal: the timings with alternating levels, behind a pause if it starts with a mark.\<close>

lemma fetch_raw_from:
  assumes "k < length ts" "silence \<longrightarrow> k \<noteq> 0"
  shows "fetch infrared_get_raw_data_callback (length ts - k)
      \<lparr>raw_timings = ts, raw_timings_index = k, raw_timings_number = length ts, raw_start_from_mark = mark, raw_add_silence = silence\<rparr> =
    Some (map (\<lambda>i. (if Suc i = length ts then FuriHalInfraredTxGetDataStateLastDone else FuriHalInfraredTxGetDataStateOk, mark \<noteq> odd i, ts ! i)) [k..<length ts],
      \<lparr>raw_timings = ts, raw_timings_index = length ts, raw_timings_number = length ts, raw_start_from_mark = mark, raw_add_silence = silence\<rparr>)"
  using assms
proof (induction "length ts - k" arbitrary: k)
  case (Suc n)
  then have d: "length ts - k = Suc (length ts - Suc k)" "n = length ts - Suc k" "[k..<length ts] = k # [Suc k..<length ts]"
    by (simp_all add: upt_conv_Cons)
  show ?case
  proof (cases "Suc k = length ts")
    case True
    then show ?thesis using Suc.prems unfolding d(1,3) by (auto simp: infrared_get_raw_data_callback_def rd_def odd_iff_mod_2_eq_one)
  next
    case False
    then show ?thesis using Suc.prems Suc.hyps(1) [OF d(2)] unfolding d(1,3)
      by (auto simp: infrared_get_raw_data_callback_def rd_def odd_iff_mod_2_eq_one)
  qed
qed simp

lemma infrared_send_raw_correct:
  assumes "ts \<noteq> []"
  shows "\<exists>tx'. fetch infrared_get_raw_data_callback (of_bool mark + length ts) (infrared_send_raw_ext ts (length ts) mark) =
    Some ((if mark then [(FuriHalInfraredTxGetDataStateOk, False, 180000)] else []) @
      map (\<lambda>i. (if Suc i = length ts then FuriHalInfraredTxGetDataStateLastDone else FuriHalInfraredTxGetDataStateOk, mark \<noteq> odd i, ts ! i))
        [0..<length ts], tx')"
  using fetch_raw_from [of 0 ts False mark] assms
  by (cases mark) (auto simp: infrared_send_raw_ext_def infrared_get_raw_data_callback_def INFRARED_RAW_TX_TIMING_DELAY_US_def)

section \<open>Properties\<close>

text \<open>
  C12. The name of a protocol, with which signals are stored in files, finds the protocol again, and it is the only one with
  this name; any other text gives the unknown protocol. The lookup never fails a check.
\<close>

theorem infrared_names_roundtrip:
  "infrared_get_protocol_by_name s = Some p \<longleftrightarrow>
     infrared_get_protocol_name p = Some s \<or> p = InfraredProtocolUnknown \<and> (\<forall>q. infrared_get_protocol_name q \<noteq> Some s)"
proof -
  have "\<forall>q\<in>set protocol_values. infrared_get_protocol_name q \<noteq> None" "distinct (map infrared_get_protocol_name protocol_values)"
    by (simp_all add: protocol_values_def protocol_names)
  moreover have "q \<in> set protocol_values \<longleftrightarrow> infrared_get_protocol_name q \<noteq> None" for q
    by (cases q) (simp_all add: protocol_values_def protocol_names)
  ultimately show ?thesis
    unfolding infrared_get_protocol_by_name_def by (simp only: protocol_by_name_iff) (auto simp del: not_None_eq)
qed


definition toggle_messages where
  "toggle_messages = [(infrared_protocol_rc5, rc5_message), (infrared_protocol_rc6, rc6_message)]"

text \<open>
  C4. A message that is sent twice with \<^verbatim>\<open>infrared_send\<close>. The hardware fetches it as often as was asked for, and is told with the
  last sample, and only there, that it was the last. But every call allocates an encoder, whose toggle
  bit starts with zero: with RC5, RC5X and RC6 both signals are the same, and a receiver takes the second press of the key
  for a repetition of the first.
\<close>

theorem infrared_send_same_key:
  assumes p: "(spec, carried) \<in> set toggle_messages" and m: "carried m" and count: "0 < count"
  shows "\<exists>tx n out tx'. infrared_send m count = Some tx \<and> fetch infrared_get_data_callback n tx = Some (out, tx') \<and> number_of_transmissions tx' = 0 \<and>
    fst (last out) = FuriHalInfraredTxGetDataStateLastDone \<and> length (filter (\<lambda>x. fst x = FuriHalInfraredTxGetDataStateLastDone) out) = 1 \<and>
    (\<forall>received gap. heard_as (bit_tolerance (timings spec)) (merge_levels (map snd (out @ out))) received \<longrightarrow> min_split_time (timings spec) < gap \<longrightarrow>
      (\<exists>d. infrared_feed spec (infrared_common_decoder_alloc spec) (received @ [(False, gap)]) =
        Some (m \<lparr>repeat := False\<rparr> # replicate (2 * nat count - 1) (m \<lparr>repeat := True\<rparr>), d)))"
proof -
  have twice: "concat (replicate (nat count) xs) @ concat (replicate (nat count) xs) = concat (replicate (Suc (2 * nat count - 1)) xs)" for xs :: "(bool \<times> nat) list"
  proof -
    have "Suc (2 * nat count - 1) = nat count + nat count" using count by simp
    then show ?thesis by (simp only: replicate_add concat_append)
  qed
  consider "spec = infrared_protocol_rc5" "carried = rc5_message" | "spec = infrared_protocol_rc6" "carried = rc6_message"
    using p by (auto simp: toggle_messages_def)
  then show ?thesis
  proof cases
    case 1
    have m5: "rc5_message m" using m 1 by simp
    have row: "infrared_find_index_by_protocol (protocol m) = Some 2" "infrared_get_protocol_min_repeat_count (protocol m) = Some 1"
      "protocol m \<noteq> InfraredProtocolNEC"
      using m5 by (auto simp: rc5_message_def protocol_rows infrared_get_protocol_min_repeat_count_def infrared_get_variant_by_protocol_def
          infrared_encoder_decoder_def common_row_def variant_defs)
    have tab: "encoder_reset (infrared_encoder_decoder ! 2) = infrared_encoder_rc5_reset"
      "encoder_encode (infrared_encoder_decoder ! 2) = on_common_encode (infrared_common_encode infrared_protocol_rc5)"
      "encoder_alloc (infrared_encoder_decoder ! 2) = \<lparr>common_encoder = infrared_common_encoder_alloc infrared_protocol_rc5, toggle_bit = False\<rparr>"
      by (simp_all add: infrared_encoder_decoder_def infrared_encoder_rc5_alloc_def)
    note s = rc5.sent_copies [OF m5 count row(1,2) tab]
    then show ?thesis using rc5.copies_heard [OF m5 alloc_decoder(1,3), of "2 * nat count - 1" False] row(3) unfolding 1
      by (fastforce simp only: map_append twice alloc_decoder(2))
  next
    case 2
    have m6: "rc6_message m" using m 2 by simp
    have row: "infrared_find_index_by_protocol (protocol m) = Some 3" "infrared_get_protocol_min_repeat_count (protocol m) = Some 1"
      "protocol m \<noteq> InfraredProtocolNEC"
      using m6 by (auto simp: rc6_message_def protocol_rows infrared_get_protocol_min_repeat_count_def infrared_get_variant_by_protocol_def
          infrared_encoder_decoder_def common_row_def variant_defs)
    have tab: "encoder_reset (infrared_encoder_decoder ! 3) = infrared_encoder_rc6_reset"
      "encoder_encode (infrared_encoder_decoder ! 3) = on_common_encode (infrared_common_encode infrared_protocol_rc6)"
      "encoder_alloc (infrared_encoder_decoder ! 3) = \<lparr>common_encoder = infrared_common_encoder_alloc infrared_protocol_rc6, toggle_bit = False\<rparr>"
      by (simp_all add: infrared_encoder_decoder_def infrared_encoder_rc6_alloc_def)
    note s = rc6.sent_copies [OF m6 count row(1,2) tab]
    then show ?thesis using rc6.copies_heard [OF m6 alloc_decoder(1,3), of "2 * nat count - 1" False] row(3) unfolding 2
      by (fastforce simp only: map_append twice alloc_decoder(2))
  qed
qed

lemma infrared_send_same_key_witness:
  "\<exists>tx n out tx'. infrared_send \<lparr>protocol = InfraredProtocolRC6, address = 4, command = 12, repeat = False\<rparr> 1 = Some tx \<and>
    fetch infrared_get_data_callback n tx = Some (out, tx') \<and> number_of_transmissions tx' = 0 \<and>
    fst (last out) = FuriHalInfraredTxGetDataStateLastDone \<and> length (filter (\<lambda>x. fst x = FuriHalInfraredTxGetDataStateLastDone) out) = 1 \<and>
    (\<forall>received gap. heard_as (bit_tolerance (timings infrared_protocol_rc6)) (merge_levels (map snd (out @ out))) received \<longrightarrow>
      min_split_time (timings infrared_protocol_rc6) < gap \<longrightarrow>
      (\<exists>d. infrared_feed infrared_protocol_rc6 (infrared_common_decoder_alloc infrared_protocol_rc6) (received @ [(False, gap)]) =
        Some ([\<lparr>protocol = InfraredProtocolRC6, address = 4, command = 12, repeat = False\<rparr>,
               \<lparr>protocol = InfraredProtocolRC6, address = 4, command = 12, repeat = True\<rparr>], d)))"
  using infrared_send_same_key [of infrared_protocol_rc6 rc6_message "\<lparr>protocol = InfraredProtocolRC6, address = 4, command = 12, repeat = False\<rparr>" 1]
  by (simp add: toggle_messages_def rc6_message_def)

end
