(* ===== verification/InfraredWorker.thy ===== *)
theory InfraredWorker
  imports InfraredFront
begin

text \<open>
  The infrared worker, \<^verbatim>\<open>lib/infrared/worker/infrared_worker.c\<close>: what its receiving thread does with the samples and events of
  one turn, and how its sending thread fills the buffer of the hardware. The thread, its event flags and the
  stream buffer are the kernel's; a turn gets the events and the samples that are in the buffer, and filling
  gets the number of free places. The receiving and the sending variables of a worker share their memory in the code,
  too; each start sets what its own thread reads before writing. Notifications are left out, and so are the calls that
  set up the hardware and the thread. A duty cycle is kept in percent, so that the tolerance of the comparison of two of them does not matter.
\<close>

definition MAX_TIMINGS_AMOUNT :: nat where "MAX_TIMINGS_AMOUNT = 1024"
definition INFRARED_MAX_FREQUENCY :: nat where "INFRARED_MAX_FREQUENCY = 1000000"
definition INFRARED_MIN_FREQUENCY :: nat where "INFRARED_MIN_FREQUENCY = 10000"

text \<open>
  The message and the raw signal share their memory in the code; which of them is meant is said by \<open>decoded\<close>, and the
  other one is not read. The duty cycle is in percent.
\<close>

record InfraredWorkerSignal =
  decoded :: bool
  timings_cnt :: nat
  sig_message :: InfraredMessage
  sig_timings :: "nat list"
  sig_frequency :: nat
  sig_duty_cycle :: nat

datatype InfraredWorkerState =
    InfraredWorkerStateIdle
  | InfraredWorkerStateRunRx
  | InfraredWorkerStateRunTx
  | InfraredWorkerStateWaitTxEnd
  | InfraredWorkerStateStopTx
  | InfraredWorkerStateStartTx

record InfraredWorker =
  signal :: InfraredWorkerSignal
  worker_state :: InfraredWorkerState
  infrared_encoder :: InfraredEncoderHandler
  infrared_decoder :: "InfraredCommonDecoder list"
  decode_enable :: bool
  tx_frequency :: nat
  tx_duty_cycle :: nat
  tx_raw_cnt :: nat
  need_reinitialization :: bool
  steady_signal_sent :: bool
  rx_overrun :: bool

text \<open>The memory of a new worker is cleared.\<close>

definition infrared_worker_alloc :: "InfraredWorker option" where
  "infrared_worker_alloc = do {
     h \<leftarrow> infrared_alloc_decoder;
     Some \<lparr>signal = \<lparr>decoded = False, timings_cnt = 0,
             sig_message = \<lparr>protocol = InfraredProtocolNEC, address = 0, command = 0, repeat = False\<rparr>,
             sig_timings = replicate (MAX_TIMINGS_AMOUNT + 1) 0, sig_frequency = 0, sig_duty_cycle = 0\<rparr>,
           worker_state = InfraredWorkerStateIdle, infrared_encoder = infrared_alloc_encoder, infrared_decoder = h, decode_enable = True,
           tx_frequency = 0, tx_duty_cycle = 0, tx_raw_cnt = 0, need_reinitialization = False, steady_signal_sent = False, rx_overrun = False\<rparr>
   }"

definition infrared_worker_rx_start :: "InfraredWorker \<Rightarrow> InfraredWorker option" where
  "infrared_worker_rx_start w = do {
     furi_check (worker_state w = InfraredWorkerStateIdle);
     Some (w \<lparr>rx_overrun := False, worker_state := InfraredWorkerStateRunRx\<rparr>)
   }"

definition infrared_worker_rx_stop :: "InfraredWorker \<Rightarrow> InfraredWorker option" where
  "infrared_worker_rx_stop w = do {
     furi_check (worker_state w = InfraredWorkerStateRunRx);
     Some (w \<lparr>worker_state := InfraredWorkerStateIdle\<rparr>)
   }"

definition infrared_worker_tx_start :: "InfraredWorker \<Rightarrow> InfraredWorker option" where
  "infrared_worker_tx_start w = do {
     furi_check (worker_state w = InfraredWorkerStateIdle);
     Some (w \<lparr>steady_signal_sent := False, need_reinitialization := False, worker_state := InfraredWorkerStateStartTx\<rparr>)
   }"

text \<open>Stopping: the thread has ended when this is reached.\<close>

definition infrared_worker_tx_stop :: "InfraredWorker \<Rightarrow> InfraredWorker option" where
  "infrared_worker_tx_stop w = do {
     furi_check (worker_state w \<noteq> InfraredWorkerStateRunRx);
     Some (w \<lparr>signal := (signal w) \<lparr>timings_cnt := 0\<rparr>, worker_state := InfraredWorkerStateIdle\<rparr>)
   }"

section \<open>Receiving\<close>

text \<open>
  A sample: the worker, the signals that the callback gets, and whether the overrun event is raised.
\<close>

definition infrared_worker_process_timings :: "InfraredWorker \<Rightarrow> nat \<Rightarrow> bool \<Rightarrow> (InfraredWorker \<times> InfraredWorkerSignal list \<times> bool) option" where
  "infrared_worker_process_timings w duration level = do {
     (message_decoded, h) \<leftarrow> (if decode_enable w then infrared_decode (infrared_decoder w) level duration else Some (None, infrared_decoder w));
     let w = w \<lparr>infrared_decoder := h\<rparr>;
     (case message_decoded of
        Some m \<Rightarrow> (let s = (signal w) \<lparr>sig_message := m, timings_cnt := 0, decoded := True\<rparr> in Some (w \<lparr>signal := s\<rparr>, [s], False))
      | None \<Rightarrow>
          if timings_cnt (signal w) = 0 \<and> \<not> level then Some (w, [], False)
          else if timings_cnt (signal w) < MAX_TIMINGS_AMOUNT then do {
            ts \<leftarrow> wr (sig_timings (signal w)) (timings_cnt (signal w)) duration;
            Some (w \<lparr>signal := (signal w) \<lparr>sig_timings := ts, timings_cnt := timings_cnt (signal w) + 1\<rparr>\<rparr>, [], False)
          } else Some (w \<lparr>rx_overrun := True\<rparr>, [], True))
   }"

definition infrared_worker_process_timeout :: "InfraredWorker \<Rightarrow> (InfraredWorker \<times> InfraredWorkerSignal list) option" where
  "infrared_worker_process_timeout w =
     (if timings_cnt (signal w) < 2 then Some (w, [])
      else do {
        (message_decoded, h) \<leftarrow> infrared_check_decoder_ready (infrared_decoder w);
        let s = (case message_decoded of
                   Some m \<Rightarrow> (signal w) \<lparr>sig_message := m, timings_cnt := 0, decoded := True\<rparr>
                 | None \<Rightarrow> (signal w) \<lparr>decoded := False\<rparr>);
        Some (w \<lparr>infrared_decoder := h, signal := s\<rparr>, [s])
      })"

text \<open>The samples in the stream buffer; they are dropped after an overrun.\<close>

fun rx_samples :: "InfraredWorker \<Rightarrow> (bool \<times> nat) list \<Rightarrow> (InfraredWorker \<times> InfraredWorkerSignal list \<times> bool) option" where
  "rx_samples w [] = Some (w, [], False)"
| "rx_samples w ((level, duration) # ss) = do {
     (w, out, over) \<leftarrow> (if \<not> rx_overrun w then infrared_worker_process_timings w duration level else Some (w, [], False));
     (w, out', over') \<leftarrow> rx_samples w ss;
     Some (w, out @ out', over \<or> over')
   }"

text \<open>One turn of the receiving thread, with the events it has caught.\<close>

definition infrared_worker_rx_turn :: "InfraredWorker \<Rightarrow> bool \<Rightarrow> (bool \<times> nat) list \<Rightarrow> bool \<Rightarrow> bool \<Rightarrow>
    (InfraredWorker \<times> InfraredWorkerSignal list \<times> bool) option" where
  "infrared_worker_rx_turn w rx_received samples overrun rx_timeout = do {
     (w, out, raised) \<leftarrow> (if rx_received then rx_samples w samples else Some (w, [], False));
     w \<leftarrow> (if overrun then do {
         h \<leftarrow> infrared_reset_decoder (infrared_decoder w);
         Some (w \<lparr>infrared_decoder := h, signal := (signal w) \<lparr>timings_cnt := 0\<rparr>\<rparr>) } else Some w);
     (w, out') \<leftarrow> (if rx_timeout then do {
         (w, out') \<leftarrow> (if rx_overrun w then Some (w \<lparr>rx_overrun := False\<rparr>, []) else infrared_worker_process_timeout w);
         Some (w \<lparr>signal := (signal w) \<lparr>timings_cnt := 0\<rparr>\<rparr>, out') } else Some (w, []));
     Some (w, out @ out', raised)
   }"

section \<open>Sending\<close>

definition infrared_worker_set_decoded_signal :: "InfraredWorker \<Rightarrow> InfraredMessage \<Rightarrow> InfraredWorker" where
  "infrared_worker_set_decoded_signal w m = w \<lparr>signal := (signal w) \<lparr>decoded := True, sig_message := m\<rparr>\<rparr>"

definition infrared_worker_set_raw_signal :: "InfraredWorker \<Rightarrow> nat list \<Rightarrow> nat \<Rightarrow> nat \<Rightarrow> nat \<Rightarrow> InfraredWorker option" where
  "infrared_worker_set_raw_signal w ts cnt freq duty = do {
     furi_check (cnt > 0);
     furi_check (freq \<le> INFRARED_MAX_FREQUENCY \<and> freq \<ge> INFRARED_MIN_FREQUENCY);
     furi_check (duty \<le> 100 \<and> duty > 0);
     let max_copy_num = length (sig_timings (signal w)) - 1;
     furi_check (cnt \<le> max_copy_num);
     raw \<leftarrow> wr (sig_timings (signal w)) 0 INFRARED_RAW_TX_TIMING_DELAY_US;
     furi_check (cnt \<le> length ts);
     let raw = take 1 raw @ take cnt ts @ drop (1 + cnt) raw;
     Some (w \<lparr>signal := (signal w) \<lparr>sig_frequency := freq, sig_duty_cycle := duty, sig_timings := raw, decoded := False, timings_cnt := cnt + 1\<rparr>\<rparr>)
   }"

datatype InfraredWorkerGetSignalResponse =
    InfraredWorkerGetSignalResponseNew
  | InfraredWorkerGetSignalResponseSame
  | InfraredWorkerGetSignalResponseStop

type_synonym get_signal = "InfraredWorker \<Rightarrow> (InfraredWorkerGetSignalResponse \<times> InfraredWorker) option"

definition infrared_worker_tx_get_signal_steady_callback :: get_signal where
  "infrared_worker_tx_get_signal_steady_callback w =
     Some (if steady_signal_sent w then InfraredWorkerGetSignalResponseSame else InfraredWorkerGetSignalResponseNew,
           w \<lparr>steady_signal_sent := True\<rparr>)"

definition infrared_get_new_signal :: "get_signal \<Rightarrow> InfraredWorker \<Rightarrow> (bool \<times> InfraredWorker) option" where
  "infrared_get_new_signal callback w = do {
     (response, w) \<leftarrow> callback w;
     (case response of
        InfraredWorkerGetSignalResponseNew \<Rightarrow> do {
          (freq, duty) \<leftarrow> (if decoded (signal w) then do {
              f \<leftarrow> infrared_get_protocol_frequency (protocol (sig_message (signal w)));
              d \<leftarrow> infrared_get_protocol_duty_cycle (protocol (sig_message (signal w)));
              Some (f, d)
            } else do {
              furi_check (timings_cnt (signal w) > 1);
              Some (sig_frequency (signal w), sig_duty_cycle (signal w))
            });
          let w = w \<lparr>tx_raw_cnt := 0, need_reinitialization := (freq \<noteq> tx_frequency w \<or> duty \<noteq> tx_duty_cycle w),
                     tx_frequency := freq, tx_duty_cycle := duty\<rparr>;
          w \<leftarrow> (if decoded (signal w) then do {
              e \<leftarrow> infrared_reset_encoder (infrared_encoder w) (sig_message (signal w));
              Some (w \<lparr>infrared_encoder := e\<rparr>)
            } else Some w);
          Some (True, w)
        }
      | InfraredWorkerGetSignalResponseSame \<Rightarrow> Some (True, w)
      | InfraredWorkerGetSignalResponseStop \<Rightarrow> Some (False, w))
   }"

text \<open>The next sample to be sent, with the encoder's status.\<close>

definition tx_next_timing :: "InfraredWorker \<Rightarrow> (InfraredStatus \<times> nat \<times> bool \<times> InfraredWorker) option" where
  "tx_next_timing w =
     (if decoded (signal w) then do {
        (status, duration, level, e) \<leftarrow> infrared_encode (infrared_encoder w);
        Some (status, duration, level, w \<lparr>infrared_encoder := e\<rparr>)
      } else do {
        duration \<leftarrow> rd (sig_timings (signal w)) (tx_raw_cnt w);
        let level = (tx_raw_cnt w mod 2 = 1);
        let w = w \<lparr>tx_raw_cnt := tx_raw_cnt w + 1\<rparr>;
        if tx_raw_cnt w \<ge> timings_cnt (signal w) then Some (InfraredStatusDone, duration, level, w \<lparr>tx_raw_cnt := 0\<rparr>)
        else Some (InfraredStatusOk, duration, level, w)
      })"

text \<open>
  Filling the buffer, which has room for \<open>room\<close> samples: what is written, and whether there is more to send.
\<close>

fun infrared_worker_tx_fill_buffer :: "get_signal \<Rightarrow> nat \<Rightarrow> InfraredWorker \<Rightarrow>
    (bool \<times> (FuriHalInfraredTxGetDataState \<times> bool \<times> nat) list \<times> InfraredWorker) option" where
  "infrared_worker_tx_fill_buffer callback 0 w = Some (True, [], w)"
| "infrared_worker_tx_fill_buffer callback (Suc room) w =
     (if need_reinitialization w then Some (True, [], w)
      else do {
        (status, duration, level, w) \<leftarrow> tx_next_timing w;
        (state, new_data_available, w) \<leftarrow> (case status of
            InfraredStatusOk \<Rightarrow> Some (FuriHalInfraredTxGetDataStateOk, True, w)
          | InfraredStatusDone \<Rightarrow> do {
              (new_data_available, w) \<leftarrow> infrared_get_new_signal callback w;
              Some (if need_reinitialization w \<or> \<not> new_data_available then FuriHalInfraredTxGetDataStateLastDone
                    else FuriHalInfraredTxGetDataStateDone, new_data_available, w)
            }
          | _ \<Rightarrow> None);
        if new_data_available then do {
          (more, xs, w) \<leftarrow> infrared_worker_tx_fill_buffer callback room w;
          Some (more, (state, level, duration) # xs, w)
        } else Some (False, [(state, level, duration)], w)
      })"

text \<open>The local variables of the sending thread.\<close>

record InfraredTxThread =
  repeats_left :: nat
  exit_pending :: bool
  running :: bool

definition tx_thread_enter :: "get_signal \<Rightarrow> InfraredWorker \<Rightarrow> (InfraredTxThread \<times> InfraredWorker) option" where
  "tx_thread_enter callback w = do {
     furi_check (worker_state w = InfraredWorkerStateStartTx);
     n \<leftarrow> (if decoded (signal w) then infrared_get_protocol_min_repeat_count (protocol (sig_message (signal w))) else Some 1);
     (run, w) \<leftarrow> infrared_get_new_signal callback w;
     furi_check run;
     Some (\<lparr>repeats_left = n, exit_pending = False, running = run\<rparr>, w)
   }"

text \<open>
  One turn of the sending thread. \<open>room\<close> is the free space in the buffer, the three flags are the events of the turn:
  the one that asks the thread to end, the one that asks for more samples, and the one that tells that a message
  has been sent. The counter is unsigned.
\<close>

definition infrared_worker_tx_turn :: "get_signal \<Rightarrow> nat \<Rightarrow> bool \<Rightarrow> bool \<Rightarrow> bool \<Rightarrow> InfraredTxThread \<times> InfraredWorker \<Rightarrow>
    ((FuriHalInfraredTxGetDataState \<times> bool \<times> nat) list \<times> InfraredTxThread \<times> InfraredWorker) option" where
  "infrared_worker_tx_turn callback room exit fill sent = (\<lambda>(t, w).
     case worker_state w of
       InfraredWorkerStateStartTx \<Rightarrow> do {
         let t = t \<lparr>repeats_left := (repeats_left t + 2 ^ 32 - 1) mod 2 ^ 32\<rparr>;
         (new_data_available, xs, w) \<leftarrow> infrared_worker_tx_fill_buffer callback room (w \<lparr>need_reinitialization := False\<rparr>);
         Some (xs, t, w \<lparr>worker_state := (if \<not> new_data_available then InfraredWorkerStateStopTx
                                   else if need_reinitialization w then InfraredWorkerStateWaitTxEnd else InfraredWorkerStateRunTx)\<rparr>)
       }
     | InfraredWorkerStateStopTx \<Rightarrow> Some ([], t \<lparr>running := False\<rparr>, w)
     | InfraredWorkerStateWaitTxEnd \<Rightarrow> Some ([], t \<lparr>running := (running t \<and> \<not> exit)\<rparr>, w \<lparr>worker_state := InfraredWorkerStateStartTx\<rparr>)
     | InfraredWorkerStateRunTx \<Rightarrow> do {
         furi_check (exit \<or> fill \<or> sent);
         let t = t \<lparr>exit_pending := (exit_pending t \<or> exit)\<rparr>;
         (xs, w) \<leftarrow> (if fill then do {
             (_, xs, w) \<leftarrow> infrared_worker_tx_fill_buffer callback room w;
             Some (xs, if need_reinitialization w then w \<lparr>worker_state := InfraredWorkerStateWaitTxEnd\<rparr> else w)
           } else Some ([], w));
         let t = (if sent \<and> repeats_left t > 0 then t \<lparr>repeats_left := repeats_left t - 1\<rparr> else t);
         Some (xs, t, if exit_pending t \<and> repeats_left t = 0 then w \<lparr>worker_state := InfraredWorkerStateStopTx\<rparr> else w)
       }
     | _ \<Rightarrow> None)"

text \<open>The turns of the thread until it ends.\<close>

fun tx_turns :: "get_signal \<Rightarrow> (nat \<times> bool \<times> bool \<times> bool) list \<Rightarrow> InfraredTxThread \<times> InfraredWorker \<Rightarrow>
    ((FuriHalInfraredTxGetDataState \<times> bool \<times> nat) list \<times> InfraredTxThread \<times> InfraredWorker) option" where
  "tx_turns callback [] tw = Some ([], tw)"
| "tx_turns callback ((room, exit, fill, sent) # es) tw =
     (if \<not> running (fst tw) then Some ([], tw)
      else do {
        (xs, tw) \<leftarrow> infrared_worker_tx_turn callback room exit fill sent tw;
        (ys, tw) \<leftarrow> tx_turns callback es tw;
        Some (xs @ ys, tw)
      })"

section \<open>Capturing and replaying a raw signal\<close>

text \<open>What is kept of a signal: spaces before its first mark are skipped.\<close>

abbreviation from_mark :: "(bool \<times> nat) list \<Rightarrow> (bool \<times> nat) list" where
  "from_mark ss \<equiv> dropWhile (\<lambda>s. \<not> fst s) ss"

lemma rx_undecoded:
  assumes "decode_enable w" "\<not> rx_overrun w" "length (sig_timings (signal w)) = MAX_TIMINGS_AMOUNT + 1"
    "infrared_decode_samples (infrared_decoder w) ss = Some (replicate (length ss) None, h)"
    "timings_cnt (signal w) + length (if timings_cnt (signal w) = 0 then from_mark ss else ss) \<le> MAX_TIMINGS_AMOUNT"
  shows "\<exists>raw. rx_samples w ss = Some (w \<lparr>infrared_decoder := h, signal := (signal w) \<lparr>sig_timings := raw,
        timings_cnt := timings_cnt (signal w) + length (if timings_cnt (signal w) = 0 then from_mark ss else ss)\<rparr>\<rparr>, [], False) \<and>
    length raw = MAX_TIMINGS_AMOUNT + 1 \<and>
    take (timings_cnt (signal w) + length (if timings_cnt (signal w) = 0 then from_mark ss else ss)) raw =
      take (timings_cnt (signal w)) (sig_timings (signal w)) @ map snd (if timings_cnt (signal w) = 0 then from_mark ss else ss)"
  using assms
proof (induction ss arbitrary: w)
  case Nil
  then show ?case by (intro exI [of _ "sig_timings (signal w)"]) simp
next
  case (Cons x ss)
  obtain lv t where x: "x = (lv, t)" by (cases x)
  obtain h1 where h1: "infrared_decode (infrared_decoder w) lv t = Some (None, h1)" "infrared_decode_samples h1 ss = Some (replicate (length ss) None, h)"
    using Cons.prems(4) x by (auto split: bind_splits)
  let ?n = "timings_cnt (signal w)"
  show ?case
  proof (cases "?n = 0 \<and> \<not> lv")
    case True
    let ?w = "w \<lparr>infrared_decoder := h1\<rparr>"
    have "infrared_worker_process_timings w t lv = Some (?w, [], False)" using Cons.prems(1) h1(1) True by (simp add: infrared_worker_process_timings_def)
    then show ?thesis using Cons.IH [of ?w] Cons.prems True x h1(2) by auto
  next
    case False
    then have room: "?n < MAX_TIMINGS_AMOUNT" using Cons.prems(5) x by (auto split: if_splits)
    let ?raw = "(sig_timings (signal w)) [?n := t]"
    let ?w = "w \<lparr>infrared_decoder := h1, signal := (signal w) \<lparr>sig_timings := ?raw, timings_cnt := ?n + 1\<rparr>\<rparr>"
    have p: "infrared_worker_process_timings w t lv = Some (?w, [], False)"
      using Cons.prems(1,3) h1(1) False room by (auto simp: infrared_worker_process_timings_def wr_def)
    have all: "(if ?n = 0 then from_mark (x # ss) else x # ss) = x # ss" using False x by auto
    have "take (Suc ?n) ?raw = take ?n (sig_timings (signal w)) @ [t]"
      using Cons.prems(3) room by (simp add: take_Suc_conv_app_nth)
    then show ?thesis using Cons.IH [of ?w] Cons.prems x h1(2) p unfolding all by auto
  qed
qed

text \<open>The sample at place \<open>j\<close> of a raw signal, as it is put into the buffer.\<close>

definition raw_sample :: "InfraredWorkerSignal \<Rightarrow> nat \<Rightarrow> FuriHalInfraredTxGetDataState \<times> bool \<times> nat" where
  "raw_sample s j = (if Suc j = timings_cnt s then FuriHalInfraredTxGetDataStateDone else FuriHalInfraredTxGetDataStateOk, odd j, sig_timings s ! j)"

text \<open>The worker while it sends a raw signal on and on.\<close>

definition sends_raw :: "InfraredWorker \<Rightarrow> bool" where
  "sends_raw w \<longleftrightarrow> \<not> decoded (signal w) \<and> tx_raw_cnt w < timings_cnt (signal w) \<and> timings_cnt (signal w) \<le> length (sig_timings (signal w)) \<and>
     \<not> need_reinitialization w \<and> steady_signal_sent w"

lemma fill_raw:
  assumes "sends_raw w"
  shows "infrared_worker_tx_fill_buffer infrared_worker_tx_get_signal_steady_callback room w =
    Some (True, map (\<lambda>i. raw_sample (signal w) ((tx_raw_cnt w + i) mod timings_cnt (signal w))) [0..<room],
      w \<lparr>tx_raw_cnt := (tx_raw_cnt w + room) mod timings_cnt (signal w)\<rparr>)"
  using assms
proof (induction room arbitrary: w)
  case 0
  then show ?case by (cases w) (simp add: sends_raw_def)
next
  case (Suc room)
  let ?cnt = "timings_cnt (signal w)" and ?k = "tx_raw_cnt w" and ?cb = infrared_worker_tx_get_signal_steady_callback
  define w1 where "w1 = w \<lparr>tx_raw_cnt := Suc ?k mod ?cnt\<rparr>"
  let ?xs = "map (\<lambda>i. raw_sample (signal w) ((Suc ?k + i) mod ?cnt)) [0..<room]"
  have r: "\<not> decoded (signal w)" "?k < ?cnt" "?cnt \<le> length (sig_timings (signal w))" "\<not> need_reinitialization w" "steady_signal_sent w"
    using Suc.prems by (simp_all add: sends_raw_def)
  have "w1 \<lparr>tx_raw_cnt := (tx_raw_cnt w1 + room) mod ?cnt\<rparr> = w \<lparr>tx_raw_cnt := (Suc ?k + room) mod ?cnt\<rparr>"
    "map (\<lambda>i. raw_sample (signal w1) ((tx_raw_cnt w1 + i) mod ?cnt)) [0..<room] = ?xs" "sends_raw w1" "signal w1 = signal w"
    using r by (simp_all add: w1_def sends_raw_def mod_add_left_eq)
  then have "infrared_worker_tx_fill_buffer ?cb room w1 = Some (True, ?xs, w \<lparr>tx_raw_cnt := (Suc ?k + room) mod ?cnt\<rparr>)"
    using Suc.IH [of w1] by simp
  then obtain xs w2 where rest: "infrared_worker_tx_fill_buffer ?cb room w1 = Some (True, xs, w2)"
    "xs = ?xs" "w2 = w \<lparr>tx_raw_cnt := (Suc ?k + room) mod ?cnt\<rparr>" by blast
  have upt: "[0..<Suc room] = 0 # map Suc [0..<room]" by (simp add: upt_conv_Cons map_Suc_upt del: upt_Suc)
  have steady: "infrared_get_new_signal ?cb w1 = Some (True, w1)" "\<not> need_reinitialization w1"
    using r(4,5) by (cases w; simp add: w1_def infrared_worker_tx_get_signal_steady_callback_def infrared_get_new_signal_def)+
  have next_timing: "tx_next_timing w = Some (if Suc ?k = ?cnt then InfraredStatusDone else InfraredStatusOk, sig_timings (signal w) ! ?k, odd ?k, w1)"
    using r by (auto simp: tx_next_timing_def rd_def odd_iff_mod_2_eq_one w1_def)
  have "infrared_worker_tx_fill_buffer ?cb (Suc room) w = Some (True, raw_sample (signal w) ?k # xs, w2)"
    using r(4) steady(2) by (simp add: next_timing steady(1) rest(1) raw_sample_def)
  then show ?case using r(2) unfolding upt rest(2,3) by (simp add: comp_def)
qed

lemma raw_turn:
  fixes room :: nat and t :: InfraredTxThread
  assumes w: "sends_raw w" "worker_state w = InfraredWorkerStateRunTx" and e: "exit \<or> fill \<or> sent"
  defines "n \<equiv> (if fill then room else 0)" and "left \<equiv> repeats_left t - of_bool sent"
  shows "infrared_worker_tx_turn infrared_worker_tx_get_signal_steady_callback room exit fill sent (t, w) =
    Some (map (\<lambda>i. raw_sample (signal w) ((tx_raw_cnt w + i) mod timings_cnt (signal w))) [0..<n],
      t \<lparr>exit_pending := exit_pending t \<or> exit, repeats_left := left\<rparr>,
      w \<lparr>tx_raw_cnt := (tx_raw_cnt w + n) mod timings_cnt (signal w),
        worker_state := (if (exit_pending t \<or> exit) \<and> left = 0 then InfraredWorkerStateStopTx else InfraredWorkerStateRunTx)\<rparr>)"
proof -
  have "w \<lparr>tx_raw_cnt := (tx_raw_cnt w + 0) mod timings_cnt (signal w)\<rparr> = w" using w(1) by (cases w) (simp add: sends_raw_def)
  moreover have "w \<lparr>worker_state := InfraredWorkerStateRunTx\<rparr> = w" using w(2) by (cases w) simp
  ultimately show ?thesis
    using w e fill_raw [OF w(1), of room] by (cases t; cases w) (auto simp: infrared_worker_tx_turn_def Let_def n_def left_def sends_raw_def)
qed

lemma stop_turns:
  "worker_state w = InfraredWorkerStateStopTx \<Longrightarrow> \<exists>t'. tx_turns callback es (t, w) = Some ([], t', w)"
proof (induction es arbitrary: t)
  case (Cons e es)
  obtain room exit fill sent where e: "e = (room, exit, fill, sent)" by (cases e)
  show ?case using Cons.IH [OF Cons.prems, of "t \<lparr>running := False\<rparr>"] Cons.prems e
    by (cases "running t") (auto simp: infrared_worker_tx_turn_def)
qed simp

abbreviation exits :: "(nat \<times> bool \<times> bool \<times> bool) list \<Rightarrow> bool" where
  "exits es \<equiv> \<exists>e\<in>set es. fst (snd e)"

abbreviation sents :: "(nat \<times> bool \<times> bool \<times> bool) list \<Rightarrow> nat" where
  "sents es \<equiv> length (filter (\<lambda>e. snd (snd (snd e))) es)"

lemma raw_turns:
  assumes "sends_raw w" "worker_state w = InfraredWorkerStateRunTx" "running t" "\<not> (exit_pending t \<and> repeats_left t = 0)"
    "\<forall>(room, exit, fill, sent) \<in> set es. exit \<or> fill \<or> sent"
  shows "\<exists>n t' w'. tx_turns infrared_worker_tx_get_signal_steady_callback es (t, w) =
      Some (map (\<lambda>i. raw_sample (signal w) ((tx_raw_cnt w + i) mod timings_cnt (signal w))) [0..<n], t', w') \<and>
    worker_state w' = (if (exit_pending t \<or> exits es) \<and> repeats_left t \<le> sents es then InfraredWorkerStateStopTx else InfraredWorkerStateRunTx)"
  using assms
proof (induction es arbitrary: t w)
  case Nil
  then show ?case by (auto intro: exI [of _ 0])
next
  case (Cons e es)
  obtain room exit fill sent where e: "e = (room, exit, fill, sent)" by (cases e)
  let ?f = "\<lambda>i. raw_sample (signal w) ((tx_raw_cnt w + i) mod timings_cnt (signal w))"
  define n where "n = (if fill then room else 0)"
  define left where "left = repeats_left t - of_bool sent"
  define t1 where "t1 = t \<lparr>exit_pending := exit_pending t \<or> exit, repeats_left := left\<rparr>"
  define w1 where "w1 = w \<lparr>tx_raw_cnt := (tx_raw_cnt w + n) mod timings_cnt (signal w),
      worker_state := (if exit_pending t1 \<and> left = 0 then InfraredWorkerStateStopTx else InfraredWorkerStateRunTx)\<rparr>"
  have turn: "infrared_worker_tx_turn infrared_worker_tx_get_signal_steady_callback room exit fill sent (t, w) = Some (map ?f [0..<n], t1, w1)"
    using raw_turn [OF Cons.prems(1,2), of exit fill sent room t] Cons.prems(5) e by (simp add: n_def left_def t1_def w1_def)
  have t1: "exit_pending t1 = (exit_pending t \<or> exit)" "repeats_left t1 = left" "running t1" using Cons.prems(3) by (simp_all add: t1_def)
  show ?case
  proof (cases "exit_pending t1 \<and> left = 0")
    case True
    then have stopped: "worker_state w1 = InfraredWorkerStateStopTx" by (simp add: w1_def)
    obtain t' where "tx_turns infrared_worker_tx_get_signal_steady_callback es (t1, w1) = Some ([], t', w1)"
      using stop_turns [OF stopped] by blast
    then have "tx_turns infrared_worker_tx_get_signal_steady_callback (e # es) (t, w) = Some (map ?f [0..<n], t', w1)"
      using turn Cons.prems(3) e by simp
    moreover have "(exit_pending t \<or> exits (e # es)) \<and> repeats_left t \<le> sents (e # es)"
      using True t1(1) e by (cases sent) (auto simp: left_def)
    ultimately show ?thesis using stopped by (intro exI [of _ n] exI [of _ t'] exI [of _ w1]) (simp)
  next
    case False
    then have w1: "sends_raw w1" "worker_state w1 = InfraredWorkerStateRunTx" "signal w1 = signal w"
      "tx_raw_cnt w1 = (tx_raw_cnt w + n) mod timings_cnt (signal w)"
      using Cons.prems(1) by (auto simp: w1_def sends_raw_def)
    obtain m t' w' where r: "tx_turns infrared_worker_tx_get_signal_steady_callback es (t1, w1) =
        Some (map (\<lambda>i. raw_sample (signal w1) ((tx_raw_cnt w1 + i) mod timings_cnt (signal w1))) [0..<m], t', w')"
      "worker_state w' = (if (exit_pending t1 \<or> exits es) \<and> repeats_left t1 \<le> sents es then InfraredWorkerStateStopTx else InfraredWorkerStateRunTx)"
      using Cons.IH [OF w1(1,2) t1(3)] False t1(2) Cons.prems(5) by auto
    have "map (\<lambda>i. raw_sample (signal w1) ((tx_raw_cnt w1 + i) mod timings_cnt (signal w1))) [0..<m] = map (\<lambda>i. ?f (i + n)) [0..<m]"
      unfolding w1(3,4) mod_add_left_eq add.assoc add.commute [of n] ..
    also have "\<dots> = map ?f (map (\<lambda>i. i + n) [0..<m])" unfolding map_map comp_def ..
    also have "\<dots> = map ?f [n..<n + m]" unfolding map_add_upt add.commute [of m n] ..
    finally have more: "tx_turns infrared_worker_tx_get_signal_steady_callback es (t1, w1) = Some (map ?f [n..<n + m], t', w')" using r(1) by (simp only:)
    have "map ?f [0..<n + m] = map ?f [0..<n] @ map ?f [n..<n + m]" by (simp only: upt_add_eq_append [OF le0] map_append)
    then have "tx_turns infrared_worker_tx_get_signal_steady_callback (e # es) (t, w) = Some (map ?f [0..<n + m], t', w')"
      using turn Cons.prems(3) by (simp only: e tx_turns.simps more fst_conv bind.simps prod.case if_False not_True_eq_False)
    moreover have "((exit_pending t \<or> exits (e # es)) \<and> repeats_left t \<le> sents (e # es)) = ((exit_pending t1 \<or> exits es) \<and> repeats_left t1 \<le> sents es)"
      using t1 e by (cases sent) (auto simp: left_def)
    ultimately show ?thesis using r(2) by auto
  qed
qed

text \<open>
  A restart with no messages left: the counter wraps around, and the thread then waits for four thousand million messages
  before it obeys a request to end.
\<close>

lemma restart_wraps:
  assumes "worker_state w = InfraredWorkerStateStartTx" "repeats_left t = 0"
    "infrared_worker_tx_turn callback room exit fill sent (t, w) = Some (xs, t', w')"
  shows "repeats_left t' = 2 ^ 32 - 1"
  using assms by (auto simp: infrared_worker_tx_turn_def split: bind_splits)

lemma set_raw:
  assumes "length (sig_timings (signal v)) = MAX_TIMINGS_AMOUNT + 1" "0 < length ts" "length ts \<le> MAX_TIMINGS_AMOUNT"
    "INFRARED_MIN_FREQUENCY \<le> freq" "freq \<le> INFRARED_MAX_FREQUENCY" "0 < duty" "duty \<le> 100"
  shows "infrared_worker_set_raw_signal v ts (length ts) freq duty =
    Some (v \<lparr>signal := (signal v) \<lparr>sig_frequency := freq, sig_duty_cycle := duty,
      sig_timings := INFRARED_RAW_TX_TIMING_DELAY_US # ts @ drop (Suc (length ts)) (sig_timings (signal v)),
      decoded := False, timings_cnt := length ts + 1\<rparr>\<rparr>)"
  using assms by (cases "sig_timings (signal v)") (simp_all add: infrared_worker_set_raw_signal_def wr_def Let_def)

lemma new_raw_signal:
  assumes "\<not> steady_signal_sent v" "\<not> decoded (signal v)" "1 < timings_cnt (signal v)"
  shows "\<exists>v'. infrared_get_new_signal infrared_worker_tx_get_signal_steady_callback v = Some (True, v') \<and>
    signal v' = signal v \<and> tx_raw_cnt v' = 0 \<and> steady_signal_sent v'"
  using assms by (simp add: infrared_get_new_signal_def infrared_worker_tx_get_signal_steady_callback_def Let_def)

lemma loop_numerals:
  "common_decode_loop (numeral n) spec st = do {
     r \<leftarrow> common_decode_step spec st;
     (case r of Inl st \<Rightarrow> Some st | Inr st \<Rightarrow> common_decode_loop (pred_numeral n) spec st)
   }"
  "preamble_loop (numeral n) pd decoder =
     (if d_timings_cnt decoder \<ge> 2 then do {
        (result, decoder) \<leftarrow> preamble_step pd decoder;
        if result then Some (True, decoder) else preamble_loop (pred_numeral n) pd decoder
      } else Some (False, decoder))"
  "decode_bits_loop (numeral n) spec decoder =
     (if d_timings_cnt decoder \<noteq> 0 then do {
        r \<leftarrow> decode_bits_step spec decoder;
        (case r of Inl r \<Rightarrow> Some r | Inr decoder \<Rightarrow> decode_bits_loop (pred_numeral n) spec decoder)
      } else Some (InfraredStatusOk, decoder))"
  by (simp_all add: numeral_eq_Suc)

lemmas run_defs = infrared_common_decode_def common_decode_step_def infrared_check_preamble_def preamble_step_def
  decoder_consume_def consume_samples_def infrared_common_decode_bits_def decode_bits_step_def infrared_common_decoder_reset_state_def infrared_common_decoder_reset_def
  common_decode_fuel_def INFRARED_SAMPLES_def fresh_decoder_def infrared_common_decoder_alloc_def Let_def rd_def wr_def loop_numerals

lemma zero_len: "0 \<notin> set (databit_lens pd)" by (auto simp: databit_lens_def dest: set_takeWhileD)

text \<open>A mark and a space that are too short for every protocol: nobody reports a message.\<close>

abbreviation short_signal :: "(bool \<times> nat) list" where
  "short_signal \<equiv> [(True, 100), (False, 200)]"

abbreviation silent_on :: "InfraredCommonProtocolSpec \<Rightarrow> (bool \<times> nat) list \<Rightarrow> bool" where
  "silent_on spec ss \<equiv> \<exists>d. decoder_trace spec (fresh_decoder spec) ss = Some (replicate (length ss) None, d) \<and>
     infrared_common_decoder_check_ready spec d = Some (False, d)"

lemma short_preamble:
  assumes "100 + preamble_tolerance (timings spec) \<le> preamble_mark (timings spec)"
  shows "silent_on spec short_signal"
  using assms by (simp add: run_defs zero_len infrared_common_decoder_check_ready_def MATCH_TIMING_float_def)

lemma short_rc5: "silent_on infrared_protocol_rc5 short_signal"
  by (simp add: run_defs zero_len infrared_common_decoder_check_ready_def infrared_protocol_rc5_def infrared_common_decode_manchester_def
    MATCH_TIMING_def INFRARED_RC5_BIT_def INFRARED_RC5_BIT_TOLERANCE_def)

lemma short_rows:
  assumes "i < 8"
  shows "silent_on (row_spec i) short_signal"
proof -
  have "i = 0 \<or> i = 1 \<or> i = 2 \<or> i = 3 \<or> i = 4 \<or> i = 5 \<or> i = 6 \<or> i = 7" using assms by arith
  moreover have "100 + preamble_tolerance (timings spec) \<le> preamble_mark (timings spec)"
    if "spec \<in> {infrared_protocol_nec, infrared_protocol_samsung32, infrared_protocol_rc6, infrared_protocol_sirc,
      infrared_protocol_pioneer, infrared_protocol_kaseikyo, infrared_protocol_rca}" for spec
    using that by (auto simp: infrared_protocol_nec_def infrared_protocol_samsung32_def infrared_protocol_rc6_def infrared_protocol_sirc_def
      infrared_protocol_pioneer_def infrared_protocol_kaseikyo_def infrared_protocol_rca_def INFRARED_KASEIKYO_UNIT_def)
  ultimately show ?thesis using short_preamble short_rc5 by (elim disjE) (simp_all only: row_specs insert_iff simp_thms)
qed

lemma first_none: "first_message (map (\<lambda>i. None) xs) = None"
  by (induction xs) (simp_all add: first_message_def)

lemma silent_handler:
  assumes "\<forall>i<8. silent_on (row_spec i) ss"
  shows "\<exists>H h. infrared_alloc_decoder = Some H \<and> infrared_decode_samples H ss = Some (replicate (length ss) None, h) \<and>
    infrared_check_decoder_ready h = Some (None, h)"
proof -
  obtain H where H: "infrared_alloc_decoder = Some H" "length H = length infrared_encoder_decoder" "\<And>i. i < 8 \<Longrightarrow> H ! i = fresh_decoder (row_spec i)"
    using alloc_handler by (simp add: row_specs(1))
  define d where "d i = snd (the (decoder_trace (row_spec i) (H ! i) ss))" for i
  have d: "decoder_trace (row_spec i) (H ! i) ss = Some (replicate (length ss) None, d i)"
    "infrared_common_decoder_check_ready (row_spec i) (d i) = Some (False, d i)" if "i < 8" for i
    using assms that H(3) [OF that] by (auto simp: d_def)
  let ?h = "map d [0..<8]"
  have some: "\<not> (\<exists>i<length infrared_encoder_decoder. decoder_trace (row_spec i) (H ! i) ss = None)"
    using d(1) by (auto simp: row_specs(1))
  have row: "map (\<lambda>i. fst (the (decoder_trace (row_spec i) (H ! i) ss)) ! j) [0..<length infrared_encoder_decoder] = map (\<lambda>i. None) [0..<8 :: nat]"
    if "j < length ss" for j
    using d(1) that by (intro map_cong) (auto simp: row_specs(1))
  have rows: "map (\<lambda>i. snd (the (decoder_trace (row_spec i) (H ! i) ss))) [0..<length infrared_encoder_decoder] = ?h"
    by (simp add: d_def row_specs(1))
  have "map (\<lambda>j. first_message (map (\<lambda>i. fst (the (decoder_trace (row_spec i) (H ! i) ss)) ! j) [0..<length infrared_encoder_decoder])) [0..<length ss] =
      replicate (length ss) None"
    by (rule nth_equalityI) (simp_all only: length_map length_upt length_replicate nth_map nth_upt minus_nat.diff_0 add_0 row first_none nth_replicate)
  then have "infrared_decode_samples H ss = Some (replicate (length ss) None, ?h)"
    unfolding decode_samples_eq [OF H(2)] if_not_P [OF some] rows by (simp only:)
  moreover have "for_rows (\<lambda>row d. do { (ok, d) \<leftarrow> infrared_common_decoder_check_ready (protocol_spec row) d; Some (if ok then Some (d_message d) else None, d) })
      infrared_encoder_decoder ?h = Some (map (\<lambda>i. None) [0..<length infrared_encoder_decoder], map d [0..<length infrared_encoder_decoder])"
    by (rule for_rows_some) (simp_all add: row_specs(1) d(2))
  then have "infrared_check_decoder_ready ?h = Some (None, ?h)"
    by (simp only: infrared_check_decoder_ready_def row_specs(1) first_none bind.simps prod.case)
  ultimately show ?thesis using H(1) by (intro exI conjI)
qed

section \<open>Property\<close>

text \<open>
  C5. Learning an unknown remote. A signal that no decoder reports anything for is captured with all its samples from the
  first mark on, if they fit into the buffer, and handed to the callback as a raw signal at the timeout. A
  worker that is given these timings and told to send the same signal on and on fills the hardware's buffer
  with a pause and then exactly the samples that were captured, with their levels.
\<close>

theorem infrared_raw_replay:
  assumes w: "decode_enable w" "\<not> rx_overrun w" "timings_cnt (signal w) = 0" "length (sig_timings (signal w)) = MAX_TIMINGS_AMOUNT + 1"
    and undecoded: "infrared_decode_samples (infrared_decoder w) ss = Some (replicate (length ss) None, h)" "infrared_check_decoder_ready h = Some (None, h')"
    and ss: "2 \<le> length (from_mark ss)" "length (from_mark ss) \<le> MAX_TIMINGS_AMOUNT" "\<forall>i<length (from_mark ss). fst (from_mark ss ! i) = even i"
    and v: "length (sig_timings (signal v)) = MAX_TIMINGS_AMOUNT + 1" "\<not> steady_signal_sent v"
    and freq: "INFRARED_MIN_FREQUENCY \<le> freq" "freq \<le> INFRARED_MAX_FREQUENCY" "0 < duty" "duty \<le> 100"
  shows "\<exists>w' s v1 v2 v3 xs. infrared_worker_rx_turn w True ss False True = Some (w', [s], False) \<and> \<not> decoded s \<and>
    infrared_worker_set_raw_signal v (take (timings_cnt s) (sig_timings s)) (timings_cnt s) freq duty = Some v1 \<and>
    infrared_get_new_signal infrared_worker_tx_get_signal_steady_callback v1 = Some (True, v2) \<and>
    infrared_worker_tx_fill_buffer infrared_worker_tx_get_signal_steady_callback (Suc (length (from_mark ss))) (v2 \<lparr>need_reinitialization := False\<rparr>) =
      Some (True, xs, v3) \<and>
    map snd xs = (False, INFRARED_RAW_TX_TIMING_DELAY_US) # from_mark ss \<and>
    map fst xs = replicate (length (from_mark ss)) FuriHalInfraredTxGetDataStateOk @ [FuriHalInfraredTxGetDataStateDone]"
proof -
  let ?k = "from_mark ss" and ?n = "length (from_mark ss)"
  obtain raw where r: "rx_samples w ss = Some (w \<lparr>infrared_decoder := h, signal := (signal w) \<lparr>sig_timings := raw, timings_cnt := ?n\<rparr>\<rparr>, [], False)"
    "length raw = MAX_TIMINGS_AMOUNT + 1" "take ?n raw = map snd ?k"
    using rx_undecoded [OF w(1,2,4) undecoded(1)] w(3) ss(2) by auto
  let ?s = "(signal w) \<lparr>sig_timings := raw, timings_cnt := ?n, decoded := False\<rparr>"
  have "(signal w) \<lparr>sig_timings := raw, timings_cnt := ?n\<rparr> \<lparr>decoded := False\<rparr> = ?s" by simp
  then obtain w' where rx: "infrared_worker_rx_turn w True ss False True = Some (w', [?s], False)"
    using r(1) w(2) ss(1) undecoded(2) by (simp add: infrared_worker_rx_turn_def infrared_worker_process_timeout_def Let_def)
  let ?raw = "INFRARED_RAW_TX_TIMING_DELAY_US # map snd ?k @ drop (Suc ?n) (sig_timings (signal v))"
  let ?v1 = "v \<lparr>signal := (signal v) \<lparr>sig_frequency := freq, sig_duty_cycle := duty, sig_timings := ?raw, decoded := False, timings_cnt := ?n + 1\<rparr>\<rparr>"
  have len: "0 < length (map snd ?k)" "length (map snd ?k) \<le> MAX_TIMINGS_AMOUNT"
    using ss(1,2) unfolding length_map by linarith+
  have set: "infrared_worker_set_raw_signal v (map snd ?k) ?n freq duty = Some ?v1"
    using set_raw [OF v(1) len freq] unfolding length_map .
  have gt: "1 < timings_cnt (signal ?v1)" using len(1) by (simp del: dropWhile_eq_Nil_conv length_greater_0_conv)
  obtain v2 where v2: "infrared_get_new_signal infrared_worker_tx_get_signal_steady_callback ?v1 = Some (True, v2)"
    "signal v2 = signal ?v1" "tx_raw_cnt v2 = 0" "steady_signal_sent v2"
    using new_raw_signal [of ?v1] v(2) gt by auto
  let ?v2 = "v2 \<lparr>need_reinitialization := False\<rparr>"
  let ?xs = "map (raw_sample (signal ?v2)) [0..<Suc ?n]"
  have sends: "sends_raw ?v2" using v2(2-4) v(1) ss(2) by (simp add: sends_raw_def)
  have "map (\<lambda>i. raw_sample (signal ?v2) ((tx_raw_cnt ?v2 + i) mod timings_cnt (signal ?v2))) [0..<Suc ?n] = ?xs"
    using v2(2,3) by (intro map_cong refl) (simp add: less_Suc_eq_le [symmetric] del: upt_Suc)
  then have fill: "infrared_worker_tx_fill_buffer infrared_worker_tx_get_signal_steady_callback (Suc ?n) ?v2 =
      Some (True, ?xs, ?v2 \<lparr>tx_raw_cnt := (tx_raw_cnt ?v2 + Suc ?n) mod timings_cnt (signal ?v2)\<rparr>)"
    using fill_raw [OF sends, of "Suc ?n"] by simp
  have levels: "map snd ?xs = (False, INFRARED_RAW_TX_TIMING_DELAY_US) # ?k"
  proof (rule nth_equalityI)
    fix i assume i: "i < length (map snd ?xs)"
    then show "map snd ?xs ! i = ((False, INFRARED_RAW_TX_TIMING_DELAY_US) # ?k) ! i"
      using ss(3) v2(2) by (cases i) (auto simp: raw_sample_def nth_append prod_eq_iff simp del: upt_Suc)
  qed simp
  have states: "map fst ?xs = replicate ?n FuriHalInfraredTxGetDataStateOk @ [FuriHalInfraredTxGetDataStateDone]"
    using v2(2) by (intro nth_equalityI) (auto simp: raw_sample_def nth_append simp del: upt_Suc)
  have set': "infrared_worker_set_raw_signal v (take (timings_cnt ?s) (sig_timings ?s)) (timings_cnt ?s) freq duty = Some ?v1"
    using set r(3) by simp
  have raw: "\<not> decoded ?s" by simp
  show ?thesis by ((rule exI)+, intro conjI) (rule rx raw set' v2(1) fill levels states)+
qed

lemma infrared_raw_replay_witness:
  "\<exists>w w' s v1 v2 v3. infrared_worker_alloc = Some w \<and> infrared_worker_rx_turn w True short_signal False True = Some (w', [s], False) \<and> \<not> decoded s \<and>
    infrared_worker_set_raw_signal w (take (timings_cnt s) (sig_timings s)) (timings_cnt s) 38000 33 = Some v1 \<and>
    infrared_get_new_signal infrared_worker_tx_get_signal_steady_callback v1 = Some (True, v2) \<and>
    infrared_worker_tx_fill_buffer infrared_worker_tx_get_signal_steady_callback 3 (v2 \<lparr>need_reinitialization := False\<rparr>) =
      Some (True, [(FuriHalInfraredTxGetDataStateOk, False, 180000), (FuriHalInfraredTxGetDataStateOk, True, 100),
                   (FuriHalInfraredTxGetDataStateDone, False, 200)], v3)"
proof -
  obtain H h where H: "infrared_alloc_decoder = Some H" "infrared_decode_samples H short_signal = Some (replicate (length short_signal) None, h)"
    "infrared_check_decoder_ready h = Some (None, h)"
    using silent_handler short_rows by blast
  obtain w where w: "infrared_worker_alloc = Some w" "decode_enable w" "\<not> rx_overrun w" "timings_cnt (signal w) = 0"
    "length (sig_timings (signal w)) = MAX_TIMINGS_AMOUNT + 1" "\<not> steady_signal_sent w" "infrared_decoder w = H"
    by (simp add: infrared_worker_alloc_def H(1))
  have mark: "from_mark short_signal = short_signal" by simp
  have alt: "\<forall>i<length (from_mark short_signal). fst (from_mark short_signal ! i) = even i"
    unfolding mark by (auto simp: less_Suc_eq)
  obtain w' s v1 v2 v3 xs where r: "infrared_worker_rx_turn w True short_signal False True = Some (w', [s], False)" "\<not> decoded s"
    "infrared_worker_set_raw_signal w (take (timings_cnt s) (sig_timings s)) (timings_cnt s) 38000 33 = Some v1"
    "infrared_get_new_signal infrared_worker_tx_get_signal_steady_callback v1 = Some (True, v2)"
    "infrared_worker_tx_fill_buffer infrared_worker_tx_get_signal_steady_callback (Suc (length (from_mark short_signal))) (v2 \<lparr>need_reinitialization := False\<rparr>) =
      Some (True, xs, v3)"
    "map snd xs = (False, INFRARED_RAW_TX_TIMING_DELAY_US) # from_mark short_signal"
    "map fst xs = replicate (length (from_mark short_signal)) FuriHalInfraredTxGetDataStateOk @ [FuriHalInfraredTxGetDataStateDone]"
    using infrared_raw_replay [OF w(2-5) H(2) [folded w(7)] H(3) _ _ alt w(5,6), of 38000 33]
    by (auto simp: MAX_TIMINGS_AMOUNT_def INFRARED_MIN_FREQUENCY_def INFRARED_MAX_FREQUENCY_def)
  have "xs = zip (map fst xs) (map snd xs)" by (rule zip_map_fst_snd [symmetric])
  then have "xs = [(FuriHalInfraredTxGetDataStateOk, False, 180000), (FuriHalInfraredTxGetDataStateOk, True, 100), (FuriHalInfraredTxGetDataStateDone, False, 200)]"
    unfolding r(6,7) mark by (simp add: INFRARED_RAW_TX_TIMING_DELAY_US_def)
  moreover have "Suc (length (from_mark short_signal)) = 3" by simp
  ultimately show ?thesis using w(1) r(1-4) r(5) by metis
qed



end
