(* ===== verification/Spec2Isabelle.thy ===== *)
theory Spec2Isabelle
  imports BitLib DateTime Varint Strint Hex Manchester BitBuffer Checksums Crypto1 SubGhzMath SnakeGame Em4100 InfraredWorker
begin

text \<open>
  Verification of the device-independent core of the Kiisu firmware.

  \<^bold>\<open>The program.\<close> The firmware runs on a microcontroller: a kernel (\<^verbatim>\<open>furi\<close>) over FreeRTOS, services (GUI,
  storage, RPC), libraries for the radios and card readers of the device, and applications. What a user
  relies on when a remote control or a card is read and played back are codecs in \<^verbatim>\<open>lib/\<close> that take and
  produce lists of bytes and of timed pulses. They are sequential code without devices behind it,
  and they are what is modelled here, together with the arithmetic, text and calendar helpers that the
  other parts call, and the rules of one application.

  \<^bold>\<open>Conventions.\<close> Fixed-width integers are words of their width, so that \<open>+\<close> wraps and the bit operators are the
  C ones (\<open>shl\<close>, \<open>shr\<close> of \<open>Prelude\<close>); durations, indices and sizes that cannot wrap are natural numbers. A
  struct is a record, an enum a datatype with the source's constructors. A function that can run into
  \<^verbatim>\<open>furi_check\<close>, \<^verbatim>\<open>furi_assert\<close>, \<^verbatim>\<open>furi_crash\<close> or an access outside an array returns an option, and
  \<^const>\<open>None\<close> is that end of the program; a function that reports failure by its result has that result in
  the model. Counted loops are \<open>for_loop\<close>, other loops are recursions with a termination proof or with
  fuel; running out of fuel is \<^const>\<open>None\<close> too, and the theorems show a \<^const>\<open>Some\<close>, so that the fuel is enough where they
  apply. Pointers into the caller's buffer are the buffer and an index, out-parameters are components
  of the result.

  \<^bold>\<open>Theories and sources.\<close>
  \<^item> \<open>Prelude\<close>: words, C operators, array accesses \<open>rd\<close> and \<open>wr\<close>, loops, the locale \<open>bit_store\<close> of anything that
    has addressable bits.
  \<^item> \<open>BitLib\<close>, \<^verbatim>\<open>lib/bit_lib/bit_lib.c\<close>: bit fields, parity, reversal, CRC-8 and CRC-16, numbers and BCD.
    The bits of a byte array interpret \<open>bit_store\<close>; on that rest the value of a field that is read, writing
    and reading back, and that the rest of the array is kept.
  \<^item> \<open>DateTime\<close>, \<^verbatim>\<open>lib/datetime/datetime.c\<close>: against a calendar that counts days, both conversions are right
    for the dates of the 32-bit clock.
  \<^item> \<open>Varint\<close>, \<open>Strint\<close>, \<open>Hex\<close>, \<^verbatim>\<open>lib/toolbox/varint.c\<close>, \<^verbatim>\<open>strint.c\<close>, \<^verbatim>\<open>hex.c\<close>: round trips, and what the number
    parser accepts with its overflow checks.
  \<^item> \<open>Manchester\<close>, \<^verbatim>\<open>lib/toolbox/manchester_decoder.c\<close>, \<^verbatim>\<open>manchester_encoder.c\<close>: the two state machines are inverse.
  \<^item> \<open>BitBuffer\<close>, \<^verbatim>\<open>lib/toolbox/bit_buffer.c\<close>: every operation, as steps between reachable buffers that keep the
    invariant; bytes with parity bits are read back.
  \<^item> \<open>XorLinear\<close>, \<open>Checksums\<close>, \<^verbatim>\<open>lib/toolbox/crc32_calc.c\<close>, \<^verbatim>\<open>lib/one_wire/maxim_crc.c\<close>, \<^verbatim>\<open>lib/nfc/helpers/*_crc.c\<close>: the optimised
    routines are the reference checksum; the locale \<open>frame_crc\<close> is what appending, checking and trimming
    a checksum of a frame promise, and the three NFC checksums interpret it.
  \<^item> \<open>Crypto1\<close>, \<^verbatim>\<open>lib/nfc/helpers/crypto1.c\<close>, \<^verbatim>\<open>nfc_util.c\<close>: the stream cipher, its inverse, encrypted frames with parity.
  \<^item> \<open>SubGhzMath\<close>, \<^verbatim>\<open>lib/subghz/blocks/math.c\<close>, \<^verbatim>\<open>protocols/keeloq_common.c\<close>: checksums, key reversal, KeeLoq and its
    learning modes.
  \<^item> \<open>Em4100\<close>, \<^verbatim>\<open>lib/lfrfid/protocols/protocol_em4100.c\<close>: the frame with its parities, the encoder, and the decoder of
    pulse lengths on top of \<open>Manchester\<close>; the locale \<open>card_codec\<close> states what such a codec promises.
  \<^item> \<open>SnakeGame\<close>, \<^verbatim>\<open>applications/system/snake_game/snake_game.c\<close>: the game as a step relation; the snake stays on the
    board without crossing itself. The random numbers are an argument.
  \<^item> \<open>Infrared\<close>, \<^verbatim>\<open>lib/infrared/encoder_decoder/common\<close>: the state machines that every infrared protocol uses, with
    the protocol table as an argument.
  \<^item> \<open>InfraredPulse\<close>: the locale \<open>pulse_distance_protocol\<close>, what a table of a pulse-distance protocol satisfies, and in it the signal
    that the encoder sends and that the decoder reports the message.
  \<^item> \<open>InfraredProtocols\<close>, \<^verbatim>\<open>nec\<close>, \<^verbatim>\<open>samsung\<close>, \<^verbatim>\<open>rca\<close>, \<^verbatim>\<open>kaseikyo\<close>, \<^verbatim>\<open>pioneer\<close> under \<^verbatim>\<open>lib/infrared/encoder_decoder\<close>: the tables and their
    interpretations; \<open>InfraredRepeat\<close>: repeated messages, and two signals that the code does not handle.
  \<^item> \<open>InfraredManchester\<close>, \<open>InfraredToggle\<close>, \<^verbatim>\<open>rc5\<close>, \<^verbatim>\<open>rc6\<close>: the same for the Manchester-coded protocols, where the signal
    is also merged into pulses and the toggle bit tells presses apart. The locale \<open>manchester_protocol\<close> is what such a
    table satisfies, and \<open>toggle_protocol\<close> extends it by the toggle bit.
  \<^item> \<open>InfraredSirc\<close>, \<^verbatim>\<open>sirc\<close>: the pulse-width protocol, whose repetitions are whole messages one period apart.
  \<^item> \<open>InfraredTotal\<close>: the locale \<open>bounded_protocol\<close>, what the functions of a table have to promise for the
    common decoder to return on every signal; \<open>rejecting_protocol\<close> gives it for the pulse-distance protocols, and RC5, which
    has no preamble, is shown by itself. Pioneer does not satisfy it, see \<open>InfraredRepeat\<close>.
  \<^item> \<open>InfraredFront\<close>, \<^verbatim>\<open>lib/infrared/encoder_decoder/infrared.c\<close>, \<^verbatim>\<open>lib/infrared/worker/infrared_transmit.c\<close>: the table of protocols, the
    decoders side by side, the encoder handler, names, and the callbacks that the hardware fetches a signal through.
  \<^item> \<open>InfraredWorker\<close>, \<^verbatim>\<open>lib/infrared/worker/infrared_worker.c\<close>: the turns of the receiving and of the sending thread, with
    the events and the samples of a turn as arguments; an undecoded signal is captured and replayed, and a thread that is told
    to end does so after the messages that are left.

  \<^bold>\<open>Fuel.\<close> The preamble search and the bit loop of the common infrared decoder consume a sample in every
  round, and the buffer has six, so that a fuel of seven is enough; the outer loop changes its state at most
  twice per sample and has fuel fifteen. The decoders' theorems have \<^const>\<open>Some\<close> as result, with arbitrary samples in
  \<open>infrared_decoders_total\<close>.

  \<^bold>\<open>Not modelled.\<close> The kernel, the services, the hardware abstraction and the other workers are
  threads, interrupts and register accesses; FatFs, u8g2, mJS, nanopb and micro-ecc are vendored. The remaining
  card, sub-GHz and NFC protocols are codecs of the same shape as the ones here, whose signal side is
  interleaved with device callbacks and with files in the flipper format.
\<close>

end
